(* ===== verification/Jixia_Prelude.thy ===== *)
theory Jixia_Prelude
  imports Main "HOL-Library.Word" "HOL-Library.Monad_Syntax"
begin

text \<open>
  Shared vocabulary of the development: the machine types of the RV64 firmware, the
  outcome type of operations that may stop a hart, and generic facts about words,
  options and lists that the component theories use.

  An operation that can reach \<^verbatim>\<open>hart::park()\<close> (or dereference a null pointer) returns an
  \<open>option\<close>: \<open>None\<close> means that the hart never returns from the call.  The option monad
  of \<open>Monad_Syntax\<close> sequences such calls; a pointer is itself an \<open>option\<close>, so binding a
  pointer is dereferencing it.
\<close>

unbundle bit_operations_syntax

section \<open>Machine types\<close>

type_synonym u8 = "8 word"
type_synonym u16 = "16 word"
type_synonym u32 = "32 word"
type_synonym u64 = "64 word"

text \<open>The largest unsigned 64-bit value, \<^verbatim>\<open>UINT64_MAX\<close>.\<close>

abbreviation UINT64_MAX :: u64 where
  "UINT64_MAX \<equiv> - 1"

text \<open>A variadic argument of \<^verbatim>\<open>printk\<close>: a register-sized value, or a string (\<open>None\<close> is a null pointer).\<close>

datatype log_arg = Arg_word u64 | Arg_text "string option"

text \<open>Pointers into the statically allocated pools are slot numbers; \<open>None\<close> is \<^verbatim>\<open>nullptr\<close>.\<close>

type_synonym 'a ptr = "'a option"

section \<open>Fail-closed control flow\<close>

text \<open>\<open>park_unless b\<close> continues when \<open>b\<close> holds and parks the hart otherwise.\<close>

definition park_unless :: "bool \<Rightarrow> unit option" where
  "park_unless b = (if b then Some () else None)"

lemma park_unless_simps [simp]:
  "park_unless True = Some ()"
  "park_unless False = None"
  by (simp_all add: park_unless_def)

lemma park_unless_Some [simp]: "park_unless b = Some u \<longleftrightarrow> b"
  by (cases b) auto

lemma park_unless_None [simp]: "park_unless b = None \<longleftrightarrow> \<not> b"
  by (cases b) auto

lemma bind_park_unless: "(do { _ \<leftarrow> park_unless b; f }) = (if b then f else None)"
  by (simp add: park_unless_def)

section \<open>Unsigned arithmetic read through \<open>unat\<close>\<close>

lemma unat_bound: "unat (w :: 'a::len word) < 2 ^ LENGTH('a)"
  by (rule unsigned_less)

lemma unat_add_no_wrap:
  fixes a b :: "'a::len word"
  assumes "unat a + unat b < 2 ^ LENGTH('a)"
  shows "unat (a + b) = unat a + unat b"
  using assms by (simp add: unat_add_lem)

lemma unat_add_wrap:
  fixes a b :: "'a::len word"
  assumes "2 ^ LENGTH('a) \<le> unat a + unat b"
  shows "unat (a + b) = unat a + unat b - 2 ^ LENGTH('a)"
proof -
  have "unat a + unat b - 2 ^ LENGTH('a) < 2 ^ LENGTH('a)"
    using unat_bound [of a] unat_bound [of b] by linarith
  moreover have "(unat a + unat b) mod 2 ^ LENGTH('a)
      = (unat a + unat b - 2 ^ LENGTH('a)) mod 2 ^ LENGTH('a)"
    using assms by (simp add: le_mod_geq)
  ultimately show ?thesis
    by (simp add: unat_word_ariths)
qed

text \<open>The overflow test the sources use: \<^verbatim>\<open>base + size > base\<close>.\<close>

lemma word_less_add_iff:
  fixes a b :: "'a::len word"
  shows "a < a + b \<longleftrightarrow> b \<noteq> 0 \<and> unat a + unat b < 2 ^ LENGTH('a)"
proof (cases "unat a + unat b < 2 ^ LENGTH('a)")
  case True
  have "a < a + b \<longleftrightarrow> 0 < unat b"
    by (simp add: word_less_nat_alt unat_add_no_wrap [OF True])
  with True show ?thesis
    by (simp add: unat_gt_0)
next
  case False
  then have "unat (a + b) \<le> unat a"
    using unat_add_wrap [of a b] unat_bound [of b] by linarith
  with False show ?thesis
    by (simp add: word_less_nat_alt)
qed

lemma unat_of_nat_small:
  "n < 2 ^ LENGTH('a) \<Longrightarrow> unat (of_nat n :: 'a::len word) = n"
  by (simp add: unat_of_nat)

lemma of_nat_word_inj:
  "i < 2 ^ LENGTH('a) \<Longrightarrow> j < 2 ^ LENGTH('a) \<Longrightarrow>
     (of_nat i :: 'a::len word) = of_nat j \<longleftrightarrow> i = j"
  by (metis unat_of_nat_small)

lemma unat_sub_le:
  fixes a b :: "'a::len word"
  assumes "b \<le> a"
  shows "unat (a - b) = unat a - unat b"
  using assms by (rule unat_sub)

lemma word_mod_eq_0_iff:
  fixes a :: "'a::len word"
  shows "a mod b = 0 \<longleftrightarrow> unat b dvd unat a"
  by (metis dvd_eq_mod_eq_0 unat_eq_zero unat_mod)

section \<open>Lists\<close>

lemma distinct_length_le_bound:
  assumes "distinct xs" and "\<forall>x \<in> set xs. x < (n::nat)"
  shows "length xs \<le> n"
proof -
  have "card (set xs) \<le> card {..<n}"
    using assms(2) by (intro card_mono) auto
  with assms(1) show ?thesis
    by (simp add: distinct_card)
qed

end
