(* ===== verification/Interfaces.thy ===== *)
theory Interfaces
  imports Jixia_Prelude
begin

text \<open>
  The contracts between components, as locales: a transition system with an invariant, one whose
  runs are bounded by a stage, a bounded first-in first-out queue and an encoding.  The theory
  of each component that promises one of them interprets the locale on its definitions.
\<close>

section \<open>Transition systems\<close>

locale transition_system =
  fixes step :: "'s \<Rightarrow> 's \<Rightarrow> bool"
    and inv :: "'s \<Rightarrow> bool"
  assumes step_inv: "step s s' \<Longrightarrow> inv s \<Longrightarrow> inv s'"
begin

lemma reach_inv: "step\<^sup>*\<^sup>* s s' \<Longrightarrow> inv s \<Longrightarrow> inv s'"
  by (induction rule: rtranclp_induct) (auto intro: step_inv)

lemma relpow_inv: "(step ^^ n) s s' \<Longrightarrow> inv s \<Longrightarrow> inv s'"
  by (induction n arbitrary: s') (auto intro: step_inv)

end

text \<open>Every step raises a stage that is bounded: runs are finite, and monotone in the stage.\<close>

locale staged_system = transition_system +
  fixes stage :: "'a \<Rightarrow> nat"
    and bound :: nat
  assumes stage_step: "step s s' \<Longrightarrow> inv s \<Longrightarrow> stage s' = Suc (stage s)"
    and stage_bound: "inv s \<Longrightarrow> stage s \<le> bound"
begin

lemma run_stage: "(step ^^ n) s s' \<Longrightarrow> inv s \<Longrightarrow> stage s' = stage s + n"
proof (induction n arbitrary: s')
  case (Suc n)
  then obtain s1 where "(step ^^ n) s s1" "step s1 s'" by auto
  with Suc show ?case using stage_step [of s1 s'] relpow_inv by simp
qed simp

lemma run_bounded: "(step ^^ n) s s' \<Longrightarrow> inv s \<Longrightarrow> stage s + n \<le> bound"
  using run_stage [of n s s'] stage_bound [of s'] relpow_inv [of n s s'] by simp

lemma final_stage: "inv s \<Longrightarrow> stage s = bound \<Longrightarrow> \<not> step s s'"
  using stage_step [of s s'] stage_bound [of s'] step_inv [of s s'] by auto

end

section \<open>Queues\<close>

text \<open>A client's use of a queue, and what it observes of the list that specifies the queue.\<close>

datatype 'a queue_op = Put 'a | Get

fun run_queue_ops ::
    "('a \<Rightarrow> 's \<Rightarrow> 's option) \<Rightarrow> ('s \<Rightarrow> ('a option \<times> 's) option) \<Rightarrow> 'a queue_op list \<Rightarrow> 's \<Rightarrow> ('a option list \<times> 's) option" where
  "run_queue_ops put get [] s = Some ([], s)"
| "run_queue_ops put get (Put a # ops) s = do { s1 \<leftarrow> put a s; run_queue_ops put get ops s1 }"
| "run_queue_ops put get (Get # ops) s = do {
     (x, s1) \<leftarrow> get s;
     (xs, s2) \<leftarrow> run_queue_ops put get ops s1;
     Some (x # xs, s2)
   }"

fun run_list_ops :: "'a queue_op list \<Rightarrow> 'a list \<Rightarrow> 'a option list \<times> 'a list" where
  "run_list_ops [] xs = ([], xs)"
| "run_list_ops (Put a # ops) xs = run_list_ops ops (xs @ [a])"
| "run_list_ops (Get # ops) xs =
     (let (ys, zs) = run_list_ops ops (tl xs) in ((if xs = [] then None else Some (hd xs)) # ys, zs))"

text \<open>The elements a client puts, and the elements it got.\<close>

fun puts :: "'a queue_op list \<Rightarrow> 'a list" where
  "puts [] = []"
| "puts (Put a # ops) = a # puts ops"
| "puts (Get # ops) = puts ops"

definition got :: "'a option list \<Rightarrow> 'a list" where
  "got ys = map the (filter (\<lambda>y. y \<noteq> None) ys)"

lemma got_simps [simp]: "got [] = []" "got (None # ys) = got ys" "got (Some y # ys) = y # got ys"
  by (simp_all add: got_def)

text \<open>Nothing is lost, duplicated or reordered.\<close>

lemma list_ops_conserve: "run_list_ops ops xs = (ys, zs) \<Longrightarrow> got ys @ zs = xs @ puts ops"
proof (induction ops arbitrary: xs ys zs)
  case (Cons op ops)
  show ?case
  proof (cases op)
    case Get
    obtain ys' where "run_list_ops ops (tl xs) = (ys', zs)" "ys = (if xs = [] then None else Some (hd xs)) # ys'"
      using Cons.prems Get by (auto split: prod.splits)
    then show ?thesis using Cons.IH [of "tl xs" ys' zs] Get by (cases xs) auto
  qed (use Cons in auto)
qed simp

text \<open>The admissible sequences: every put finds room for its element.\<close>

fun admissible :: "('a list \<Rightarrow> 'a \<Rightarrow> bool) \<Rightarrow> 'a queue_op list \<Rightarrow> 'a list \<Rightarrow> bool" where
  "admissible room [] xs = True"
| "admissible room (Put a # ops) xs = (room xs a \<and> admissible room ops (xs @ [a]))"
| "admissible room (Get # ops) xs = admissible room ops (tl xs)"

locale fifo =
  fixes rep :: "'s \<Rightarrow> 'a list \<Rightarrow> bool"
    and room :: "'a list \<Rightarrow> 'a \<Rightarrow> bool"
    and put :: "'a \<Rightarrow> 's \<Rightarrow> 's option"
    and get :: "'s \<Rightarrow> ('a option \<times> 's) option"
  assumes put_rep: "rep s xs \<Longrightarrow> room xs a \<Longrightarrow> \<exists>s'. put a s = Some s' \<and> rep s' (xs @ [a])"
    and get_rep: "rep s xs \<Longrightarrow> \<exists>s'. get s = Some (if xs = [] then None else Some (hd xs), s') \<and> rep s' (tl xs)"
begin

text \<open>A client of the implementation sees what a client of the list sees.\<close>

lemma run_refines:
  assumes "rep s xs" and "admissible room ops xs"
  shows "\<exists>s'. run_queue_ops put get ops s = Some (fst (run_list_ops ops xs), s') \<and> rep s' (snd (run_list_ops ops xs))"
  using assms
proof (induction ops arbitrary: s xs)
  case (Cons op ops)
  show ?case
  proof (cases op)
    case (Put a)
    then have "room xs a" using Cons.prems(2) by simp
    with put_rep [OF Cons.prems(1)] obtain s1 where "put a s = Some s1" "rep s1 (xs @ [a])" by blast
    with Cons.IH [of s1 "xs @ [a]"] Cons.prems Put show ?thesis by auto
  next
    case Get
    obtain s1 where s1: "get s = Some (if xs = [] then None else Some (hd xs), s1)" "rep s1 (tl xs)"
      using get_rep Cons.prems(1) by blast
    with Cons.IH [of s1 "tl xs"] Cons.prems Get show ?thesis by (auto split: prod.splits)
  qed
qed simp

text \<open>What was there and what was put is what was taken and what remains, in this order.\<close>

lemma run_conserves:
  assumes "rep s xs" and "admissible room ops xs"
  shows "\<exists>ys s' zs. run_queue_ops put get ops s = Some (ys, s') \<and> rep s' zs \<and> got ys @ zs = xs @ puts ops"
proof -
  obtain ys zs where r: "run_list_ops ops xs = (ys, zs)" by fastforce
  from run_refines [OF assms] r list_ops_conserve [OF r] show ?thesis by auto
qed

end

section \<open>Encodings\<close>

locale encoding =
  fixes valid :: "'a \<Rightarrow> bool"
    and enc :: "'a \<Rightarrow> 'b"
    and dec :: "'b \<Rightarrow> 'a"
  assumes dec_enc: "valid x \<Longrightarrow> dec (enc x) = x"
begin

lemma enc_inject: "valid x \<Longrightarrow> valid y \<Longrightarrow> enc x = enc y \<longleftrightarrow> x = y"
  by (metis dec_enc)

lemma enc_inj_on: "inj_on enc {x. valid x}"
  by (rule inj_onI) (simp add: enc_inject)

end

end
