(* ===== verification/Memory_Lifecycle.thy ===== *)
theory Memory_Lifecycle
  imports Interfaces
begin

text \<open>
  The pre-DDR memory lifecycle: \<^verbatim>\<open>src/microkernel/memory/memory_lifecycle.cpp\<close>, with the
  QEMU platform steps of \<^verbatim>\<open>src/platform/qemu_virt/ddr.cpp\<close> and
  \<^verbatim>\<open>src/platform/qemu_virt/contained_memory.cpp\<close> that drive it.  The file-static
  \<^verbatim>\<open>g_state\<close> is a record passed explicitly; an operation returns the C++ result and the
  new state.  The linker symbol \<^verbatim>\<open>__text_start\<close> is an argument.
\<close>

section \<open>State\<close>

datatype memory_domain = MD_uninitialized | MD_contained | MD_transitioning | MD_mainstore

datatype ddr_state =
    DDR_offline | DDR_discovered | DDR_training | DDR_trained
  | DDR_address_map_ready | DDR_decode_committed | DDR_online

datatype backing_kind = BK_unavailable | BK_contained | BK_ddr

record physical_range =
  pr_base :: u64
  pr_size :: u64

record lifecycle_state =
  ls_domain :: memory_domain
  ls_ddr :: ddr_state
  ls_contained :: physical_range
  ls_ddr_range :: physical_range
  ls_contained_flush_complete :: bool
  ls_ddr_allocation_enabled :: bool

definition kQemuContainedWindowSize :: u64 where
  "kQemuContainedWindowSize = 8 * 1024 * 1024"

definition g_state_init :: lifecycle_state where
  "g_state_init = \<lparr>
     ls_domain = MD_uninitialized,
     ls_ddr = DDR_offline,
     ls_contained = \<lparr>pr_base = 0, pr_size = 0\<rparr>,
     ls_ddr_range = \<lparr>pr_base = 0, pr_size = 0\<rparr>,
     ls_contained_flush_complete = False,
     ls_ddr_allocation_enabled = False\<rparr>"

section \<open>Ranges\<close>

definition valid_range :: "physical_range \<Rightarrow> bool" where
  "valid_range r = (if pr_size r = 0 then False else pr_base r + pr_size r > pr_base r)"

definition range_contains :: "physical_range \<Rightarrow> u64 \<Rightarrow> bool" where
  "range_contains r address =
     (if \<not> valid_range r \<or> address < pr_base r then False
      else address - pr_base r < pr_size r)"

definition contains_range :: "physical_range \<Rightarrow> physical_range \<Rightarrow> bool" where
  "contains_range outer inner =
     (if \<not> valid_range outer \<or> \<not> valid_range inner \<or> pr_base inner < pr_base outer then False
      else pr_base inner + pr_size inner \<le> pr_base outer + pr_size outer)"

section \<open>Operations\<close>

definition initialize_contained :: "u64 \<Rightarrow> lifecycle_state \<Rightarrow> lifecycle_state" where
  "initialize_contained text_start s = s\<lparr>
     ls_domain := MD_contained,
     ls_ddr := DDR_offline,
     ls_contained := \<lparr>pr_base = text_start, pr_size = kQemuContainedWindowSize\<rparr>,
     ls_ddr_range := \<lparr>pr_base = 0, pr_size = 0\<rparr>,
     ls_contained_flush_complete := False,
     ls_ddr_allocation_enabled := False\<rparr>"

definition backing_for :: "lifecycle_state \<Rightarrow> u64 \<Rightarrow> backing_kind" where
  "backing_for s physical_address =
     (if ls_domain s = MD_mainstore \<and> ls_ddr s = DDR_online \<and>
         range_contains (ls_ddr_range s) physical_address then BK_ddr
      else if (ls_domain s = MD_contained \<or> ls_domain s = MD_transitioning) \<and>
         range_contains (ls_contained s) physical_address then BK_contained
      else BK_unavailable)"

definition validate_contained_invariants :: "u64 \<Rightarrow> lifecycle_state \<Rightarrow> bool" where
  "validate_contained_invariants text_start s =
     (if ls_domain s \<noteq> MD_contained \<or> ls_ddr s \<noteq> DDR_offline then False
      else if pr_base (ls_contained s) \<noteq> text_start \<or>
              pr_size (ls_contained s) \<noteq> kQemuContainedWindowSize then False
      else if valid_range (ls_ddr_range s) \<or> ls_contained_flush_complete s \<or>
              ls_ddr_allocation_enabled s then False
      else if backing_for s (pr_base (ls_contained s)) \<noteq> BK_contained then False
      else let first_address_after_contained =
                 pr_base (ls_contained s) + pr_size (ls_contained s)
           in if first_address_after_contained < pr_base (ls_contained s) then False
              else backing_for s first_address_after_contained = BK_unavailable)"

definition ddr_mark_discovered ::
    "physical_range \<Rightarrow> lifecycle_state \<Rightarrow> bool \<times> lifecycle_state" where
  "ddr_mark_discovered rng s =
     (if ls_domain s \<noteq> MD_contained \<or> ls_ddr s \<noteq> DDR_offline \<or>
         \<not> contains_range rng (ls_contained s) then (False, s)
      else (True, s\<lparr>ls_ddr_range := rng, ls_ddr := DDR_discovered\<rparr>))"

definition ddr_begin_training :: "lifecycle_state \<Rightarrow> bool \<times> lifecycle_state" where
  "ddr_begin_training s =
     (if ls_domain s \<noteq> MD_contained \<or> ls_ddr s \<noteq> DDR_discovered then (False, s)
      else (True, s\<lparr>ls_ddr := DDR_training\<rparr>))"

definition ddr_mark_trained :: "lifecycle_state \<Rightarrow> bool \<times> lifecycle_state" where
  "ddr_mark_trained s =
     (if ls_domain s \<noteq> MD_contained \<or> ls_ddr s \<noteq> DDR_training then (False, s)
      else (True, s\<lparr>ls_ddr := DDR_trained\<rparr>))"

definition ddr_mark_address_map_ready :: "lifecycle_state \<Rightarrow> bool \<times> lifecycle_state" where
  "ddr_mark_address_map_ready s =
     (if ls_domain s \<noteq> MD_contained \<or> ls_ddr s \<noteq> DDR_trained then (False, s)
      else (True, s\<lparr>ls_ddr := DDR_address_map_ready\<rparr>))"

definition ddr_mark_decode_committed :: "lifecycle_state \<Rightarrow> bool \<times> lifecycle_state" where
  "ddr_mark_decode_committed s =
     (if ls_domain s \<noteq> MD_contained \<or> ls_ddr s \<noteq> DDR_address_map_ready then (False, s)
      else (True, s\<lparr>ls_ddr := DDR_decode_committed\<rparr>))"

definition ddr_mark_online :: "lifecycle_state \<Rightarrow> bool \<times> lifecycle_state" where
  "ddr_mark_online s =
     (if ls_domain s \<noteq> MD_contained \<or> ls_ddr s \<noteq> DDR_decode_committed \<or>
         \<not> contains_range (ls_ddr_range s) (ls_contained s) then (False, s)
      else (True, s\<lparr>ls_ddr := DDR_online\<rparr>))"

definition begin_mainstore_transition :: "lifecycle_state \<Rightarrow> bool \<times> lifecycle_state" where
  "begin_mainstore_transition s =
     (if ls_domain s \<noteq> MD_contained \<or> ls_ddr s \<noteq> DDR_online \<or>
         ls_contained_flush_complete s \<or> ls_ddr_allocation_enabled s then (False, s)
      else (True, s\<lparr>ls_domain := MD_transitioning\<rparr>))"

definition mark_contained_flush_complete :: "lifecycle_state \<Rightarrow> bool \<times> lifecycle_state" where
  "mark_contained_flush_complete s =
     (if ls_domain s \<noteq> MD_transitioning \<or> ls_ddr s \<noteq> DDR_online \<or>
         ls_contained_flush_complete s then (False, s)
      else (True, s\<lparr>ls_contained_flush_complete := True\<rparr>))"

definition complete_mainstore_transition :: "lifecycle_state \<Rightarrow> bool \<times> lifecycle_state" where
  "complete_mainstore_transition s =
     (if ls_domain s \<noteq> MD_transitioning \<or> ls_ddr s \<noteq> DDR_online \<or>
         \<not> ls_contained_flush_complete s \<or> ls_ddr_allocation_enabled s then (False, s)
      else (True, s\<lparr>ls_domain := MD_mainstore\<rparr>))"

definition enable_mainstore_allocation :: "lifecycle_state \<Rightarrow> bool \<times> lifecycle_state" where
  "enable_mainstore_allocation s =
     (if ls_domain s \<noteq> MD_mainstore \<or> ls_ddr s \<noteq> DDR_online \<or>
         \<not> ls_contained_flush_complete s \<or> ls_ddr_allocation_enabled s then (False, s)
      else (True, s\<lparr>ls_ddr_allocation_enabled := True\<rparr>))"

definition validate_mainstore_invariants :: "lifecycle_state \<Rightarrow> bool" where
  "validate_mainstore_invariants s =
     (if ls_domain s \<noteq> MD_mainstore \<or> ls_ddr s \<noteq> DDR_online \<or>
         \<not> ls_contained_flush_complete s \<or> \<not> ls_ddr_allocation_enabled s \<or>
         \<not> contains_range (ls_ddr_range s) (ls_contained s) then False
      else if backing_for s (pr_base (ls_contained s)) \<noteq> BK_ddr then False
      else if backing_for s (pr_base (ls_contained s) + pr_size (ls_contained s) - 1) \<noteq> BK_ddr
        then False
      else backing_for s (pr_base (ls_ddr_range s) + pr_size (ls_ddr_range s) - 1) = BK_ddr)"

fun domain_name :: "memory_domain \<Rightarrow> string" where
  "domain_name MD_uninitialized = ''UNINITIALIZED''"
| "domain_name MD_contained = ''CONTAINED''"
| "domain_name MD_transitioning = ''TRANSITIONING''"
| "domain_name MD_mainstore = ''MAINSTORE''"

fun ddr_state_name :: "ddr_state \<Rightarrow> string" where
  "ddr_state_name DDR_offline = ''OFFLINE''"
| "ddr_state_name DDR_discovered = ''DISCOVERED''"
| "ddr_state_name DDR_training = ''TRAINING''"
| "ddr_state_name DDR_trained = ''TRAINED''"
| "ddr_state_name DDR_address_map_ready = ''ADDRESS_MAP_READY''"
| "ddr_state_name DDR_decode_committed = ''DECODE_COMMITTED''"
| "ddr_state_name DDR_online = ''ONLINE''"

section \<open>Platform steps on QEMU\<close>

definition configured_range :: physical_range where
  "configured_range = \<lparr>pr_base = 0x80000000, pr_size = 128 * 1024 * 1024\<rparr>"

definition ddr_discover :: "lifecycle_state \<Rightarrow> bool \<times> lifecycle_state" where
  "ddr_discover s = ddr_mark_discovered configured_range s"

definition ddr_start_training :: "lifecycle_state \<Rightarrow> bool \<times> lifecycle_state" where
  "ddr_start_training s = ddr_begin_training s"

definition ddr_finish_training :: "lifecycle_state \<Rightarrow> bool \<times> lifecycle_state" where
  "ddr_finish_training s = ddr_mark_trained s"

definition ddr_build_topology :: "lifecycle_state \<Rightarrow> bool" where
  "ddr_build_topology s \<longleftrightarrow> ls_domain s = MD_contained \<and> ls_ddr s = DDR_trained"

definition ddr_build_address_map :: "lifecycle_state \<Rightarrow> bool \<times> lifecycle_state" where
  "ddr_build_address_map s = ddr_mark_address_map_ready s"

definition ddr_program_decode :: "lifecycle_state \<Rightarrow> bool \<times> lifecycle_state" where
  "ddr_program_decode s = ddr_mark_decode_committed s"

definition ddr_online :: "lifecycle_state \<Rightarrow> bool \<times> lifecycle_state" where
  "ddr_online s = ddr_mark_online s"

definition flush_to_mainstore :: "lifecycle_state \<Rightarrow> bool \<times> lifecycle_state" where
  "flush_to_mainstore s =
     (if ls_domain s \<noteq> MD_transitioning \<or> ls_ddr s \<noteq> DDR_online \<or>
         ls_contained_flush_complete s then (False, s)
      else mark_contained_flush_complete s)"

section \<open>Ranges over the natural numbers\<close>

lemma valid_range_unat:
  "valid_range r \<longleftrightarrow> pr_size r \<noteq> 0 \<and> unat (pr_base r) + unat (pr_size r) < 2 ^ 64"
  by (simp add: valid_range_def word_less_add_iff)

lemma range_end_unat:
  "valid_range r \<Longrightarrow> unat (pr_base r + pr_size r) = unat (pr_base r) + unat (pr_size r)"
  by (simp add: valid_range_unat unat_add_no_wrap)

lemma range_contains_unat:
  "range_contains r a \<longleftrightarrow>
     valid_range r \<and> unat (pr_base r) \<le> unat a \<and> unat a < unat (pr_base r) + unat (pr_size r)"
proof (cases "valid_range r \<and> pr_base r \<le> a")
  case True
  then have "unat (a - pr_base r) = unat a - unat (pr_base r)"
    by (simp add: unat_sub_le)
  with True show ?thesis
    by (auto simp: range_contains_def word_less_nat_alt word_le_nat_alt)
next
  case False
  then show ?thesis
    by (auto simp: range_contains_def word_less_nat_alt word_le_nat_alt)
qed

lemma contains_range_unat:
  "contains_range out inn \<longleftrightarrow> valid_range out \<and> valid_range inn \<and>
     unat (pr_base out) \<le> unat (pr_base inn) \<and>
     unat (pr_base inn) + unat (pr_size inn) \<le> unat (pr_base out) + unat (pr_size out)"
  by (auto simp: contains_range_def word_less_nat_alt word_le_nat_alt range_end_unat)

lemma contains_range_mono:
  "contains_range out inn \<Longrightarrow> range_contains inn a \<Longrightarrow> range_contains out a"
  by (auto simp: contains_range_unat range_contains_unat)

lemma range_contains_base: "valid_range r \<Longrightarrow> range_contains r (pr_base r)"
  by (auto simp: range_contains_unat valid_range_unat unat_gt_0)

lemma range_contains_last:
  assumes "valid_range r"
  shows "range_contains r (pr_base r + pr_size r - 1)"
proof -
  have "pr_base r + pr_size r \<noteq> 0"
    using assms by (auto simp: valid_range_def split: if_splits)
  then have "unat (pr_base r + pr_size r - 1) = unat (pr_base r + pr_size r) - 1"
    by (simp add: unat_minus_one)
  moreover have "0 < unat (pr_size r)"
    using assms by (simp add: valid_range_unat unat_gt_0)
  ultimately show ?thesis
    using assms by (simp add: range_contains_unat range_end_unat)
qed

lemma not_range_contains_end:
  "valid_range r \<Longrightarrow> \<not> range_contains r (pr_base r + pr_size r)"
  by (simp add: range_contains_unat range_end_unat)

section \<open>The lifecycle as a state machine\<close>

text \<open>One rule per transition function of the header, taken when the function returns true.\<close>

inductive lc_step :: "lifecycle_state \<Rightarrow> lifecycle_state \<Rightarrow> bool" where
  lc_discovered: "ddr_mark_discovered rng s = (True, s') \<Longrightarrow> lc_step s s'"
| lc_training: "ddr_begin_training s = (True, s') \<Longrightarrow> lc_step s s'"
| lc_trained: "ddr_mark_trained s = (True, s') \<Longrightarrow> lc_step s s'"
| lc_address_map: "ddr_mark_address_map_ready s = (True, s') \<Longrightarrow> lc_step s s'"
| lc_decode: "ddr_mark_decode_committed s = (True, s') \<Longrightarrow> lc_step s s'"
| lc_online: "ddr_mark_online s = (True, s') \<Longrightarrow> lc_step s s'"
| lc_begin: "begin_mainstore_transition s = (True, s') \<Longrightarrow> lc_step s s'"
| lc_flush: "mark_contained_flush_complete s = (True, s') \<Longrightarrow> lc_step s s'"
| lc_complete: "complete_mainstore_transition s = (True, s') \<Longrightarrow> lc_step s s'"
| lc_enable: "enable_mainstore_allocation s = (True, s') \<Longrightarrow> lc_step s s'"

inductive lc_reachable :: "u64 \<Rightarrow> lifecycle_state \<Rightarrow> bool" for text_start where
  lc_start: "lc_reachable text_start (initialize_contained text_start g_state_init)"
| lc_next: "lc_reachable text_start s \<Longrightarrow> lc_step s s' \<Longrightarrow> lc_reachable text_start s'"

lemmas lc_op_defs =
  ddr_mark_discovered_def ddr_begin_training_def ddr_mark_trained_def
  ddr_mark_address_map_ready_def ddr_mark_decode_committed_def ddr_mark_online_def
  begin_mainstore_transition_def mark_contained_flush_complete_def
  complete_mainstore_transition_def enable_mainstore_allocation_def

text \<open>A transition function that returns false leaves the state untouched.\<close>

lemma lc_op_false:
  "ddr_mark_discovered rng s = (False, s') \<Longrightarrow> s' = s"
  "ddr_begin_training s = (False, s') \<Longrightarrow> s' = s"
  "ddr_mark_trained s = (False, s') \<Longrightarrow> s' = s"
  "ddr_mark_address_map_ready s = (False, s') \<Longrightarrow> s' = s"
  "ddr_mark_decode_committed s = (False, s') \<Longrightarrow> s' = s"
  "ddr_mark_online s = (False, s') \<Longrightarrow> s' = s"
  "begin_mainstore_transition s = (False, s') \<Longrightarrow> s' = s"
  "mark_contained_flush_complete s = (False, s') \<Longrightarrow> s' = s"
  "complete_mainstore_transition s = (False, s') \<Longrightarrow> s' = s"
  "enable_mainstore_allocation s = (False, s') \<Longrightarrow> s' = s"
  by (auto simp: lc_op_defs split: if_splits)

fun ddr_index :: "ddr_state \<Rightarrow> nat" where
  "ddr_index DDR_offline = 0"
| "ddr_index DDR_discovered = 1"
| "ddr_index DDR_training = 2"
| "ddr_index DDR_trained = 3"
| "ddr_index DDR_address_map_ready = 4"
| "ddr_index DDR_decode_committed = 5"
| "ddr_index DDR_online = 6"

fun domain_index :: "memory_domain \<Rightarrow> nat" where
  "domain_index MD_uninitialized = 0"
| "domain_index MD_contained = 0"
| "domain_index MD_transitioning = 1"
| "domain_index MD_mainstore = 2"

text \<open>The DDR states are ordered by the bring-up sequence.\<close>

instantiation ddr_state :: linorder
begin

definition less_eq_ddr_state :: "ddr_state \<Rightarrow> ddr_state \<Rightarrow> bool" where
  "less_eq_ddr_state a b \<longleftrightarrow> ddr_index a \<le> ddr_index b"

definition less_ddr_state :: "ddr_state \<Rightarrow> ddr_state \<Rightarrow> bool" where
  "less_ddr_state a b \<longleftrightarrow> ddr_index a < ddr_index b"

instance
proof
  fix a b :: ddr_state
  assume "a \<le> b" "b \<le> a"
  then show "a = b" by (cases a; cases b) (simp_all add: less_eq_ddr_state_def)
qed (auto simp: less_eq_ddr_state_def less_ddr_state_def)

end

definition lc_stage :: "lifecycle_state \<Rightarrow> nat" where
  "lc_stage s = ddr_index (ls_ddr s) + domain_index (ls_domain s)
     + of_bool (ls_contained_flush_complete s) + of_bool (ls_ddr_allocation_enabled s)"

definition lc_inv :: "u64 \<Rightarrow> lifecycle_state \<Rightarrow> bool" where
  "lc_inv text_start s \<longleftrightarrow>
     ls_contained s = \<lparr>pr_base = text_start, pr_size = kQemuContainedWindowSize\<rparr> \<and>
     ls_domain s \<noteq> MD_uninitialized \<and>
     (ls_ddr s = DDR_offline \<longrightarrow> ls_ddr_range s = \<lparr>pr_base = 0, pr_size = 0\<rparr>) \<and>
     (ls_ddr s \<noteq> DDR_offline \<longrightarrow> contains_range (ls_ddr_range s) (ls_contained s)) \<and>
     (ls_domain s \<noteq> MD_contained \<longrightarrow> ls_ddr s = DDR_online) \<and>
     (ls_contained_flush_complete s \<longrightarrow> ls_domain s \<noteq> MD_contained) \<and>
     (ls_domain s = MD_mainstore \<longrightarrow> ls_contained_flush_complete s) \<and>
     (ls_ddr_allocation_enabled s \<longrightarrow> ls_domain s = MD_mainstore)"

lemma lc_inv_start: "lc_inv text_start (initialize_contained text_start g_state_init)"
  by (simp add: lc_inv_def initialize_contained_def)

lemma lc_step_inv: "lc_step s s' \<Longrightarrow> lc_inv text_start s \<Longrightarrow> lc_inv text_start s'"
  by (induction rule: lc_step.induct) (auto simp: lc_op_defs lc_inv_def split: if_splits)

lemma lc_reachable_inv: "lc_reachable text_start s \<Longrightarrow> lc_inv text_start s"
  by (induction rule: lc_reachable.induct) (auto intro: lc_inv_start lc_step_inv)

lemma lc_step_stage: "lc_step s s' \<Longrightarrow> lc_stage s' = Suc (lc_stage s)"
  by (induction rule: lc_step.induct) (auto simp: lc_op_defs lc_stage_def split: if_splits)

lemma lc_stage_bound: "lc_stage s \<le> 10"
  by (cases "ls_ddr s"; cases "ls_domain s") (auto simp: lc_stage_def)

lemma lc_step_ddr: "lc_step s s' \<Longrightarrow> ls_ddr s \<le> ls_ddr s'"
  by (induction rule: lc_step.induct) (auto simp: lc_op_defs less_eq_ddr_state_def split: if_splits)

interpretation lcs: staged_system lc_step "lc_inv text_start" lc_stage 10 for text_start
  by unfold_locales (simp_all add: lc_step_inv lc_step_stage lc_stage_bound)

lemma lc_run_ddr: "(lc_step ^^ n) s s' \<Longrightarrow> ls_ddr s \<le> ls_ddr s'"
proof (induction n arbitrary: s')
  case (Suc n)
  then show ?case by (auto intro: order_trans lc_step_ddr)
qed simp

section \<open>What the lifecycle guarantees\<close>

text \<open>The window is valid when the linked image leaves room for it below the top of memory.\<close>

lemma contained_valid:
  "lc_inv text_start s \<Longrightarrow>
     valid_range (ls_contained s) \<longleftrightarrow> unat text_start < 2 ^ 64 - 8 * 1024 * 1024"
  by (auto simp: lc_inv_def valid_range_unat kQemuContainedWindowSize_def)

lemma validate_mainstore_iff:
  assumes "lc_inv text_start s"
  shows "validate_mainstore_invariants s = ls_ddr_allocation_enabled s"
proof (cases "ls_ddr_allocation_enabled s")
  case True
  with assms have st: "ls_domain s = MD_mainstore" "ls_ddr s = DDR_online"
      "ls_contained_flush_complete s" and cr: "contains_range (ls_ddr_range s) (ls_contained s)"
    by (auto simp: lc_inv_def)
  then have v: "valid_range (ls_ddr_range s)" "valid_range (ls_contained s)"
    by (simp_all add: contains_range_unat)
  from v cr have "range_contains (ls_ddr_range s) (pr_base (ls_contained s))"
    and "range_contains (ls_ddr_range s) (pr_base (ls_contained s) + pr_size (ls_contained s) - 1)"
    and "range_contains (ls_ddr_range s) (pr_base (ls_ddr_range s) + pr_size (ls_ddr_range s) - 1)"
    by (blast intro: contains_range_mono range_contains_base range_contains_last)+
  with True st cr show ?thesis
    by (simp add: validate_mainstore_invariants_def backing_for_def)
next
  case False
  then show ?thesis
    by (simp add: validate_mainstore_invariants_def)
qed

text \<open>
  C17: in every state the lifecycle can reach, publishing DDR to the allocator implies that the
  transition is complete (mainstore domain, DDR online, flush done) and that every address of
  the contained window has become DDR-backed at the same address; and the machine acceptance
  check \<^verbatim>\<open>validate_mainstore_invariants\<close> accepts exactly the published states.
\<close>

theorem lifecycle_publish_safe:
  assumes "lc_reachable text_start s"
  shows "validate_mainstore_invariants s = ls_ddr_allocation_enabled s \<and>
    (ls_ddr_allocation_enabled s \<longrightarrow>
      ls_domain s = MD_mainstore \<and> ls_ddr s = DDR_online \<and> ls_contained_flush_complete s \<and>
      (\<forall>a. range_contains (ls_contained s) a \<longrightarrow> backing_for s a = BK_ddr))"
proof -
  from assms have inv: "lc_inv text_start s"
    by (rule lc_reachable_inv)
  then show ?thesis
    using validate_mainstore_iff [OF inv]
    by (auto simp: lc_inv_def backing_for_def intro: contains_range_mono)
qed

text \<open>
  The chain of states that the QEMU platform walks through, from the linked image at
  \<open>0x80000000\<close> to a published mainstore.
\<close>

definition bring_up :: "lifecycle_state \<Rightarrow> lifecycle_state" where
  "bring_up s = (snd \<circ> enable_mainstore_allocation \<circ> snd \<circ> complete_mainstore_transition
     \<circ> snd \<circ> flush_to_mainstore \<circ> snd \<circ> begin_mainstore_transition \<circ> snd \<circ> ddr_online
     \<circ> snd \<circ> ddr_program_decode \<circ> snd \<circ> ddr_build_address_map
     \<circ> snd \<circ> ddr_finish_training \<circ> snd \<circ> ddr_start_training \<circ> snd \<circ> ddr_discover) s"

lemma configured_contains:
  "contains_range configured_range
     \<lparr>pr_base = 0x80000000, pr_size = kQemuContainedWindowSize\<rparr>"
  by (simp add: contains_range_def valid_range_def configured_range_def
      kQemuContainedWindowSize_def)

lemmas bring_up_defs = bring_up_def ddr_discover_def ddr_start_training_def
  ddr_finish_training_def ddr_build_address_map_def ddr_program_decode_def ddr_online_def
  flush_to_mainstore_def lc_op_defs
  initialize_contained_def g_state_init_def

lemma bring_up_published:
  "ls_ddr_allocation_enabled (bring_up (initialize_contained 0x80000000 g_state_init))"
  by (simp add: bring_up_defs configured_contains)

lemma bring_up_reachable:
  "lc_reachable 0x80000000 (bring_up (initialize_contained 0x80000000 g_state_init))"
proof -
  let ?s0 = "initialize_contained 0x80000000 g_state_init"
  let ?s1 = "?s0\<lparr>ls_ddr_range := configured_range, ls_ddr := DDR_discovered\<rparr>"
  let ?s2 = "?s1\<lparr>ls_ddr := DDR_training\<rparr>" and ?s3 = "?s1\<lparr>ls_ddr := DDR_trained\<rparr>"
  let ?s4 = "?s1\<lparr>ls_ddr := DDR_address_map_ready\<rparr>"
    and ?s5 = "?s1\<lparr>ls_ddr := DDR_decode_committed\<rparr>"
  let ?s6 = "?s1\<lparr>ls_ddr := DDR_online\<rparr>"
  let ?s7 = "?s6\<lparr>ls_domain := MD_transitioning\<rparr>"
  let ?s8 = "?s7\<lparr>ls_contained_flush_complete := True\<rparr>"
  let ?s9 = "?s8\<lparr>ls_domain := MD_mainstore\<rparr>"
  note d = lc_op_defs initialize_contained_def g_state_init_def configured_contains
  have r0: "lc_reachable 0x80000000 ?s0" by (rule lc_start)
  have r1: "lc_reachable 0x80000000 ?s1"
    by (rule lc_next [OF r0], rule lc_discovered [of configured_range]) (simp add: d)
  have r2: "lc_reachable 0x80000000 ?s2"
    by (rule lc_next [OF r1], rule lc_training) (simp add: d)
  have r3: "lc_reachable 0x80000000 ?s3"
    by (rule lc_next [OF r2], rule lc_trained) (simp add: d)
  have r4: "lc_reachable 0x80000000 ?s4"
    by (rule lc_next [OF r3], rule lc_address_map) (simp add: d)
  have r5: "lc_reachable 0x80000000 ?s5"
    by (rule lc_next [OF r4], rule lc_decode) (simp add: d)
  have r6: "lc_reachable 0x80000000 ?s6"
    by (rule lc_next [OF r5], rule lc_online) (simp add: d)
  have r7: "lc_reachable 0x80000000 ?s7"
    by (rule lc_next [OF r6], rule lc_begin) (simp add: d)
  have r8: "lc_reachable 0x80000000 ?s8"
    by (rule lc_next [OF r7], rule lc_flush) (simp add: d)
  have r9: "lc_reachable 0x80000000 ?s9"
    by (rule lc_next [OF r8], rule lc_complete) (simp add: d)
  show ?thesis
    by (rule lc_next [OF r9], rule lc_enable) (simp add: bring_up_defs configured_contains)
qed

theorem lifecycle_publish_safe_witness:
  "backing_for (bring_up (initialize_contained 0x80000000 g_state_init)) 0x80000000 = BK_ddr"
proof -
  let ?s = "bring_up (initialize_contained 0x80000000 g_state_init)"
  have "ls_contained ?s = \<lparr>pr_base = 0x80000000, pr_size = kQemuContainedWindowSize\<rparr>"
    by (simp add: bring_up_defs configured_contains)
  then have "range_contains (ls_contained ?s) 0x80000000"
    by (simp add: range_contains_def valid_range_def kQemuContainedWindowSize_def)
  then show ?thesis
    using lifecycle_publish_safe [OF bring_up_reachable] bring_up_published by blast
qed

text \<open>
  C22: the lifecycle is strictly one-way.  From any state that initialization can reach, a run of
  \<open>n\<close> successful transitions raises the stage by exactly \<open>n\<close>, never takes DDR back to an earlier
  state, and is at most ten transitions long; a published state has no successor.
\<close>

theorem lifecycle_one_way:
  assumes "lc_reachable text_start s" and "(lc_step ^^ n) s s'"
  shows "lc_stage s' = lc_stage s + n \<and> lc_stage s + n \<le> 10 \<and> ls_ddr s \<le> ls_ddr s' \<and>
    (ls_ddr_allocation_enabled s \<longrightarrow> n = 0 \<and> s' = s)"
proof -
  note inv = lc_reachable_inv [OF assms(1)]
  have le: "lc_stage s + n \<le> 10" by (rule lcs.run_bounded [OF assms(2) inv])
  have "n = 0 \<and> s' = s" if "ls_ddr_allocation_enabled s"
  proof -
    have "lc_stage s = 10" using that inv by (simp add: lc_inv_def lc_stage_def)
    with le have "n = 0" by simp
    with assms(2) show ?thesis by simp
  qed
  then show ?thesis
    using le lcs.run_stage [OF assms(2) inv] lc_run_ddr [OF assms(2)] by blast
qed

theorem lifecycle_one_way_witness:
  "lc_stage (snd (ddr_discover (initialize_contained 0x80000000 g_state_init))) = 1"
proof -
  let ?s = "initialize_contained 0x80000000 g_state_init"
  have step: "(lc_step ^^ 1) ?s (snd (ddr_discover ?s))"
    unfolding relpowp_1 by (rule lc_discovered [of configured_range]) (simp add: bring_up_defs configured_contains)
  have "lc_stage ?s = 0"
    by (simp add: lc_stage_def initialize_contained_def)
  then show ?thesis
    by (simp only: lifecycle_one_way [OF lc_start step, THEN conjunct1] add_0)
qed

end
