(* ===== verification/Physical_Memory.thy ===== *)
theory Physical_Memory
  imports Jixia_Prelude
begin

text \<open>
  Byte-addressed physical memory and the freestanding memory routines of
  \<^verbatim>\<open>src/lib/memory.cpp\<close>.  Memory is a function from 64-bit addresses to bytes; a pointer is
  an address, pointer arithmetic wraps at 64 bits, and the C loops over an index are
  recursions over the number of bytes left to copy.  The theory also has the little-endian
  64-bit and big-endian 32-bit accesses that the page tables, the FFS table and the device
  tree parser perform.
\<close>

type_synonym pmem = "u64 \<Rightarrow> u8"

section \<open>The routines of lib/memory.cpp\<close>

text \<open>\<open>memset_loop m d byte i n\<close>: the loop at index \<open>i\<close> with \<open>n\<close> iterations left.\<close>

fun memset_loop :: "pmem \<Rightarrow> u64 \<Rightarrow> u8 \<Rightarrow> nat \<Rightarrow> nat \<Rightarrow> pmem" where
  "memset_loop m destination byte i 0 = m"
| "memset_loop m destination byte i (Suc n) =
     memset_loop (m(destination + of_nat i := byte)) destination byte (Suc i) n"

definition memset :: "pmem \<Rightarrow> u64 \<Rightarrow> 32 word \<Rightarrow> nat \<Rightarrow> pmem" where
  "memset m destination v count = memset_loop m destination (ucast v) 0 count"

fun copy_forward :: "pmem \<Rightarrow> u64 \<Rightarrow> u64 \<Rightarrow> nat \<Rightarrow> nat \<Rightarrow> pmem" where
  "copy_forward m destination source i 0 = m"
| "copy_forward m destination source i (Suc n) =
     copy_forward (m(destination + of_nat i := m (source + of_nat i)))
       destination source (Suc i) n"

fun copy_backward :: "pmem \<Rightarrow> u64 \<Rightarrow> u64 \<Rightarrow> nat \<Rightarrow> pmem" where
  "copy_backward m destination source 0 = m"
| "copy_backward m destination source (Suc n) =
     copy_backward (m(destination + of_nat n := m (source + of_nat n))) destination source n"

definition memcpy :: "pmem \<Rightarrow> u64 \<Rightarrow> u64 \<Rightarrow> nat \<Rightarrow> pmem" where
  "memcpy m destination source count = copy_forward m destination source 0 count"

definition memmove :: "pmem \<Rightarrow> u64 \<Rightarrow> u64 \<Rightarrow> nat \<Rightarrow> pmem" where
  "memmove m destination source count =
     (if destination \<le> source \<or> unat (destination - source) \<ge> count
      then copy_forward m destination source 0 count
      else copy_backward m destination source count)"

fun memcmp_loop :: "pmem \<Rightarrow> u64 \<Rightarrow> u64 \<Rightarrow> nat \<Rightarrow> nat \<Rightarrow> int" where
  "memcmp_loop m left right i 0 = 0"
| "memcmp_loop m left right i (Suc n) =
     (let left_byte = m (left + of_nat i); right_byte = m (right + of_nat i) in
      if left_byte \<noteq> right_byte then int (unat left_byte) - int (unat right_byte)
      else memcmp_loop m left right (Suc i) n)"

definition memcmp :: "pmem \<Rightarrow> u64 \<Rightarrow> u64 \<Rightarrow> nat \<Rightarrow> int" where
  "memcmp m left right count = memcmp_loop m left right 0 count"

section \<open>Word accesses\<close>

definition load64 :: "pmem \<Rightarrow> u64 \<Rightarrow> u64" where
  "load64 m a = ucast (m a) OR push_bit 8 (ucast (m (a + 1))) OR
     push_bit 16 (ucast (m (a + 2))) OR push_bit 24 (ucast (m (a + 3))) OR
     push_bit 32 (ucast (m (a + 4))) OR push_bit 40 (ucast (m (a + 5))) OR
     push_bit 48 (ucast (m (a + 6))) OR push_bit 56 (ucast (m (a + 7)))"

definition store64 :: "u64 \<Rightarrow> u64 \<Rightarrow> pmem \<Rightarrow> pmem" where
  "store64 a v m = m(
     a := ucast v, a + 1 := ucast (drop_bit 8 v),
     a + 2 := ucast (drop_bit 16 v), a + 3 := ucast (drop_bit 24 v),
     a + 4 := ucast (drop_bit 32 v), a + 5 := ucast (drop_bit 40 v),
     a + 6 := ucast (drop_bit 48 v), a + 7 := ucast (drop_bit 56 v))"

definition load_be32 :: "pmem \<Rightarrow> u64 \<Rightarrow> u32" where
  "load_be32 m a = push_bit 24 (ucast (m a)) OR push_bit 16 (ucast (m (a + 1))) OR
     push_bit 8 (ucast (m (a + 2))) OR ucast (m (a + 3))"

definition load_be16 :: "pmem \<Rightarrow> u64 \<Rightarrow> u16" where
  "load_be16 m a = push_bit 8 (ucast (m a)) OR ucast (m (a + 1))"

section \<open>Offsets in a region\<close>

lemma addr_offset_iff:
  fixes a d :: u64
  assumes "n \<le> 2 ^ 64"
  shows "(\<exists>i<n. a = d + of_nat i) \<longleftrightarrow> unat (a - d) < n"
proof
  assume "\<exists>i<n. a = d + of_nat i"
  then obtain i where i: "i < n" "a = d + of_nat i" by blast
  with assms have "unat (of_nat i :: u64) = i"
    by (simp add: unat_of_nat_small)
  with i show "unat (a - d) < n" by simp
next
  assume "unat (a - d) < n"
  moreover have "a = d + of_nat (unat (a - d))" by simp
  ultimately show "\<exists>i<n. a = d + of_nat i" by blast
qed


section \<open>Word accesses are inverse to each other\<close>

lemma less_8_cases:
  fixes k :: nat
  assumes "k < 8"
  shows "k = 0 \<or> k = 1 \<or> k = 2 \<or> k = 3 \<or> k = 4 \<or> k = 5 \<or> k = 6 \<or> k = 7"
  using assms by arith

lemma bit_load64:
  assumes "k < 8" and "j < 8"
  shows "bit (load64 m a) (8 * k + j) = bit (m (a + of_nat k)) j"
proof -
  from less_8_cases [OF assms(1)] assms(2) show ?thesis
    by (elim disjE) (simp_all add: load64_def bit_simps impossible_bit)
qed

lemma load64_eqI:
  assumes "\<And>k. k < 8 \<Longrightarrow> m (a + of_nat k) = ucast (drop_bit (8 * k) v)"
  shows "load64 m a = v"
proof (rule bit_word_eqI)
  fix n assume "n < LENGTH(64)"
  then have k: "n div 8 < 8" and j: "n mod 8 < 8" by auto
  have "bit (load64 m a) (8 * (n div 8) + n mod 8) = bit v (8 * (n div 8) + n mod 8)"
    using j by (simp only: bit_load64 [OF k j] assms [OF k]) (simp add: bit_simps)
  then show "bit (load64 m a) n = bit v n" by simp
qed

lemma load64_cong:
  assumes "\<And>k. k < 8 \<Longrightarrow> m (a + of_nat k) = m' (b + of_nat k)"
  shows "load64 m a = load64 m' b"
  using assms [of 0] assms [of 1] assms [of 2] assms [of 3] assms [of 4] assms [of 5]
    assms [of 6] assms [of 7]
  by (simp add: load64_def)

lemma store64_byte: "k < 8 \<Longrightarrow> store64 a v m (a + of_nat k) = ucast (drop_bit (8 * k) v)"
  by (drule less_8_cases) (elim disjE; simp add: store64_def)

lemma load64_store64_same: "load64 (store64 a v m) a = v"
  by (rule load64_eqI) (rule store64_byte)

lemma store64_outside: "8 \<le> unat (b - a) \<Longrightarrow> store64 a v m b = m b"
proof -
  assume h: "8 \<le> unat (b - a)"
  have ne: "b \<noteq> a + of_nat i" if "i < 8" for i
  proof
    assume "b = a + of_nat i"
    then have "\<exists>i<8. b = a + of_nat i" using that by blast
    then have "unat (b - a) < 8" by (subst (asm) addr_offset_iff) simp_all
    with h show False by simp
  qed
  show ?thesis
    using ne [of 0] ne [of 1] ne [of 2] ne [of 3] ne [of 4] ne [of 5] ne [of 6] ne [of 7]
    by (simp add: store64_def)
qed

section \<open>Correctness of the copy loops\<close>

lemma offset_eq_iff:
  fixes a d :: u64
  assumes "i < 2 ^ 64"
  shows "a = d + of_nat i \<longleftrightarrow> unat (a - d) = i"
  using assms by (auto simp: unat_of_nat_small)

lemma memset_loop_apply:
  assumes "i + n \<le> 2 ^ 64"
  shows "memset_loop m d b i n a =
    (if i \<le> unat (a - d) \<and> unat (a - d) < i + n then b else m a)"
  using assms
proof (induction n arbitrary: m i)
  case 0
  then show ?case by auto
next
  case (Suc n)
  then show ?case
    using offset_eq_iff [of i a d] by auto
qed

lemma copy_forward_apply:
  assumes "i + n \<le> 2 ^ 64"
    and "\<And>j k. i \<le> j \<Longrightarrow> j < k \<Longrightarrow> k < i + n \<Longrightarrow> s + of_nat k \<noteq> d + of_nat j"
  shows "copy_forward m d s i n a =
    (if i \<le> unat (a - d) \<and> unat (a - d) < i + n then m (s + (a - d)) else m a)"
  using assms
proof (induction n arbitrary: m i)
  case 0
  then show ?case by auto
next
  case (Suc n)
  let ?m = "m(d + of_nat i := m (s + of_nat i))"
  have IH: "copy_forward ?m d s (Suc i) n a =
      (if Suc i \<le> unat (a - d) \<and> unat (a - d) < Suc i + n then ?m (s + (a - d)) else ?m a)"
    using Suc.prems by (intro Suc.IH) auto
  have src: "?m (s + (a - d)) = m (s + (a - d))" if "Suc i \<le> unat (a - d)" "unat (a - d) < Suc i + n"
    using Suc.prems(2) [of i "unat (a - d)"] that by simp
  have dst: "?m a = (if unat (a - d) = i then m (s + (a - d)) else m a)"
    using Suc.prems(1) offset_eq_iff [of i a d] by auto
  show ?case
    using IH src dst by auto
qed

lemma copy_backward_apply:
  assumes "n \<le> 2 ^ 64"
    and "\<And>j k. j < k \<Longrightarrow> k < n \<Longrightarrow> s + of_nat j \<noteq> d + of_nat k"
  shows "copy_backward m d s n a = (if unat (a - d) < n then m (s + (a - d)) else m a)"
  using assms
proof (induction n arbitrary: m)
  case 0
  then show ?case by auto
next
  case (Suc n)
  let ?m = "m(d + of_nat n := m (s + of_nat n))"
  have IH: "copy_backward ?m d s n a =
      (if unat (a - d) < n then ?m (s + (a - d)) else ?m a)"
    using Suc.prems by (intro Suc.IH) auto
  have src: "?m (s + (a - d)) = m (s + (a - d))" if "unat (a - d) < n"
    using Suc.prems(2) [of "unat (a - d)" n] that by simp
  have dst: "?m a = (if unat (a - d) = n then m (s + (a - d)) else m a)"
    using Suc.prems(1) offset_eq_iff [of n a d] by auto
  show ?case
    using IH src dst by auto
qed

lemma unat_plus_of_nat:
  fixes d :: u64
  assumes "unat d + n \<le> 2 ^ 64" and "k < n"
  shows "unat (d + of_nat k) = unat d + k"
proof -
  have "unat (of_nat k :: u64) = k"
    using assms by (intro unat_of_nat_small) simp
  then show ?thesis
    using assms by (subst unat_add_no_wrap) auto
qed

text \<open>
  C23: \<^verbatim>\<open>memmove\<close> is a simultaneous copy.  For regions that do not wrap around the address
  space, whatever their overlap, every destination byte receives the value its source byte had
  before the call and no other byte changes: the choice of the copy direction is right.
\<close>

theorem memmove_correct:
  assumes "unat d + n \<le> 2 ^ 64" and "unat s + n \<le> 2 ^ 64"
  shows "memmove m d s n a = (if unat (a - d) < n then m (s + (a - d)) else m a)"
proof (cases "d \<le> s \<or> n \<le> unat (d - s)")
  case True
  have "s + of_nat k \<noteq> d + of_nat j" if "j < k" "k < n" for j k
  proof
    assume "s + of_nat k = d + of_nat j"
    then have "unat s + k = unat d + j"
      using that unat_plus_of_nat [OF assms(2), of k] unat_plus_of_nat [OF assms(1), of j] by simp
    with that have lt: "unat s < unat d" and "unat d - unat s = k - j" by auto
    with True that show False
      by (auto simp: word_le_nat_alt unat_sub_le)
  qed
  then have "copy_forward m d s 0 n a = (if unat (a - d) < n then m (s + (a - d)) else m a)"
    using assms by (subst copy_forward_apply) auto
  with True show ?thesis
    by (simp add: memmove_def)
next
  case False
  then have lt: "unat s < unat d"
    by (simp add: word_le_nat_alt)
  have "s + of_nat j \<noteq> d + of_nat k" if "j < k" "k < n" for j k
  proof
    assume "s + of_nat j = d + of_nat k"
    then have "unat s + j = unat d + k"
      using that unat_plus_of_nat [OF assms(2), of j] unat_plus_of_nat [OF assms(1), of k] by simp
    with that lt show False by simp
  qed
  then have "copy_backward m d s n a = (if unat (a - d) < n then m (s + (a - d)) else m a)"
    using assms by (intro copy_backward_apply) auto
  with False show ?thesis
    by (simp add: memmove_def)
qed

theorem memmove_correct_witness:
  "memmove (\<lambda>a. ucast a) 2 0 4 4 = (2 :: u8)"
  using memmove_correct [of 2 4 0 "\<lambda>a. ucast a" 4] by simp

lemma memcmp_loop_zero:
  "memcmp_loop m l r i n = 0 \<longleftrightarrow> (\<forall>j. i \<le> j \<and> j < i + n \<longrightarrow> m (l + of_nat j) = m (r + of_nat j))"
proof (induction n arbitrary: i)
  case 0
  then show ?case by auto
next
  case (Suc n)
  have "(\<forall>j. i \<le> j \<and> j < i + Suc n \<longrightarrow> m (l + of_nat j) = m (r + of_nat j)) \<longleftrightarrow>
     m (l + of_nat i) = m (r + of_nat i) \<and>
     (\<forall>j. Suc i \<le> j \<and> j < Suc i + n \<longrightarrow> m (l + of_nat j) = m (r + of_nat j))"
    by (metis (no_types, lifting) Suc_le_eq add_Suc_right add_Suc le_eq_less_or_eq less_add_Suc1)
  then show ?case
    using Suc.IH [of "Suc i"] by (simp add: Let_def) (metis unsigned_word_eqI)
qed

text \<open>\<^verbatim>\<open>memset\<close> writes exactly the requested region; \<^verbatim>\<open>memcmp\<close> is zero exactly on equal regions.\<close>

lemma memset_apply:
  "n \<le> 2 ^ 64 \<Longrightarrow> memset m d v n a = (if unat (a - d) < n then ucast v else m a)"
  by (simp add: memset_def memset_loop_apply)

lemma memcmp_zero_iff:
  "memcmp m l r n = 0 \<longleftrightarrow> (\<forall>j<n. m (l + of_nat j) = m (r + of_nat j))"
  by (simp add: memcmp_def memcmp_loop_zero)

end
