(* ===== verification/Page_Manager.thy ===== *)
theory Page_Manager
  imports Memory_Lifecycle Physical_Memory
begin

text \<open>
  The physical page allocator, \<^verbatim>\<open>src/microkernel/memory/page_manager.cpp\<close>.  The memory state
  gathers the file-static data the memory components share: the lifecycle state, the managed
  ranges (the used prefix of \<^verbatim>\<open>g_ranges\<close>, so that \<^verbatim>\<open>g_range_count\<close> is its length) and physical
  memory.  The linker-provided bounds of the bootstrap pool are arguments.
\<close>

section \<open>State\<close>

record managed_range =
  mr_base :: u64
  mr_next :: u64
  mr_end :: u64
  mr_backing :: backing_kind

record memst =
  ms_lc :: lifecycle_state
  ms_ranges :: "managed_range list"
  ms_mem :: pmem

record allocation =
  al_physical_address :: u64
  al_backing :: backing_kind

definition allocation_valid :: "allocation \<Rightarrow> bool" where
  "allocation_valid al \<longleftrightarrow> al_physical_address al \<noteq> 0 \<and> al_backing al \<noteq> BK_unavailable"

definition kPageSize :: u64 where
  "kPageSize = 4096"

definition kMaxRanges :: nat where
  "kMaxRanges = 4"

section \<open>Operations\<close>

definition is_page_aligned :: "u64 \<Rightarrow> bool" where
  "is_page_aligned v \<longleftrightarrow> v AND (kPageSize - 1) = 0"

definition overlaps :: "u64 \<Rightarrow> u64 \<Rightarrow> managed_range \<Rightarrow> bool" where
  "overlaps base end_address r \<longleftrightarrow> base < mr_end r \<and> mr_base r < end_address"

text \<open>The loop over the 512 words of a page, at word \<open>i\<close> with \<open>n\<close> left.\<close>

fun zero_page_loop :: "u64 \<Rightarrow> nat \<Rightarrow> nat \<Rightarrow> pmem \<Rightarrow> pmem" where
  "zero_page_loop pa i 0 m = m"
| "zero_page_loop pa i (Suc n) m = zero_page_loop pa (Suc i) n (store64 (pa + 8 * of_nat i) 0 m)"

definition zero_page :: "u64 \<Rightarrow> pmem \<Rightarrow> pmem" where
  "zero_page pa m = zero_page_loop pa 0 512 m"

text \<open>The first range of the wanted backing with a page left, and the ranges after taking it.\<close>

fun take_page :: "backing_kind \<Rightarrow> managed_range list \<Rightarrow> (u64 \<times> managed_range list) option" where
  "take_page backing [] = None"
| "take_page backing (r # rs) =
     (if mr_backing r \<noteq> backing \<or> mr_next r \<ge> mr_end r
      then map_option (\<lambda>(pa, rs'). (pa, r # rs')) (take_page backing rs)
      else Some (mr_next r, r\<lparr>mr_next := mr_next r + kPageSize\<rparr> # rs))"

definition no_allocation :: allocation where
  "no_allocation = \<lparr>al_physical_address = 0, al_backing = BK_unavailable\<rparr>"

definition allocate_from :: "backing_kind \<Rightarrow> memst \<Rightarrow> allocation \<times> memst" where
  "allocate_from backing ms =
     (case take_page backing (ms_ranges ms) of
        None \<Rightarrow> (no_allocation, ms)
      | Some (pa, rs) \<Rightarrow>
          (\<lparr>al_physical_address = pa, al_backing = backing\<rparr>,
           ms\<lparr>ms_ranges := rs, ms_mem := zero_page pa (ms_mem ms)\<rparr>))"

definition pm_reset :: "memst \<Rightarrow> memst" where
  "pm_reset ms = ms\<lparr>ms_ranges := []\<rparr>"

definition add_range :: "u64 \<Rightarrow> u64 \<Rightarrow> backing_kind \<Rightarrow> memst \<Rightarrow> bool \<times> memst" where
  "add_range base sz backing ms =
     (if length (ms_ranges ms) \<ge> kMaxRanges \<or> backing = BK_unavailable \<or> sz = 0 \<or>
         \<not> is_page_aligned base \<or> sz mod kPageSize \<noteq> 0 then (False, ms)
      else let end_address = base + sz in
        if end_address \<le> base then (False, ms)
        else if list_ex (overlaps base end_address) (ms_ranges ms) then (False, ms)
        else if backing = BK_contained \<and>
            (backing_for (ms_lc ms) base \<noteq> BK_contained \<or>
             backing_for (ms_lc ms) (end_address - 1) \<noteq> BK_contained) then (False, ms)
        else if backing = BK_ddr \<and>
            (backing_for (ms_lc ms) base \<noteq> BK_ddr \<or>
             backing_for (ms_lc ms) (end_address - 1) \<noteq> BK_ddr) then (False, ms)
        else (True, ms\<lparr>ms_ranges := ms_ranges ms @
               [\<lparr>mr_base = base, mr_next = base, mr_end = end_address, mr_backing = backing\<rparr>]\<rparr>))"

definition add_contained_bootstrap_pool :: "u64 \<Rightarrow> u64 \<Rightarrow> memst \<Rightarrow> bool \<times> memst" where
  "add_contained_bootstrap_pool pool_start pool_end ms =
     (if pool_end \<le> pool_start then (False, ms)
      else add_range pool_start (pool_end - pool_start) BK_contained ms)"

text \<open>The validation loop of \<^verbatim>\<open>promote_backing\<close>: \<open>None\<close> when it returns 0 early.\<close>

fun count_promotable ::
    "lifecycle_state \<Rightarrow> backing_kind \<Rightarrow> backing_kind \<Rightarrow> managed_range list \<Rightarrow> nat option" where
  "count_promotable lc from to [] = Some 0"
| "count_promotable lc from to (r # rs) =
     (if mr_backing r \<noteq> from then count_promotable lc from to rs
      else if backing_for lc (mr_base r) \<noteq> to \<or> backing_for lc (mr_end r - 1) \<noteq> to then None
      else map_option Suc (count_promotable lc from to rs))"

definition promote_backing :: "backing_kind \<Rightarrow> backing_kind \<Rightarrow> memst \<Rightarrow> nat \<times> memst" where
  "promote_backing from to ms =
     (if from = to \<or> from = BK_unavailable \<or> to = BK_unavailable then (0, ms)
      else case count_promotable (ms_lc ms) from to (ms_ranges ms) of
        None \<Rightarrow> (0, ms)
      | Some promotable_ranges \<Rightarrow>
          if promotable_ranges = 0 then (0, ms)
          else (promotable_ranges, ms\<lparr>ms_ranges :=
            map (\<lambda>r. if mr_backing r = from then r\<lparr>mr_backing := to\<rparr> else r) (ms_ranges ms)\<rparr>))"

definition allocate_page :: "memst \<Rightarrow> allocation \<times> memst" where
  "allocate_page ms =
     (if ls_ddr_allocation_enabled (ms_lc ms) then allocate_from BK_ddr ms
      else if ls_domain (ms_lc ms) = MD_contained then allocate_from BK_contained ms
      else (no_allocation, ms))"

fun remaining_pages_in :: "backing_kind \<Rightarrow> managed_range list \<Rightarrow> u64 \<Rightarrow> u64" where
  "remaining_pages_in backing [] count = count"
| "remaining_pages_in backing (r # rs) count =
     remaining_pages_in backing rs
       (if mr_backing r = backing \<and> mr_next r < mr_end r
        then count + (mr_end r - mr_next r) div kPageSize else count)"

definition remaining_pages :: "backing_kind \<Rightarrow> memst \<Rightarrow> u64" where
  "remaining_pages backing ms = remaining_pages_in backing (ms_ranges ms) 0"

section \<open>Alignment and page clearing\<close>

lemma is_page_aligned_dvd: "is_page_aligned v \<longleftrightarrow> 4096 dvd unat v"
proof -
  have "(4095 :: u64) = mask 12"
    by (simp add: mask_eq_exp_minus_1)
  then have "is_page_aligned v \<longleftrightarrow> take_bit 12 v = 0"
    by (simp add: is_page_aligned_def kPageSize_def take_bit_eq_mask)
  also have "\<dots> \<longleftrightarrow> unat (take_bit 12 v) = 0"
    by (simp only: unat_eq_zero)
  also have "\<dots> \<longleftrightarrow> unat v mod 4096 = 0"
    by (simp only: unsigned_take_bit_eq) (simp add: take_bit_eq_mod)
  finally show ?thesis by (simp add: dvd_eq_mod_eq_0)
qed

lemma offset_window:
  fixes w :: u64
  assumes "c + k \<le> 2 ^ 64"
  shows "unat (w - of_nat c) < k \<longleftrightarrow> c \<le> unat w \<and> unat w < c + k"
proof -
  have "unat (w - of_nat c) < k \<longleftrightarrow> (\<exists>i<k. w = of_nat c + of_nat i)"
    using assms by (subst addr_offset_iff [symmetric]) auto
  also have "\<dots> \<longleftrightarrow> (\<exists>i<k. unat w = c + i)"
  proof (intro ex_cong1 conj_cong refl)
    fix i assume "i < k"
    then have "unat (of_nat (c + i) :: u64) = c + i" using assms by (intro unat_of_nat_small) simp
    then show "(w = of_nat c + of_nat i) \<longleftrightarrow> unat w = c + i"
      by (metis of_nat_add unsigned_word_eqI)
  qed
  also have "\<dots> \<longleftrightarrow> c \<le> unat w \<and> unat w < c + k"
    by (metis add_less_cancel_left le_add1 le_iff_add)
  finally show ?thesis .
qed

lemma store64_zero_apply: "store64 a 0 m b = (if unat (b - a) < 8 then 0 else m b)"
proof (cases "unat (b - a) < 8")
  case True
  then have "store64 a 0 m (a + of_nat (unat (b - a))) = 0"
    by (subst store64_byte) auto
  with True show ?thesis by simp
next
  case False
  then show ?thesis by (simp add: store64_outside)
qed

lemma zero_page_loop_apply:
  assumes "8 * (i + n) \<le> 2 ^ 64"
  shows "zero_page_loop pa i n m a =
    (if 8 * i \<le> unat (a - pa) \<and> unat (a - pa) < 8 * (i + n) then 0 else m a)"
  using assms
proof (induction n arbitrary: i m)
  case 0
  then show ?case by auto
next
  case (Suc n)
  have "a - (pa + 8 * of_nat i) = (a - pa) - of_nat (8 * i)"
    by simp
  then have "unat (a - (pa + 8 * of_nat i)) < 8 \<longleftrightarrow> 8 * i \<le> unat (a - pa) \<and> unat (a - pa) < 8 * i + 8"
    using Suc.prems offset_window [of "8 * i" 8 "a - pa"] by (simp add: diff_diff_eq)
  then show ?case
    using Suc by (auto simp: store64_zero_apply)
qed

lemma zero_page_apply: "zero_page pa m a = (if unat (a - pa) < 4096 then 0 else m a)"
  by (simp add: zero_page_def zero_page_loop_apply)

section \<open>Allocator invariant\<close>

definition range_ok :: "managed_range \<Rightarrow> bool" where
  "range_ok r \<longleftrightarrow> 4096 dvd unat (mr_base r) \<and> 4096 dvd unat (mr_next r) \<and> 4096 dvd unat (mr_end r) \<and>
     unat (mr_base r) \<le> unat (mr_next r) \<and> unat (mr_next r) \<le> unat (mr_end r) \<and>
     unat (mr_base r) < unat (mr_end r) \<and> mr_backing r \<noteq> BK_unavailable"

definition apart :: "managed_range \<Rightarrow> managed_range \<Rightarrow> bool" where
  "apart r r' \<longleftrightarrow> unat (mr_end r) \<le> unat (mr_base r') \<or> unat (mr_end r') \<le> unat (mr_base r)"

definition pm_inv :: "memst \<Rightarrow> bool" where
  "pm_inv ms \<longleftrightarrow> length (ms_ranges ms) \<le> kMaxRanges \<and> (\<forall>r \<in> set (ms_ranges ms). range_ok r) \<and>
     sorted_wrt apart (ms_ranges ms)"

definition handed_out :: "managed_range \<Rightarrow> u64 set" where
  "handed_out r = {p. 4096 dvd unat p \<and> unat (mr_base r) \<le> unat p \<and> unat p < unat (mr_next r)}"

definition allocated :: "memst \<Rightarrow> u64 set" where
  "allocated ms = (\<Union>r \<in> set (ms_ranges ms). handed_out r)"

lemma take_page_split:
  "take_page b rs = Some (pa, rs') \<Longrightarrow>
     \<exists>pre r post. rs = pre @ r # post \<and> mr_backing r = b \<and> mr_next r < mr_end r \<and>
       pa = mr_next r \<and> rs' = pre @ r\<lparr>mr_next := mr_next r + kPageSize\<rparr> # post"
proof (induction rs arbitrary: rs')
  case Nil
  then show ?case by simp
next
  case (Cons r rs)
  show ?case
  proof (cases "mr_backing r \<noteq> b \<or> mr_next r \<ge> mr_end r")
    case True
    with Cons.prems obtain rs'' where "take_page b rs = Some (pa, rs'')" "rs' = r # rs''"
      by auto
    with Cons.IH show ?thesis
      by (metis append_Cons)
  next
    case False
    with Cons.prems show ?thesis
      by (intro exI [of _ "[]"] exI [of _ r] exI [of _ rs]) auto
  qed
qed

lemma take_page_None_iff:
  "take_page b rs = None \<longleftrightarrow> (\<forall>r \<in> set rs. mr_backing r = b \<longrightarrow> mr_end r \<le> mr_next r)"
  by (induction rs) auto

lemma next_page_unat:
  assumes "range_ok r" and "mr_next r < mr_end r"
  shows "unat (mr_next r + kPageSize) = unat (mr_next r) + 4096"
    and "unat (mr_next r) + 4096 \<le> unat (mr_end r)"
proof -
  from assms show le: "unat (mr_next r) + 4096 \<le> unat (mr_end r)"
    by (auto simp: range_ok_def word_less_nat_alt dvd_def)
  then show "unat (mr_next r + kPageSize) = unat (mr_next r) + 4096"
    using unat_bound [of "mr_end r"] by (subst unat_add_no_wrap) (simp_all add: kPageSize_def)
qed

lemma range_ok_take:
  assumes "range_ok r" and "mr_next r < mr_end r"
  shows "range_ok (r\<lparr>mr_next := mr_next r + kPageSize\<rparr>)"
  using assms next_page_unat [OF assms] by (auto simp: range_ok_def)

lemma handed_out_take:
  assumes "range_ok r" and "mr_next r < mr_end r"
  shows "handed_out (r\<lparr>mr_next := mr_next r + kPageSize\<rparr>) = insert (mr_next r) (handed_out r)"
proof -
  have "unat p < unat (mr_next r) + 4096 \<longleftrightarrow> unat p < unat (mr_next r) \<or> p = mr_next r"
    if "4096 dvd unat p" for p
  proof -
    from assms have "4096 dvd unat (mr_next r)" by (simp add: range_ok_def)
    with that have "unat p < unat (mr_next r) + 4096 \<longleftrightarrow> unat p \<le> unat (mr_next r)"
      by (auto simp: dvd_def)
    then show ?thesis by (auto simp: le_less word_unat_eq_iff)
  qed
  then show ?thesis
    using assms next_page_unat [OF assms]
    by (auto simp: handed_out_def range_ok_def)
qed


lemma allocate_from_Some:
  assumes "pm_inv ms" and "allocate_from b ms = (al, ms')" and "al_backing al \<noteq> BK_unavailable"
  obtains pre r post where "ms_ranges ms = pre @ r # post" and "range_ok r"
    and "mr_next r < mr_end r" and "mr_backing r = b"
    and "al = \<lparr>al_physical_address = mr_next r, al_backing = b\<rparr>"
    and "ms' = ms\<lparr>ms_ranges := pre @ r\<lparr>mr_next := mr_next r + kPageSize\<rparr> # post,
           ms_mem := zero_page (mr_next r) (ms_mem ms)\<rparr>"
proof -
  from assms(2,3) obtain pa rs where tp: "take_page b (ms_ranges ms) = Some (pa, rs)"
    and al: "al = \<lparr>al_physical_address = pa, al_backing = b\<rparr>"
    and ms': "ms' = ms\<lparr>ms_ranges := rs, ms_mem := zero_page pa (ms_mem ms)\<rparr>"
    by (auto simp: allocate_from_def no_allocation_def split: option.splits)
  from take_page_split [OF tp] obtain pre r post where
    "ms_ranges ms = pre @ r # post" "mr_backing r = b" "mr_next r < mr_end r"
    "pa = mr_next r" "rs = pre @ r\<lparr>mr_next := mr_next r + kPageSize\<rparr> # post"
    by blast
  with assms(1) al ms' show ?thesis
    by (intro that) (auto simp: pm_inv_def)
qed

lemma apart_next [simp]:
  "apart (r\<lparr>mr_next := v\<rparr>) = apart r" "apart x (r\<lparr>mr_next := v\<rparr>) = apart x r"
  by (auto simp: apart_def fun_eq_iff)

lemma apart_not_handed_out:
  assumes "apart r r' \<or> apart r' r" and "range_ok r" and "range_ok r'" and "mr_next r < mr_end r"
  shows "mr_next r \<notin> handed_out r'"
  using assms by (auto simp: apart_def handed_out_def range_ok_def word_less_nat_alt)

lemma allocate_from_fresh:
  assumes inv: "pm_inv ms" and al: "allocate_from b ms = (al, ms')"
    and ok: "al_backing al \<noteq> BK_unavailable"
  shows "pm_inv ms'" "al_physical_address al \<notin> allocated ms"
    "allocated ms' = insert (al_physical_address al) (allocated ms)"
    "4096 dvd unat (al_physical_address al)"
    "ms_mem ms' a = (if unat (a - al_physical_address al) < 4096 then 0 else ms_mem ms a)"
    "ms_lc ms' = ms_lc ms" "al_backing al = b"
proof -
  obtain pre r post where d: "ms_ranges ms = pre @ r # post" "range_ok r"
    "mr_next r < mr_end r" "mr_backing r = b"
    "al = \<lparr>al_physical_address = mr_next r, al_backing = b\<rparr>"
    "ms' = ms\<lparr>ms_ranges := pre @ r\<lparr>mr_next := mr_next r + kPageSize\<rparr> # post,
           ms_mem := zero_page (mr_next r) (ms_mem ms)\<rparr>"
    by (rule allocate_from_Some [OF assms])
  show "pm_inv ms'"
    using inv d range_ok_take [OF d(2,3)] by (auto simp: pm_inv_def sorted_wrt_append)
  have "mr_next r \<notin> handed_out r"
    by (simp add: handed_out_def)
  moreover have "mr_next r \<notin> handed_out x" if "x \<in> set pre \<union> set post" for x
    using inv d that by (intro apart_not_handed_out) (auto simp: pm_inv_def sorted_wrt_append)
  ultimately show "al_physical_address al \<notin> allocated ms"
    using d by (auto simp: allocated_def)
  show "allocated ms' = insert (al_physical_address al) (allocated ms)"
    using d handed_out_take [OF d(2,3)] by (auto simp: allocated_def)
  show "4096 dvd unat (al_physical_address al)"
    using d by (simp add: range_ok_def)
  show "ms_mem ms' a = (if unat (a - al_physical_address al) < 4096 then 0 else ms_mem ms a)"
    using d by (simp add: zero_page_apply)
  show "ms_lc ms' = ms_lc ms" "al_backing al = b"
    using d by simp_all
qed

lemma allocate_page_cases:
  assumes "allocate_page ms = (al, ms')" and "al_backing al \<noteq> BK_unavailable"
  obtains "ls_ddr_allocation_enabled (ms_lc ms)" and "allocate_from BK_ddr ms = (al, ms')"
  | "\<not> ls_ddr_allocation_enabled (ms_lc ms)" and "ls_domain (ms_lc ms) = MD_contained"
    and "allocate_from BK_contained ms = (al, ms')"
  using assms by (auto simp: allocate_page_def no_allocation_def split: if_splits)

section \<open>A page is handed out once, and clean\<close>

text \<open>
  C18: From a well-formed allocator state, a successful \<^verbatim>\<open>allocate_page\<close> returns a page-aligned
  address that was never handed out before, records exactly that page as handed out, clears
  every byte of it, changes no other byte of memory and keeps the allocator well-formed.
\<close>

theorem allocate_page_fresh:
  assumes "pm_inv ms" and "allocate_page ms = (al, ms')" and "al_backing al \<noteq> BK_unavailable"
  shows "pm_inv ms' \<and> al_physical_address al \<notin> allocated ms \<and>
    allocated ms' = insert (al_physical_address al) (allocated ms) \<and>
    4096 dvd unat (al_physical_address al) \<and>
    (\<forall>a. ms_mem ms' a =
      (if unat (a - al_physical_address al) < 4096 then 0 else ms_mem ms a))"
  using assms(2,3)
proof (cases rule: allocate_page_cases)
  case 1
  with allocate_from_fresh [OF assms(1) 1(2) assms(3)] show ?thesis by blast
next
  case 2
  with allocate_from_fresh [OF assms(1) 2(3) assms(3)] show ?thesis by blast
qed



lemma backing_for_convex:
  assumes "backing_for lc x = k" and "backing_for lc y = k" and "k \<noteq> BK_unavailable"
    and "unat x \<le> unat a" and "unat a \<le> unat y"
  shows "backing_for lc a = k"
  using assms by (auto simp: backing_for_def range_contains_unat split: if_splits)

definition range_backed :: "lifecycle_state \<Rightarrow> managed_range \<Rightarrow> bool" where
  "range_backed lc r \<longleftrightarrow>
     (\<forall>a. unat (mr_base r) \<le> unat a \<and> unat a < unat (mr_end r) \<longrightarrow> backing_for lc a = mr_backing r)"

lemma range_backedI:
  assumes "backing_for lc (mr_base r) = mr_backing r"
    and "backing_for lc (mr_end r - 1) = mr_backing r"
    and "mr_backing r \<noteq> BK_unavailable"
  shows "range_backed lc r"
  unfolding range_backed_def
proof (intro allI impI)
  fix a :: u64 assume a: "unat (mr_base r) \<le> unat a \<and> unat a < unat (mr_end r)"
  then have "mr_end r \<noteq> 0" by auto
  then have e: "unat (mr_end r - 1) = unat (mr_end r) - 1" by (rule unat_minus_one)
  have "unat a \<le> unat (mr_end r - 1)" unfolding e using a by linarith
  with a show "backing_for lc a = mr_backing r"
    by (intro backing_for_convex [OF assms]) simp_all
qed

lemma list_ex_overlaps:
  "\<not> list_ex (overlaps base e) rs \<longleftrightarrow> (\<forall>r \<in> set rs. unat (mr_end r) \<le> unat base \<or> unat e \<le> unat (mr_base r))"
  by (auto simp: list_ex_iff overlaps_def word_less_nat_alt not_less)

lemma add_range_True:
  assumes "add_range base sz k ms = (True, ms')"
  shows "unat base + unat sz < 2 ^ 64" "4096 dvd unat base" "4096 dvd unat sz" "sz \<noteq> 0"
    "k \<noteq> BK_unavailable" "length (ms_ranges ms) < kMaxRanges"
    "\<forall>r \<in> set (ms_ranges ms). unat (mr_end r) \<le> unat base \<or> unat (base + sz) \<le> unat (mr_base r)"
    "backing_for (ms_lc ms) base = k" "backing_for (ms_lc ms) (base + sz - 1) = k"
    "ms' = ms\<lparr>ms_ranges := ms_ranges ms @
       [\<lparr>mr_base = base, mr_next = base, mr_end = base + sz, mr_backing = k\<rparr>]\<rparr>"
proof -
  have kk: "k = BK_contained \<or> k = BK_ddr" if "k \<noteq> BK_unavailable"
    using that by (cases k) auto
  from assms have "base < base + sz" "is_page_aligned base" "sz mod kPageSize = 0"
    "\<not> list_ex (overlaps base (base + sz)) (ms_ranges ms)"
    by (auto simp: add_range_def Let_def split: if_splits)
  then show "unat base + unat sz < 2 ^ 64" "4096 dvd unat base" "4096 dvd unat sz" "sz \<noteq> 0"
    "\<forall>r \<in> set (ms_ranges ms). unat (mr_end r) \<le> unat base \<or> unat (base + sz) \<le> unat (mr_base r)"
    by (auto simp: word_less_add_iff is_page_aligned_dvd word_mod_eq_0_iff kPageSize_def list_ex_overlaps)
  from assms show k: "k \<noteq> BK_unavailable" and "length (ms_ranges ms) < kMaxRanges"
    "ms' = ms\<lparr>ms_ranges := ms_ranges ms @
       [\<lparr>mr_base = base, mr_next = base, mr_end = base + sz, mr_backing = k\<rparr>]\<rparr>"
    by (auto simp: add_range_def Let_def split: if_splits)
  from assms kk [OF k] show "backing_for (ms_lc ms) base = k" "backing_for (ms_lc ms) (base + sz - 1) = k"
    by (auto simp: add_range_def Let_def split: if_splits)
qed

text \<open>
  C19: When \<^verbatim>\<open>add_range\<close> accepts a range, the allocator stays well-formed (in particular the
  ranges stay pairwise disjoint and page-aligned), no page counts as handed out that was not
  before, and every single address of the new range, not only its two checked ends, is of the
  backing kind the caller named and was never handed out.
\<close>

theorem add_range_sound:
  assumes "pm_inv ms" and "add_range base sz k ms = (True, ms')"
  shows "pm_inv ms' \<and> allocated ms' = allocated ms \<and>
    (\<forall>a. unat base \<le> unat a \<and> unat a < unat base + unat sz \<longrightarrow>
       backing_for (ms_lc ms') a = k \<and> a \<notin> allocated ms)"
proof -
  note t = add_range_True [OF assms(2)]
  let ?r = "\<lparr>mr_base = base, mr_next = base, mr_end = base + sz, mr_backing = k\<rparr>"
  have e: "unat (base + sz) = unat base + unat sz"
    using t(1) by (simp add: unat_add_no_wrap)
  have "0 < unat sz"
    using t(4) by (simp add: unat_gt_0)
  then have rok: "range_ok ?r"
    using t e by (simp add: range_ok_def)
  have ap: "\<forall>r \<in> set (ms_ranges ms). apart r ?r"
    using t(7) by (simp add: apart_def)
  have "pm_inv ms'"
    using assms(1) t(6,10) rok ap by (simp add: pm_inv_def sorted_wrt_append)
  moreover have "allocated ms' = allocated ms"
    using t(10) by (auto simp: allocated_def handed_out_def)
  moreover have "range_backed (ms_lc ms) ?r"
    using t by (intro range_backedI) auto
  then have "backing_for (ms_lc ms') a = k"
    if "unat base \<le> unat a \<and> unat a < unat base + unat sz" for a
    using that e t(10) by (simp add: range_backed_def)
  moreover have "a \<notin> allocated ms" if "unat base \<le> unat a \<and> unat a < unat base + unat sz" for a
    using that e t(7) assms(1) by (fastforce simp: allocated_def handed_out_def pm_inv_def range_ok_def)
  ultimately show ?thesis by blast
qed

section \<open>Counting pages\<close>

definition free_pages :: "backing_kind \<Rightarrow> managed_range \<Rightarrow> nat" where
  "free_pages b r = (if mr_backing r = b then (unat (mr_end r) - unat (mr_next r)) div 4096 else 0)"

lemma free_pages_bound: "free_pages b r < 2 ^ 52"
proof -
  have "unat (mr_end r) - unat (mr_next r) < 2 ^ 52 * 4096"
    using unat_bound [of "mr_end r"] by simp
  then show ?thesis
    by (simp add: free_pages_def div_less_iff_less_mult)
qed

lemma remaining_pages_in_sum:
  assumes "unat c + length rs * 2 ^ 52 \<le> 2 ^ 60"
  shows "unat (remaining_pages_in b rs c) = unat c + (\<Sum>r\<leftarrow>rs. free_pages b r)"
  using assms
proof (induction rs arbitrary: c)
  case Nil
  then show ?case by simp
next
  case (Cons r rs)
  let ?c = "if mr_backing r = b \<and> mr_next r < mr_end r
        then c + (mr_end r - mr_next r) div kPageSize else c"
  have "unat ((mr_end r - mr_next r) div kPageSize) = free_pages b r"
    if "mr_backing r = b" "mr_next r < mr_end r"
    using that by (simp add: free_pages_def unat_div unat_sub_le kPageSize_def)
  then have c: "unat ?c = unat c + free_pages b r"
    using Cons.prems free_pages_bound [of b r]
    by (auto simp: unat_add_no_wrap free_pages_def word_less_nat_alt)
  have "unat ?c + length rs * 2 ^ 52 \<le> 2 ^ 60"
    using Cons.prems c free_pages_bound [of b r] by simp
  from Cons.IH [OF this] c show ?case by simp
qed

lemma remaining_pages_sum:
  "pm_inv ms \<Longrightarrow> unat (remaining_pages b ms) = (\<Sum>r\<leftarrow>ms_ranges ms. free_pages b r)"
  by (simp add: remaining_pages_def remaining_pages_in_sum pm_inv_def kMaxRanges_def)

lemma free_pages_take:
  assumes "range_ok r" and "mr_next r < mr_end r" and "mr_backing r = b"
  shows "free_pages b r = Suc (free_pages b (r\<lparr>mr_next := mr_next r + kPageSize\<rparr>))"
proof -
  have "unat (mr_end r) - unat (mr_next r) = (unat (mr_end r) - (unat (mr_next r) + 4096)) + 4096"
    using next_page_unat [OF assms(1,2)] by simp
  then show ?thesis
    using assms next_page_unat [OF assms(1,2)] by (simp add: free_pages_def)
qed

lemma free_pages_zero_iff:
  assumes "range_ok r"
  shows "free_pages b r = 0 \<longleftrightarrow> (mr_backing r = b \<longrightarrow> mr_end r \<le> mr_next r)"
proof -
  from assms obtain j k where "unat (mr_end r) = 4096 * j" "unat (mr_next r) = 4096 * k"
    by (auto simp: range_ok_def dvd_def)
  then show ?thesis
    by (auto simp: free_pages_def word_le_nat_alt simp flip: diff_mult_distrib2)
qed

lemma allocate_from_count:
  assumes "pm_inv ms" and "allocate_from b ms = (al, ms')" and "b \<noteq> BK_unavailable"
  shows "(al_backing al = BK_unavailable \<longleftrightarrow> remaining_pages b ms = 0) \<and>
    (al_backing al \<noteq> BK_unavailable \<longrightarrow>
       unat (remaining_pages b ms) = Suc (unat (remaining_pages b ms')))"
proof -
  have z: "remaining_pages b ms = 0 \<longleftrightarrow> take_page b (ms_ranges ms) = None"
  proof -
    have "remaining_pages b ms = 0 \<longleftrightarrow> unat (remaining_pages b ms) = 0"
      by (simp only: unat_eq_zero)
    also have "\<dots> \<longleftrightarrow> (\<forall>r \<in> set (ms_ranges ms). free_pages b r = 0)"
      by (simp add: remaining_pages_sum [OF assms(1)])
    also have "\<dots> \<longleftrightarrow> take_page b (ms_ranges ms) = None"
      using assms(1) by (auto simp: take_page_None_iff pm_inv_def free_pages_zero_iff)
    finally show ?thesis .
  qed
  have bk: "al_backing al = BK_unavailable \<longleftrightarrow> take_page b (ms_ranges ms) = None"
    using assms(2,3) by (auto simp: allocate_from_def no_allocation_def split: option.splits)
  have "unat (remaining_pages b ms) = Suc (unat (remaining_pages b ms'))"
    if ok: "al_backing al \<noteq> BK_unavailable"
  proof -
    obtain pre r post where d: "ms_ranges ms = pre @ r # post" "range_ok r"
      "mr_next r < mr_end r" "mr_backing r = b"
      "al = \<lparr>al_physical_address = mr_next r, al_backing = b\<rparr>"
      "ms' = ms\<lparr>ms_ranges := pre @ r\<lparr>mr_next := mr_next r + kPageSize\<rparr> # post,
             ms_mem := zero_page (mr_next r) (ms_mem ms)\<rparr>"
      by (rule allocate_from_Some [OF assms(1,2) ok])
    have "pm_inv ms'"
      by (rule allocate_from_fresh(1) [OF assms(1,2) ok])
    then show ?thesis
      using d free_pages_take [OF d(2,3,4)]
      by (simp add: remaining_pages_sum assms(1))
  qed
  with z bk show ?thesis by simp
qed


text \<open>
  C21: Page accounting.  From a well-formed state \<^verbatim>\<open>allocate_page\<close> fails exactly when the
  lifecycle has neither published DDR nor is still contained, or when no page of the selected
  kind remains; a success takes exactly one page off \<^verbatim>\<open>remaining_pages\<close> of that kind and is
  of the kind the lifecycle selects.
\<close>

theorem allocate_page_accounting:
  assumes "pm_inv ms" and "allocate_page ms = (al, ms')"
  shows "(if ls_ddr_allocation_enabled (ms_lc ms) \<or> ls_domain (ms_lc ms) = MD_contained
     then let k = (if ls_ddr_allocation_enabled (ms_lc ms) then BK_ddr else BK_contained) in
       (if remaining_pages k ms = 0 then al = no_allocation \<and> ms' = ms
        else al_backing al = k \<and> unat (remaining_pages k ms) = Suc (unat (remaining_pages k ms')))
     else al = no_allocation \<and> ms' = ms)"
proof -
  have c: "if remaining_pages k ms = 0 then al = no_allocation \<and> ms' = ms
      else al_backing al = k \<and> unat (remaining_pages k ms) = Suc (unat (remaining_pages k ms'))"
    if "allocate_from k ms = (al, ms')" "k \<noteq> BK_unavailable" for k
    using that allocate_from_count [OF assms(1) that(1) that(2)]
    by (auto simp: allocate_from_def no_allocation_def split: option.splits)
  show ?thesis
    using assms(2) c [of BK_ddr] c [of BK_contained]
    by (auto simp: allocate_page_def Let_def split: if_splits)
qed

section \<open>Promotion\<close>

lemma count_promotable_Some:
  assumes "count_promotable lc from to rs = Some n"
  shows "n = length (filter (\<lambda>r. mr_backing r = from) rs)"
    "\<forall>r \<in> set rs. mr_backing r = from \<longrightarrow>
       backing_for lc (mr_base r) = to \<and> backing_for lc (mr_end r - 1) = to"
  using assms by (induction rs arbitrary: n) (auto split: if_splits)

lemma promote_keeps_inv:
  assumes "pm_inv ms" and "k \<noteq> BK_unavailable"
  shows "pm_inv (ms\<lparr>ms_ranges := map (\<lambda>r. if P r then r\<lparr>mr_backing := k\<rparr> else r) (ms_ranges ms)\<rparr>)"
proof -
  have "sorted_wrt (\<lambda>x y. apart (if P x then x\<lparr>mr_backing := k\<rparr> else x)
      (if P y then y\<lparr>mr_backing := k\<rparr> else y)) (ms_ranges ms)"
    using assms(1) unfolding pm_inv_def
    by (auto elim!: sorted_wrt_mono_rel [rotated] simp: apart_def)
  then show ?thesis
    using assms by (auto simp: pm_inv_def sorted_wrt_map range_ok_def)
qed

text \<open>
  C20: \<^verbatim>\<open>promote_backing\<close> is all or nothing.  It relabels every range of kind \<open>from\<close> or none;
  a nonzero result means that no range of the old kind is left, that each relabelled range is
  at every address of the new kind, and that the handed-out pages, memory and the other ranges
  are as they were.
\<close>

theorem promote_backing_atomic:
  assumes "pm_inv ms" and "promote_backing from to ms = (n, ms')"
  shows "pm_inv ms' \<and> allocated ms' = allocated ms \<and> ms_mem ms' = ms_mem ms \<and> ms_lc ms' = ms_lc ms \<and>
    (if n = 0 then ms' = ms
     else n = length (filter (\<lambda>r. mr_backing r = from) (ms_ranges ms)) \<and>
       ms_ranges ms' = map (\<lambda>r. if mr_backing r = from then r\<lparr>mr_backing := to\<rparr> else r) (ms_ranges ms) \<and>
       (\<forall>r \<in> set (ms_ranges ms'). mr_backing r \<noteq> from) \<and>
       (\<forall>r \<in> set (ms_ranges ms). mr_backing r = from \<longrightarrow> range_backed (ms_lc ms) (r\<lparr>mr_backing := to\<rparr>)))"
proof (cases "n = 0")
  case True
  with assms show ?thesis
    by (auto simp: promote_backing_def split: if_splits option.splits)
next
  case False
  let ?f = "\<lambda>r. if mr_backing r = from then r\<lparr>mr_backing := to\<rparr> else r"
  from False assms(2) have k: "from \<noteq> to" "to \<noteq> BK_unavailable"
    and c: "count_promotable (ms_lc ms) from to (ms_ranges ms) = Some n"
    and ms': "ms' = ms\<lparr>ms_ranges := map ?f (ms_ranges ms)\<rparr>"
    by (auto simp: promote_backing_def split: if_splits option.splits)
  have "pm_inv ms'"
    unfolding ms' by (rule promote_keeps_inv [OF assms(1) k(2)])
  moreover have "allocated ms' = allocated ms"
    by (auto simp: ms' allocated_def handed_out_def)
  moreover have "range_backed (ms_lc ms) (r\<lparr>mr_backing := to\<rparr>)"
    if "r \<in> set (ms_ranges ms)" "mr_backing r = from" for r
    using that count_promotable_Some(2) [OF c] k(2) by (intro range_backedI) auto
  ultimately show ?thesis
    using False k count_promotable_Some(1) [OF c] by (auto simp: ms')
qed

section \<open>A concrete boot\<close>

text \<open>The QEMU image at \<open>0x80000000\<close> with a two-page bootstrap pool.\<close>

definition pm_example :: "lifecycle_state \<Rightarrow> memst" where
  "pm_example lc = snd (add_contained_bootstrap_pool 0x80100000 0x80102000
     \<lparr>ms_lc = lc, ms_ranges = [], ms_mem = (\<lambda>_. 0xA5)\<rparr>)"

lemma pm_example_eq:
  assumes "lc = initialize_contained 0x80000000 g_state_init"
  shows "pm_example lc = \<lparr>ms_lc = lc,
    ms_ranges = [\<lparr>mr_base = 0x80100000, mr_next = 0x80100000, mr_end = 0x80102000, mr_backing = BK_contained\<rparr>],
    ms_mem = (\<lambda>_. 0xA5)\<rparr>"
  using assms
  by (simp add: pm_example_def add_contained_bootstrap_pool_def add_range_def is_page_aligned_def
      kPageSize_def kMaxRanges_def backing_for_def range_contains_def valid_range_def
      initialize_contained_def kQemuContainedWindowSize_def)

lemma pm_example_inv:
  "pm_inv (pm_example (initialize_contained 0x80000000 g_state_init))"
  by (simp add: pm_example_eq pm_inv_def range_ok_def kMaxRanges_def)


abbreviation lc0 :: lifecycle_state where
  "lc0 \<equiv> initialize_contained 0x80000000 g_state_init"

lemma pm_example_allocate:
  "allocate_page (pm_example lc0) =
     (\<lparr>al_physical_address = 0x80100000, al_backing = BK_contained\<rparr>,
      snd (allocate_page (pm_example lc0)))"
  by (simp add: pm_example_eq allocate_page_def allocate_from_def initialize_contained_def)

theorem allocate_page_fresh_witness:
  "pm_inv (snd (allocate_page (pm_example lc0))) \<and>
   0x80100000 \<notin> allocated (pm_example lc0) \<and>
   0x80100000 \<in> allocated (snd (allocate_page (pm_example lc0))) \<and>
   ms_mem (snd (allocate_page (pm_example lc0))) 0x80100FFF = 0 \<and>
   ms_mem (snd (allocate_page (pm_example lc0))) 0x80101000 = 0xA5"
  using allocate_page_fresh [OF pm_example_inv pm_example_allocate]
  by (simp add: pm_example_eq)

lemma pm_example_selects:
  "remaining_pages BK_contained (pm_example lc0) = 2"
  "\<not> ls_ddr_allocation_enabled (ms_lc (pm_example lc0))"
  "ls_domain (ms_lc (pm_example lc0)) = MD_contained"
  by (simp_all add: pm_example_eq initialize_contained_def remaining_pages_def kPageSize_def)

theorem allocate_page_accounting_witness:
  "unat (remaining_pages BK_contained (snd (allocate_page (pm_example lc0)))) = 1"
  using allocate_page_accounting [OF pm_example_inv pm_example_allocate]
  by (simp add: pm_example_selects)

lemma pm_example_add:
  "add_range 0x80200000 0x3000 BK_contained (pm_example lc0) =
     (True, snd (add_range 0x80200000 0x3000 BK_contained (pm_example lc0)))"
  by (simp add: pm_example_eq add_range_def is_page_aligned_def
      kPageSize_def kMaxRanges_def backing_for_def range_contains_def valid_range_def overlaps_def
      initialize_contained_def kQemuContainedWindowSize_def)

theorem add_range_sound_witness:
  "pm_inv (snd (add_range 0x80200000 0x3000 BK_contained (pm_example lc0))) \<and>
   0x80201234 \<notin> allocated (pm_example lc0)"
  using add_range_sound [OF pm_example_inv pm_example_add] by auto

definition pm_published :: memst where
  "pm_published = (pm_example lc0)\<lparr>ms_lc := bring_up lc0\<rparr>"

lemma pm_published_inv: "pm_inv pm_published"
  using pm_example_inv by (simp add: pm_published_def pm_inv_def)

lemma pm_published_promote: "promote_backing BK_contained BK_ddr pm_published =
   (1, snd (promote_backing BK_contained BK_ddr pm_published))"
proof -
  have "ls_domain (bring_up lc0) = MD_mainstore" "ls_ddr (bring_up lc0) = DDR_online"
    "ls_ddr_range (bring_up lc0) = configured_range"
    by (simp_all add: bring_up_defs configured_contains)
  then have "backing_for (bring_up lc0) 0x80100000 = BK_ddr"
    "backing_for (bring_up lc0) 0x80101FFF = BK_ddr"
    by (simp_all add: backing_for_def range_contains_def valid_range_def configured_range_def)
  then show ?thesis
    by (simp add: pm_published_def pm_example_eq promote_backing_def)
qed

theorem promote_backing_atomic_witness:
  "pm_inv (snd (promote_backing BK_contained BK_ddr pm_published)) \<and>
   map mr_backing (ms_ranges (snd (promote_backing BK_contained BK_ddr pm_published))) = [BK_ddr]"
  using promote_backing_atomic [OF pm_published_inv pm_published_promote]
  by (simp add: pm_published_def pm_example_eq)


end
