(* ===== verification/Sv39.thy ===== *)
theory Sv39
  imports Page_Manager
begin

text \<open>
  Sv39 page tables, \<^verbatim>\<open>src/microkernel/arch/riscv/sv39.cpp\<close>.  A table is a page of 512
  little-endian 64-bit entries in physical memory; the functions read and write them through
  \<open>load64\<close> and \<open>store64\<close> and take intermediate tables from the page manager.  The TLB and
  instruction fences have no effect on this memory model.
\<close>

section \<open>Entries\<close>

definition kSatpModeSv39 :: u64 where
  "kSatpModeSv39 = push_bit 60 8"

definition pte_valid :: u64 where "pte_valid = push_bit 0 1"

definition pte_read :: u64 where "pte_read = push_bit 1 1"

definition pte_write :: u64 where "pte_write = push_bit 2 1"

definition pte_execute :: u64 where "pte_execute = push_bit 3 1"

definition pte_user :: u64 where "pte_user = push_bit 4 1"

definition pte_accessed :: u64 where "pte_accessed = push_bit 6 1"

definition pte_dirty :: u64 where "pte_dirty = push_bit 7 1"

text \<open>An address space is its root table; \<open>0\<close> is the invalid one.\<close>

record address_space =
  root_physical_address :: u64

definition address_space_valid :: "address_space \<Rightarrow> bool" where
  "address_space_valid sp \<longleftrightarrow> root_physical_address sp \<noteq> 0"

definition kPpnMask :: u64 where
  "kPpnMask = push_bit 44 1 - 1"

definition kLeafMask :: u64 where
  "kLeafMask = pte_read OR pte_write OR pte_execute"

definition vpn_index :: "u64 \<Rightarrow> nat \<Rightarrow> u64" where
  "vpn_index virtual_address level = drop_bit (12 + 9 * level) virtual_address AND 0x1ff"

definition make_pte :: "u64 \<Rightarrow> u64 \<Rightarrow> u64" where
  "make_pte physical_address flags = push_bit 10 (drop_bit 12 physical_address) OR flags"

definition pte_physical_address :: "u64 \<Rightarrow> u64" where
  "pte_physical_address pte = push_bit 12 (drop_bit 10 pte AND kPpnMask)"

definition pte_is_valid :: "u64 \<Rightarrow> bool" where
  "pte_is_valid pte \<longleftrightarrow> pte AND pte_valid \<noteq> 0"

definition pte_is_leaf :: "u64 \<Rightarrow> bool" where
  "pte_is_leaf pte \<longleftrightarrow> pte AND kLeafMask \<noteq> 0"

text \<open>The address of entry \<open>index\<close> of the table at \<open>table\<close>.\<close>

definition pte_address :: "u64 \<Rightarrow> u64 \<Rightarrow> u64" where
  "pte_address table index = table + 8 * index"

section \<open>Operations\<close>

definition ensure_child_table :: "u64 \<Rightarrow> memst \<Rightarrow> u64 \<times> memst" where
  "ensure_child_table pte_addr ms =
     (let parent_pte = load64 (ms_mem ms) pte_addr in
      if pte_is_valid parent_pte then
        (if pte_is_leaf parent_pte then (0, ms) else (pte_physical_address parent_pte, ms))
      else
        (let (al, ms') = allocate_page ms in
         if \<not> allocation_valid al then (0, ms')
         else (al_physical_address al,
               ms'\<lparr>ms_mem := store64 pte_addr (make_pte (al_physical_address al) pte_valid)
                 (ms_mem ms')\<rparr>)))"

definition create_address_space :: "memst \<Rightarrow> address_space \<times> memst" where
  "create_address_space ms =
     (let (al, ms') = allocate_page ms in
      if \<not> allocation_valid al then (\<lparr>root_physical_address = 0\<rparr>, ms')
      else (\<lparr>root_physical_address = al_physical_address al\<rparr>, ms'))"

definition map_page_4k :: "address_space \<Rightarrow> u64 \<Rightarrow> u64 \<Rightarrow> u64 \<Rightarrow> memst \<Rightarrow> bool \<times> memst" where
  "map_page_4k sp virtual_address physical_address flags ms =
     (if \<not> address_space_valid sp \<or> \<not> is_page_aligned virtual_address \<or>
         \<not> is_page_aligned physical_address then (False, ms)
      else if flags AND pte_write \<noteq> 0 \<and> flags AND pte_read = 0 then (False, ms)
      else let (level1_address, ms1) =
            ensure_child_table (pte_address (root_physical_address sp) (vpn_index virtual_address 2)) ms in
        if level1_address = 0 then (False, ms1)
        else let (level0_address, ms2) =
            ensure_child_table (pte_address level1_address (vpn_index virtual_address 1)) ms1 in
        if level0_address = 0 then (False, ms2)
        else let leaf = pte_address level0_address (vpn_index virtual_address 0) in
        if pte_is_valid (load64 (ms_mem ms2) leaf) then (False, ms2)
        else (True, ms2\<lparr>ms_mem :=
               store64 leaf (make_pte physical_address (flags OR pte_valid)) (ms_mem ms2)\<rparr>))"

text \<open>The mapping loop at page \<open>i\<close> with \<open>n\<close> pages left.\<close>

fun map_range_loop ::
    "address_space \<Rightarrow> u64 \<Rightarrow> u64 \<Rightarrow> u64 \<Rightarrow> nat \<Rightarrow> nat \<Rightarrow> memst \<Rightarrow> bool \<times> memst" where
  "map_range_loop sp virtual_base physical_base flags i 0 ms = (True, ms)"
| "map_range_loop sp virtual_base physical_base flags i (Suc n) ms =
     (case map_page_4k sp (virtual_base + kPageSize * of_nat i)
             (physical_base + kPageSize * of_nat i) flags ms of
        (False, ms') \<Rightarrow> (False, ms')
      | (True, ms') \<Rightarrow> map_range_loop sp virtual_base physical_base flags (Suc i) n ms')"

definition map_range_4k ::
    "address_space \<Rightarrow> u64 \<Rightarrow> u64 \<Rightarrow> u64 \<Rightarrow> u64 \<Rightarrow> memst \<Rightarrow> bool \<times> memst" where
  "map_range_4k sp virtual_base physical_base sz flags ms =
     (if sz = 0 \<or> \<not> is_page_aligned virtual_base \<or> \<not> is_page_aligned physical_base \<or>
         sz mod kPageSize \<noteq> 0 then (False, ms)
      else if virtual_base + sz \<le> virtual_base \<or> physical_base + sz \<le> physical_base
        then (False, ms)
      else map_range_loop sp virtual_base physical_base flags 0 (unat (sz div kPageSize)) ms)"

definition satp_value :: "address_space \<Rightarrow> u64" where
  "satp_value sp =
     (if \<not> address_space_valid sp then 0
      else kSatpModeSv39 OR drop_bit 12 (root_physical_address sp))"

end
