(* ===== verification/Vmm_Manager.thy ===== *)
theory Vmm_Manager
  imports Sv39
begin

text \<open>
  The boot address space and the task-stack mappings, \<^verbatim>\<open>src/microkernel/core/vmm_manager.cpp\<close>.
  The used prefix of \<^verbatim>\<open>mapped_stack_bases_\<close> is a list, so that \<^verbatim>\<open>mapped_stack_count_\<close> is its
  length; the linker bounds of the user text are arguments of \<open>Vmm_initialize\<close>.
\<close>

record vmm_state =
  vm_boot_address_space :: address_space
  vm_mapped_stack_bases :: "u64 list"
  vm_user_text_start :: u64
  vm_user_text_end :: u64
  vm_initialized :: bool

definition vmm_init :: vmm_state where
  "vmm_init = \<lparr>vm_boot_address_space = \<lparr>root_physical_address = 0\<rparr>, vm_mapped_stack_bases = [],
     vm_user_text_start = 0, vm_user_text_end = 0, vm_initialized = False\<rparr>"

definition kMaxStackMappings :: nat where
  "kMaxStackMappings = 16"

definition kUserTextFlags :: u64 where
  "kUserTextFlags = pte_read OR pte_execute OR pte_user OR pte_accessed"

definition kUserStackFlags :: u64 where
  "kUserStackFlags = pte_read OR pte_write OR pte_user OR pte_accessed OR pte_dirty"

definition Vmm_initialize ::
    "u64 \<Rightarrow> u64 \<Rightarrow> vmm_state \<times> memst \<Rightarrow> bool \<times> vmm_state \<times> memst" where
  "Vmm_initialize user_text_start user_text_end = (\<lambda>(v, ms).
     if vm_initialized v then (True, v, ms)
     else let v1 = v\<lparr>vm_user_text_start := user_text_start, vm_user_text_end := user_text_end\<rparr> in
       if user_text_end \<le> user_text_start \<or> user_text_start mod kPageSize \<noteq> 0 \<or>
          user_text_end mod kPageSize \<noteq> 0 then (False, v1, ms)
       else let (sp, ms1) = create_address_space ms; v2 = v1\<lparr>vm_boot_address_space := sp\<rparr> in
         if \<not> address_space_valid sp then (False, v2, ms1)
         else let (ok, ms2) = map_range_4k sp user_text_start user_text_start
                (user_text_end - user_text_start) kUserTextFlags ms1 in
           if \<not> ok then (False, v2, ms2)
           else (True, v2\<lparr>vm_initialized := True\<rparr>, ms2))"

definition map_boot_task_stack ::
    "u64 \<Rightarrow> u64 \<Rightarrow> vmm_state \<times> memst \<Rightarrow> bool \<times> vmm_state \<times> memst" where
  "map_boot_task_stack physical_base sz = (\<lambda>(v, ms).
     if \<not> vm_initialized v \<or> sz = 0 \<or> physical_base mod kPageSize \<noteq> 0 \<or> sz mod kPageSize \<noteq> 0
       then (False, v, ms)
     else if physical_base \<in> set (vm_mapped_stack_bases v) then (True, v, ms)
     else if length (vm_mapped_stack_bases v) \<ge> kMaxStackMappings then (False, v, ms)
     else let (ok, ms1) = map_range_4k (vm_boot_address_space v) physical_base physical_base sz
            kUserStackFlags ms in
       if \<not> ok then (False, v, ms1)
       else (True, v\<lparr>vm_mapped_stack_bases := vm_mapped_stack_bases v @ [physical_base]\<rparr>, ms1))"

definition is_boot_user_entry :: "u64 \<Rightarrow> vmm_state \<Rightarrow> bool" where
  "is_boot_user_entry address v \<longleftrightarrow>
     vm_initialized v \<and> address \<ge> vm_user_text_start v \<and> address < vm_user_text_end v"

end
