(* ===== verification/Page_Tables.thy ===== *)
theory Page_Tables
  imports Vmm_Manager
begin

text \<open>
  What the Sv39 operations do to the address space.  The tables form a tree of pages of their own
  (\<open>tree_ok\<close>); the walk of the hardware is a recursive function on memory.  Mapping a page changes
  the translation of the addresses of that page and of no other, and succeeds when the page was
  free and two pages are in reserve.
\<close>

section \<open>Entries in memory\<close>

definition entry :: "pmem \<Rightarrow> u64 \<Rightarrow> nat \<Rightarrow> u64" where
  "entry m t i = load64 m (pte_address t (of_nat i))"

definition table_page :: "u64 \<Rightarrow> bool" where
  "table_page t \<longleftrightarrow> 4096 dvd unat t \<and> t \<noteq> 0 \<and> unat t < 2 ^ 56"

lemma nat_bit_high: "(k :: nat) < 2 ^ n \<Longrightarrow> \<not> bit k n"
  by (simp add: bit_iff_odd)

lemma aligned_low_bits:
  assumes "4096 dvd unat (w :: u64)" and "n < 12"
  shows "\<not> bit w n"
proof -
  from assms(1) obtain k where "unat w = 2 ^ 12 * k" by (auto simp: dvd_def)
  then have "unat w = push_bit 12 k" by (simp add: push_bit_eq_mult)
  moreover have "bit w n \<longleftrightarrow> bit (unat w) n" by (simp add: bit_unsigned_iff)
  ultimately show ?thesis using assms(2) by (simp add: bit_push_bit_iff)
qed

lemma small_high_bits:
  assumes "unat (w :: u64) < 2 ^ k" and "k \<le> n"
  shows "\<not> bit w n"
proof -
  have "unat w < 2 ^ n" using assms by (meson less_le_trans one_le_numeral power_increasing)
  from nat_bit_high [OF this] show ?thesis by (simp add: bit_unsigned_iff)
qed

lemma table_page_bits:
  assumes "table_page t"
  shows "n < 12 \<Longrightarrow> \<not> bit t n" "56 \<le> n \<Longrightarrow> \<not> bit t n"
  using assms aligned_low_bits small_high_bits [of t 56 n] by (auto simp: table_page_def)

lemma table_pte:
  assumes "table_page t"
  shows "pte_is_valid (make_pte t pte_valid)" "\<not> pte_is_leaf (make_pte t pte_valid)"
    "pte_physical_address (make_pte t pte_valid) = t"
proof -
  have "bit (make_pte t pte_valid) 0" by (simp add: make_pte_def pte_valid_def bit_simps)
  then have "bit (make_pte t pte_valid AND pte_valid) 0" by (simp add: bit_simps pte_valid_def)
  then show "pte_is_valid (make_pte t pte_valid)" unfolding pte_is_valid_def by (metis bit_0_eq bot_apply bot_bool_def)
  have leaf: "bit kLeafMask n \<longleftrightarrow> n = 1 \<or> n = 2 \<or> n = 3" for n
    unfolding kLeafMask_def pte_read_def pte_write_def pte_execute_def bit_or_iff bit_push_bit_iff bit_1_iff by auto
  have "make_pte t pte_valid AND kLeafMask = 0"
    by (rule bit_word_eqI) (auto simp: make_pte_def pte_valid_def bit_simps leaf)
  then show "\<not> pte_is_leaf (make_pte t pte_valid)" by (simp add: pte_is_leaf_def)
  have mask: "bit kPpnMask n \<longleftrightarrow> n < 44" for n
  proof -
    have km: "kPpnMask = mask 44" unfolding kPpnMask_def mask_eq_exp_minus_1 by (simp add: push_bit_eq_mult)
    show ?thesis unfolding km bit_mask_iff by auto
  qed
  show "pte_physical_address (make_pte t pte_valid) = t"
  proof (rule bit_word_eqI)
    fix n assume "n < LENGTH(64)"
    have "12 \<le> n \<and> n < 56" if "bit t n" using table_page_bits [OF assms, of n] that by (meson not_le)
    then show "bit (pte_physical_address (make_pte t pte_valid)) n = bit t n"
      by (auto simp: pte_physical_address_def make_pte_def pte_valid_def bit_simps mask)
  qed
qed

lemma leaf_pte: "pte_is_valid (make_pte a (flags OR pte_valid))"
proof -
  have "bit (make_pte a (flags OR pte_valid) AND pte_valid) 0" by (simp add: make_pte_def pte_valid_def bit_simps)
  then show ?thesis unfolding pte_is_valid_def by (metis bit_0_eq bot_apply bot_bool_def)
qed

lemma unat_pte_address:
  assumes "table_page t" and "i < 512"
  shows "unat (pte_address t (of_nat i)) = unat t + 8 * i"
proof -
  have "unat (8 * of_nat i :: u64) = 8 * i" using assms(2) unat_of_nat_small [of "8 * i", where 'a = 64] by simp
  then show ?thesis
    using assms unfolding pte_address_def by (subst unat_add_no_wrap) (simp_all add: table_page_def)
qed


text \<open>Two entries are the same word of memory only if they are the same entry.\<close>

lemma pages_apart:
  assumes "4096 dvd (a :: nat)" and "4096 dvd b" and "a \<noteq> b" and "x < 4096" and "y < 4096"
  shows "a + x \<noteq> b + y"
proof
  assume "a + x = b + y"
  then have "(a + x) div 4096 = (b + y) div 4096" by simp
  then have "a div 4096 = b div 4096" using assms(1,2,4,5) by (auto simp: dvd_def)
  then show False using assms(1-3) by auto
qed

lemma pte_address_apart:
  assumes "table_page t" "table_page u" and "i < 512" "j < 512" and "t \<noteq> u \<or> i \<noteq> j" and "k < 8" "l < 8"
  shows "pte_address t (of_nat i) + of_nat k \<noteq> pte_address u (of_nat j) + of_nat l"
proof
  assume "pte_address t (of_nat i) + of_nat k = pte_address u (of_nat j) + of_nat l"
  moreover have "unat (pte_address v (of_nat n) + of_nat m) = unat v + (8 * n + m)" if "table_page v" "n < 512" "m < 8" for v n m
    using unat_plus_of_nat [of "pte_address v (of_nat n)" 8 m] unat_pte_address [OF that(1,2)] that by (simp add: table_page_def)
  ultimately have e: "unat t + (8 * i + k) = unat u + (8 * j + l)" using assms by metis
  have "unat t = unat u"
    using pages_apart [of "unat t" "unat u" "8 * i + k" "8 * j + l"] assms e by (auto simp: table_page_def)
  then show False using e assms by (auto simp: word_unat_eq_iff)
qed

lemma entry_store:
  assumes "table_page t" "table_page u" and "i < 512" "j < 512"
  shows "entry (store64 (pte_address t (of_nat i)) v m) u j = (if t = u \<and> i = j then v else entry m u j)"
proof (cases "t = u \<and> i = j")
  case True
  then show ?thesis by (simp add: entry_def load64_store64_same)
next
  case False
  have "store64 (pte_address t (of_nat i)) v m (pte_address u (of_nat j) + of_nat k) = m (pte_address u (of_nat j) + of_nat k)" if "k < 8" for k
  proof (rule store64_outside, rule ccontr)
    assume "\<not> 8 \<le> unat (pte_address u (of_nat j) + of_nat k - pte_address t (of_nat i))"
    then obtain l where "l < 8" "pte_address u (of_nat j) + of_nat k = pte_address t (of_nat i) + of_nat l"
      using addr_offset_iff [of 8 "pte_address u (of_nat j) + of_nat k" "pte_address t (of_nat i)"] by auto
    moreover have "u \<noteq> t \<or> j \<noteq> i" using False by blast
    ultimately show False using pte_address_apart [OF assms(2,1,4,3) _ that] by blast
  qed
  then show ?thesis unfolding entry_def if_not_P [OF False] by (rule load64_cong)
qed

section \<open>Allocating a table\<close>

definition physical :: "memst \<Rightarrow> bool" where
  "physical ms \<longleftrightarrow> (\<forall>r \<in> set (ms_ranges ms). unat (mr_end r) \<le> 2 ^ 56)"

definition keeps_tables :: "memst \<Rightarrow> memst \<Rightarrow> bool" where
  "keeps_tables ms ms' \<longleftrightarrow> (\<forall>t i. t \<in> allocated ms \<longrightarrow> table_page t \<longrightarrow> i < 512 \<longrightarrow> entry (ms_mem ms') t i = entry (ms_mem ms) t i)"

lemma entry_other_page:
  assumes "table_page t" and "i < 512" and "4096 dvd unat pa" and "t \<noteq> pa"
    and "\<And>a. m' a = (if unat (a - pa) < 4096 then 0 else m a)"
  shows "entry m' t i = entry m t i"
  unfolding entry_def
proof (rule load64_cong)
  fix k :: nat assume "k < 8"
  let ?a = "pte_address t (of_nat i) + of_nat k"
  have u: "unat ?a = unat t + (8 * i + k)"
    using unat_plus_of_nat [of "pte_address t (of_nat i)" 8 k] unat_pte_address [OF assms(1,2)] assms(1,2) \<open>k < 8\<close>
    by (simp add: table_page_def)
  have "\<not> unat (?a - pa) < 4096"
  proof
    assume "unat (?a - pa) < 4096"
    then obtain l where l: "l < 4096" "?a = pa + of_nat l" using addr_offset_iff [of 4096 ?a pa] by auto
    have "unat pa + 4096 \<le> 2 ^ 64" using assms(3) unat_bound [of pa] by (auto simp: dvd_def)
    from unat_plus_of_nat [OF this l(1)] l(2) u have "unat t + (8 * i + k) = unat pa + l" by simp
    with pages_apart [of "unat t" "unat pa" "8 * i + k" l] assms l(1) \<open>k < 8\<close> show False
      by (auto simp: table_page_def word_unat_eq_iff)
  qed
  then show "m' ?a = m ?a" by (simp add: assms(5))
qed

lemma entry_cleared:
  assumes "table_page t" and "i < 512" and "\<And>a. m' a = (if unat (a - t) < 4096 then 0 else m a)"
  shows "entry m' t i = 0"
  unfolding entry_def
proof (rule load64_eqI)
  fix k :: nat assume "k < 8"
  have "unat (pte_address t (of_nat i) + of_nat k - t) = 8 * i + k"
    using assms(2) \<open>k < 8\<close> unat_of_nat_small [of "8 * i + k", where 'a = 64] by (simp add: pte_address_def)
  then show "m' (pte_address t (of_nat i) + of_nat k) = ucast (drop_bit (8 * k) 0)"
    using assms(2) \<open>k < 8\<close> by (simp add: assms(3))
qed

lemma allocate_page_table:
  assumes inv: "pm_inv ms" "physical ms" and al: "allocate_page ms = (al, ms')"
  shows "pm_inv ms'" "physical ms'" "allocated ms \<subseteq> allocated ms'" "keeps_tables ms ms'" "ms_lc ms' = ms_lc ms"
    "allocation_valid al \<Longrightarrow> table_page (al_physical_address al)"
    "allocation_valid al \<Longrightarrow> al_physical_address al \<notin> allocated ms"
    "allocation_valid al \<Longrightarrow> al_physical_address al \<in> allocated ms'"
    "allocation_valid al \<Longrightarrow> i < 512 \<Longrightarrow> entry (ms_mem ms') (al_physical_address al) i = 0"
proof -
  have "(al_backing al = BK_unavailable \<and> ms' = ms) \<or> (\<exists>b. allocate_from b ms = (al, ms') \<and> al_backing al \<noteq> BK_unavailable)"
  proof (cases "al_backing al = BK_unavailable")
    case True
    then have "ms' = ms" using al by (auto simp: allocate_page_def allocate_from_def no_allocation_def split: if_splits option.splits)
    with True show ?thesis by blast
  next
    case False
    from allocate_page_cases [OF al False] False show ?thesis by metis
  qed
  then have *: "pm_inv ms' \<and> physical ms' \<and> allocated ms \<subseteq> allocated ms' \<and> keeps_tables ms ms' \<and> ms_lc ms' = ms_lc ms \<and>
    (allocation_valid al \<longrightarrow> table_page (al_physical_address al) \<and> al_physical_address al \<notin> allocated ms \<and>
      al_physical_address al \<in> allocated ms' \<and> (\<forall>i < 512. entry (ms_mem ms') (al_physical_address al) i = 0))"
  proof (elim disjE exE conjE)
    assume "al_backing al = BK_unavailable" "ms' = ms"
    then show ?thesis using inv by (simp add: keeps_tables_def allocation_valid_def)
  next
    fix b assume a: "allocate_from b ms = (al, ms')" and ok: "al_backing al \<noteq> BK_unavailable"
    note f = allocate_from_fresh [OF inv(1) a ok]
    obtain pre r post where d: "ms_ranges ms = pre @ r # post" "range_ok r" "mr_next r < mr_end r" "mr_backing r = b"
      "al = \<lparr>al_physical_address = mr_next r, al_backing = b\<rparr>"
      "ms' = ms\<lparr>ms_ranges := pre @ r\<lparr>mr_next := mr_next r + kPageSize\<rparr> # post, ms_mem := zero_page (mr_next r) (ms_mem ms)\<rparr>"
      by (rule allocate_from_Some [OF inv(1) a ok])
    have "physical ms'" using inv(2) d(1,6) by (simp add: physical_def)
    moreover have "keeps_tables ms ms'"
      unfolding keeps_tables_def
    proof (intro allI impI)
      fix t i assume t: "t \<in> allocated ms" "table_page t" "i < (512 :: nat)"
      then have "t \<noteq> al_physical_address al" using f(2) by blast
      from entry_other_page [OF t(2,3) f(4) this f(5)] show "entry (ms_mem ms') t i = entry (ms_mem ms) t i" .
    qed
    moreover have "table_page (al_physical_address al)" if "allocation_valid al"
      using that d inv(2) f(4) by (auto simp: table_page_def allocation_valid_def physical_def word_less_nat_alt)
    moreover from this have "\<forall>i < 512. entry (ms_mem ms') (al_physical_address al) i = 0" if "allocation_valid al"
      using that entry_cleared f(5) by blast
    ultimately show ?thesis using f by auto
  qed
  then show "pm_inv ms'" "physical ms'" "allocated ms \<subseteq> allocated ms'" "keeps_tables ms ms'" "ms_lc ms' = ms_lc ms"
    "allocation_valid al \<Longrightarrow> table_page (al_physical_address al)"
    "allocation_valid al \<Longrightarrow> al_physical_address al \<notin> allocated ms"
    "allocation_valid al \<Longrightarrow> al_physical_address al \<in> allocated ms'"
    "allocation_valid al \<Longrightarrow> i < 512 \<Longrightarrow> entry (ms_mem ms') (al_physical_address al) i = 0"
    by blast+
qed

section \<open>The tree of tables\<close>

text \<open>
  The tables of an address space, by the indices on the way to them: the root, the tables of level
  one and of level zero.  Each is a page of its own, and an entry that points to a table points to
  the table of its path.
\<close>

type_synonym tables = "nat list \<Rightarrow> u64 option"

definition tree_ok :: "u64 \<Rightarrow> tables \<Rightarrow> memst \<Rightarrow> bool" where
  "tree_ok root tab ms \<longleftrightarrow> pm_inv ms \<and> physical ms \<and> tab [] = Some root \<and> inj_on tab (dom tab) \<and>
     (\<forall>p t. tab p = Some t \<longrightarrow> length p \<le> 2 \<and> table_page t \<and> t \<in> allocated ms) \<and>
     (\<forall>p i. tab (p @ [i]) \<noteq> None \<longrightarrow> tab p \<noteq> None) \<and>
     (\<forall>p t i u. tab p = Some t \<longrightarrow> length p < 2 \<longrightarrow> i < 512 \<longrightarrow> tab (p @ [i]) = Some u \<longrightarrow>
        entry (ms_mem ms) t i = make_pte u pte_valid) \<and>
     (\<forall>p t i. tab p = Some t \<longrightarrow> length p < 2 \<longrightarrow> i < 512 \<longrightarrow> tab (p @ [i]) = None \<longrightarrow>
        \<not> pte_is_valid (entry (ms_mem ms) t i))"

lemma tree_okD:
  assumes "tree_ok root tab ms"
  shows "pm_inv ms" "physical ms" "tab [] = Some root" "inj_on tab (dom tab)"
    "tab p = Some t \<Longrightarrow> length p \<le> 2" "tab p = Some t \<Longrightarrow> table_page t" "tab p = Some t \<Longrightarrow> t \<in> allocated ms"
    "tab p = Some t \<Longrightarrow> length p < 2 \<Longrightarrow> i < 512 \<Longrightarrow> tab (p @ [i]) = Some u \<Longrightarrow> entry (ms_mem ms) t i = make_pte u pte_valid"
    "tab p = Some t \<Longrightarrow> length p < 2 \<Longrightarrow> i < 512 \<Longrightarrow> tab (p @ [i]) = None \<Longrightarrow> \<not> pte_is_valid (entry (ms_mem ms) t i)"
    "tab p = None \<Longrightarrow> tab (p @ [i]) = None"
  using assms unfolding tree_ok_def by blast+

lemma tables_distinct: "tree_ok root tab ms \<Longrightarrow> tab p = Some t \<Longrightarrow> tab q = Some t \<Longrightarrow> p = q"
  using tree_okD(4) [of root tab ms] by (metis domI inj_onD)

lemma tree_okI:
  assumes "pm_inv ms" "physical ms" "tab [] = Some root" "\<And>p q t. tab p = Some t \<Longrightarrow> tab q = Some t \<Longrightarrow> p = q"
    "\<And>p t. tab p = Some t \<Longrightarrow> length p \<le> 2 \<and> table_page t \<and> t \<in> allocated ms"
    "\<And>p t i u. tab p = Some t \<Longrightarrow> length p < 2 \<Longrightarrow> i < 512 \<Longrightarrow> tab (p @ [i]) = Some u \<Longrightarrow> entry (ms_mem ms) t i = make_pte u pte_valid"
    "\<And>p t i. tab p = Some t \<Longrightarrow> length p < 2 \<Longrightarrow> i < 512 \<Longrightarrow> tab (p @ [i]) = None \<Longrightarrow> \<not> pte_is_valid (entry (ms_mem ms) t i)"
    "\<And>p i. tab p = None \<Longrightarrow> tab (p @ [i]) = None"
  shows "tree_ok root tab ms"
proof -
  have "inj_on tab (dom tab)" using assms(4) by (auto intro!: inj_onI)
  moreover have "tab p \<noteq> None" if "tab (p @ [i]) \<noteq> None" for p i using assms(8) [of p i] that by blast
  ultimately show ?thesis unfolding tree_ok_def using assms(1-7) by simp
qed

lemma tree_frame:
  assumes "tree_ok root tab ms" and "pm_inv ms'" "physical ms'" "allocated ms \<subseteq> allocated ms'" "keeps_tables ms ms'"
  shows "tree_ok root tab ms'"
proof (rule tree_okI)
  note T = tree_okD [OF assms(1)]
  have e: "entry (ms_mem ms') t i = entry (ms_mem ms) t i" if "tab p = Some t" "i < 512" for p t i
    using assms(5) T(6,7) that unfolding keeps_tables_def by blast
  show "p = q" if "tab p = Some t" "tab q = Some t" for p q t by (rule tables_distinct [OF assms(1) that])
  show "length p \<le> 2 \<and> table_page t \<and> t \<in> allocated ms'" if "tab p = Some t" for p t
    using T(5,6,7) [OF that] assms(4) by blast
  show "entry (ms_mem ms') t i = make_pte u pte_valid"
    if "tab p = Some t" "length p < 2" "i < 512" "tab (p @ [i]) = Some u" for p t i u
    using T(8) that e by metis
  show "\<not> pte_is_valid (entry (ms_mem ms') t i)"
    if "tab p = Some t" "length p < 2" "i < 512" "tab (p @ [i]) = None" for p t i
    using T(9) that e by metis
qed (use assms tree_okD(3,10) in \<open>blast+\<close>)

text \<open>A new table below an entry that pointed to none.\<close>

lemma tree_grow:
  assumes T: "tree_ok root tab ms" and p: "tab p = Some t" "length p < 2" "i < 512" "tab (p @ [i]) = None"
    and n: "table_page n" "n \<in> allocated ms" "\<And>q. tab q \<noteq> Some n" "\<forall>j < 512. entry (ms_mem ms) n j = 0"
  defines "ms' \<equiv> ms\<lparr>ms_mem := store64 (pte_address t (of_nat i)) (make_pte n pte_valid) (ms_mem ms)\<rparr>"
  shows "tree_ok root (tab(p @ [i] \<mapsto> n)) ms'"
    "\<And>q u j. tab q = Some u \<Longrightarrow> j < 512 \<Longrightarrow> q \<noteq> p \<or> j \<noteq> i \<Longrightarrow> entry (ms_mem ms') u j = entry (ms_mem ms) u j"
    "\<And>j. j < 512 \<Longrightarrow> entry (ms_mem ms') n j = 0"
proof -
  note D = tree_okD [OF T] and t = tree_okD(6) [OF T p(1)]
  have e: "entry (ms_mem ms') u j = (if t = u \<and> i = j then make_pte n pte_valid else entry (ms_mem ms) u j)"
    if "table_page u" "j < 512" for u j
    unfolding ms'_def using entry_store [OF t that(1) p(3) that(2)] by simp
  have tn: "t \<noteq> n" using n(3) p(1) by blast
  have al: "allocated ms' = allocated ms" "pm_inv ms' = pm_inv ms" "physical ms' = physical ms"
    by (simp_all add: ms'_def allocated_def pm_inv_def physical_def)
  show new: "entry (ms_mem ms') n j = 0" if "j < 512" for j using e [OF n(1) that] n(4) that tn by simp
  show old: "entry (ms_mem ms') u j = entry (ms_mem ms) u j" if "tab q = Some u" "j < 512" "q \<noteq> p \<or> j \<noteq> i" for q u j
    using e [OF D(6) [OF that(1)] that(2)] tables_distinct [OF T p(1), of q] that by auto
  have z: "\<not> pte_is_valid 0" by (simp add: pte_is_valid_def)
  show "tree_ok root (tab(p @ [i] \<mapsto> n)) ms'"
  proof (rule tree_okI)
    show "pm_inv ms'" "physical ms'" using D(1,2) al by simp_all
    show "(tab(p @ [i] \<mapsto> n)) [] = Some root" using D(3) by simp
    show "q = q'" if "(tab(p @ [i] \<mapsto> n)) q = Some u" "(tab(p @ [i] \<mapsto> n)) q' = Some u" for q q' u
      using that n(3) tables_distinct [OF T, of q u q'] by (auto split: if_splits)
    show "length q \<le> 2 \<and> table_page u \<and> u \<in> allocated ms'" if "(tab(p @ [i] \<mapsto> n)) q = Some u" for q u
      using that D(5-7) [of q u] n(1,2) p(2) al by (auto split: if_splits)
    show "(tab(p @ [i] \<mapsto> n)) (q @ [j]) = None" if "(tab(p @ [i] \<mapsto> n)) q = None" for q j
      using that D(10) [of q j] p(1) by (auto split: if_splits)
    show "entry (ms_mem ms') u j = make_pte v pte_valid"
      if h: "(tab(p @ [i] \<mapsto> n)) q = Some u" "length q < 2" "j < 512" "(tab(p @ [i] \<mapsto> n)) (q @ [j]) = Some v" for q u j v
    proof (cases "q = p @ [i]")
      case True
      then have "tab (q @ [j]) = None" using D(10) [OF p(4)] by simp
      then show ?thesis using h(4) True by simp
    next
      case False
      then have q: "tab q = Some u" using h(1) by simp
      show ?thesis
      proof (cases "q = p \<and> j = i")
        case True
        then show ?thesis using h(4) q p(1) e [OF t p(3)] by simp
      next
        case False
        then have "tab (q @ [j]) = Some v" using h(4) by auto
        with old [OF q h(3)] D(8) [OF q h(2,3)] False show ?thesis by auto
      qed
    qed
    show "\<not> pte_is_valid (entry (ms_mem ms') u j)"
      if h: "(tab(p @ [i] \<mapsto> n)) q = Some u" "length q < 2" "j < 512" "(tab(p @ [i] \<mapsto> n)) (q @ [j]) = None" for q u j
    proof (cases "q = p @ [i]")
      case True
      then have "u = n" using h(1) by simp
      then show ?thesis using new [OF h(3)] z by simp
    next
      case False
      then have q: "tab q = Some u" "q \<noteq> p \<or> j \<noteq> i" "tab (q @ [j]) = None" using h(1,4) by (auto split: if_splits)
      show ?thesis using old [OF q(1) h(3) q(2)] D(9) [OF q(1) h(2,3) q(3)] by simp
    qed
  qed
qed

section \<open>The walk of the hardware\<close>

text \<open>
  The translation of a virtual address, permissions aside: the entry and the level at which the walk
  from a table ends, \<open>None\<close> for a page fault.
\<close>

fun sv39_walk :: "pmem \<Rightarrow> u64 \<Rightarrow> u64 \<Rightarrow> nat \<Rightarrow> (nat \<times> u64) option" where
  "sv39_walk m t va 0 =
     (let e = load64 m (pte_address t (vpn_index va 0)) in if pte_is_valid e \<and> pte_is_leaf e then Some (0, e) else None)"
| "sv39_walk m t va (Suc l) =
     (let e = load64 m (pte_address t (vpn_index va (Suc l))) in
      if \<not> pte_is_valid e then None else if pte_is_leaf e then Some (Suc l, e) else sv39_walk m (pte_physical_address e) va l)"

definition translation :: "address_space \<Rightarrow> memst \<Rightarrow> u64 \<Rightarrow> (nat \<times> u64) option" where
  "translation sp ms va = sv39_walk (ms_mem ms) (root_physical_address sp) va 2"

text \<open>The three indices of an address.\<close>

definition ix :: "u64 \<Rightarrow> nat \<Rightarrow> nat" where
  "ix va l = unat (vpn_index va l)"

lemma ix_bound: "ix va l < 512"
proof -
  have "vpn_index va l \<le> 0x1ff" unfolding vpn_index_def by (rule word_and_le1)
  then show ?thesis by (simp add: ix_def word_le_nat_alt)
qed

lemma entry_ix: "load64 m (pte_address t (vpn_index va l)) = entry m t (ix va l)"
  by (simp add: entry_def ix_def)

definition same_page :: "u64 \<Rightarrow> u64 \<Rightarrow> bool" where
  "same_page va va' \<longleftrightarrow> vpn_index va 2 = vpn_index va' 2 \<and> vpn_index va 1 = vpn_index va' 1 \<and> vpn_index va 0 = vpn_index va' 0"

lemma same_page_ix: "same_page va va' \<longleftrightarrow> ix va 2 = ix va' 2 \<and> ix va 1 = ix va' 1 \<and> ix va 0 = ix va' 0"
  by (simp add: same_page_def ix_def word_unat_eq_iff)

text \<open>The valid entry of an address in a table of level zero.\<close>

definition leaf_entry :: "tables \<Rightarrow> pmem \<Rightarrow> u64 \<Rightarrow> u64 option" where
  "leaf_entry tab m va = (case tab [ix va 2, ix va 1] of None \<Rightarrow> None
     | Some t \<Rightarrow> let e = entry m t (ix va 0) in if pte_is_valid e then Some e else None)"

lemma walk_leaf_entry:
  assumes T: "tree_ok (root_physical_address sp) tab ms"
  shows "translation sp ms va = (case leaf_entry tab (ms_mem ms) va of None \<Rightarrow> None | Some e \<Rightarrow> if pte_is_leaf e then Some (0, e) else None)"
proof -
  note D = tree_okD [OF T]
  let ?m = "ms_mem ms" and ?r = "root_physical_address sp"
  have two: "(2 :: nat) = Suc (Suc 0)" by simp
  show ?thesis
  proof (cases "tab [ix va 2]")
    case None
    then have "\<not> pte_is_valid (entry ?m ?r (ix va 2))" using D(9) [OF D(3) _ ix_bound] by simp
    moreover have "tab [ix va 2, ix va 1] = None" using D(10) [OF None, of "ix va 1"] by simp
    ultimately show ?thesis by (simp add: translation_def leaf_entry_def two entry_ix Let_def del: One_nat_def)
  next
    case (Some t1)
    have e2: "entry ?m ?r (ix va 2) = make_pte t1 pte_valid" using D(8) [OF D(3) _ ix_bound, where u = t1] Some by simp
    note t1 = table_pte [OF D(6) [OF Some]]
    have w: "translation sp ms va = sv39_walk ?m t1 va 1"
      using t1 e2 by (simp add: translation_def numeral_2_eq_2 entry_ix Let_def)
    show ?thesis
    proof (cases "tab [ix va 2, ix va 1]")
      case None
      then have "\<not> pte_is_valid (entry ?m t1 (ix va 1))" using D(9) [OF Some _ ix_bound] by simp
      then show ?thesis using None by (simp add: w leaf_entry_def entry_ix Let_def)
    next
      case t0: (Some t0)
      have "entry ?m t1 (ix va 1) = make_pte t0 pte_valid" using D(8) [OF Some _ ix_bound, where u = t0] t0 by simp
      then have "translation sp ms va = sv39_walk ?m t0 va 0"
        using table_pte [OF D(6) [OF t0]] by (simp add: w entry_ix Let_def)
      then show ?thesis using t0 by (simp add: leaf_entry_def entry_ix Let_def)
    qed
  qed
qed

section \<open>Reaching a table\<close>

text \<open>The next \<open>n\<close> page allocations succeed.\<close>

fun can_allocate :: "nat \<Rightarrow> memst \<Rightarrow> bool" where
  "can_allocate 0 ms = True"
| "can_allocate (Suc n) ms = (case allocate_page ms of (al, ms') \<Rightarrow> allocation_valid al \<and> can_allocate n ms')"

lemma can_allocate_less: "can_allocate (Suc n) ms \<Longrightarrow> can_allocate n ms"
proof (induction n arbitrary: ms)
  case (Suc n)
  obtain al ms' where al: "allocate_page ms = (al, ms')" by fastforce
  then have "allocation_valid al" "can_allocate (Suc n) ms'"
    using Suc.prems can_allocate.simps(2) [of "Suc n" ms] by (simp_all del: can_allocate.simps)
  with Suc.IH [of ms'] al show ?case by simp
qed simp

lemma allocate_page_mem: "allocate_page (ms\<lparr>ms_mem := m\<rparr>) =
    (fst (allocate_page ms), (snd (allocate_page ms))\<lparr>ms_mem := ms_mem (snd (allocate_page (ms\<lparr>ms_mem := m\<rparr>)))\<rparr>)"
  by (simp add: allocate_page_def allocate_from_def split: option.split)

lemma can_allocate_mem [simp]: "can_allocate n (ms\<lparr>ms_mem := m\<rparr>) = can_allocate n ms"
proof (induction n arbitrary: ms m)
  case (Suc n)
  show ?case unfolding can_allocate.simps by (subst allocate_page_mem) (simp only: prod.case_eq_if fst_conv snd_conv Suc.IH)
qed simp

lemma ensure_child:
  assumes T: "tree_ok root tab ms" and p: "tab p = Some t" "length p < 2" "i < 512"
    and e: "ensure_child_table (pte_address t (of_nat i)) ms = (a, ms')"
  shows "\<exists>tab'. tree_ok root tab' ms' \<and> leaf_entry tab' (ms_mem ms') = leaf_entry tab (ms_mem ms) \<and> (\<forall>q. tab q \<noteq> None \<longrightarrow> tab' q = tab q) \<and>
    (a \<noteq> 0 \<longrightarrow> tab' (p @ [i]) = Some a) \<and> (can_allocate (Suc n) ms \<longrightarrow> a \<noteq> 0 \<and> can_allocate n ms')"
proof (cases "tab (p @ [i])")
  case (Some u)
  note D = tree_okD [OF T] and u = table_pte [OF tree_okD(6) [OF T Some]]
  have "load64 (ms_mem ms) (pte_address t (of_nat i)) = make_pte u pte_valid" using D(8) [OF p Some] by (simp add: entry_def)
  then have "a = u" "ms' = ms" using e u by (simp_all add: ensure_child_table_def Let_def)
  moreover have "u \<noteq> 0" using D(6) [OF Some] by (simp add: table_page_def)
  ultimately show ?thesis using T Some can_allocate_less [of n ms] by (intro exI [of _ tab]) simp
next
  case None
  note D = tree_okD [OF T]
  obtain al ms1 where al: "allocate_page ms = (al, ms1)" by fastforce
  note A = allocate_page_table [OF D(1,2) al]
  have T1: "tree_ok root tab ms1" by (rule tree_frame [OF T A(1-4)])
  have keep: "entry (ms_mem ms1) u j = entry (ms_mem ms) u j" if "tab q = Some u" "j < 512" for q u j
    using A(4) D(6,7) [OF that(1)] that(2) by (simp add: keeps_tables_def)
  have inv: "\<not> pte_is_valid (load64 (ms_mem ms) (pte_address t (of_nat i)))" using D(9) [OF p None] by (simp add: entry_def)
  show ?thesis
  proof (cases "allocation_valid al")
    case False
    then have "a = 0" "ms' = ms1" using e inv al by (simp_all add: ensure_child_table_def Let_def)
    moreover have "leaf_entry tab (ms_mem ms1) = leaf_entry tab (ms_mem ms)"
      by (rule ext) (auto simp: leaf_entry_def keep ix_bound Let_def split: option.split)
    ultimately show ?thesis using T1 al False by (intro exI [of _ tab]) simp
  next
    case True
    let ?n = "al_physical_address al"
    have a: "a = ?n" "ms' = ms1\<lparr>ms_mem := store64 (pte_address t (of_nat i)) (make_pte ?n pte_valid) (ms_mem ms1)\<rparr>"
      using e inv al True by (auto simp: ensure_child_table_def Let_def)
    have fresh: "tab q \<noteq> Some ?n" for q using A(7) [OF True] D(7) by blast
    have zero: "\<forall>j < 512. entry (ms_mem ms1) ?n j = 0" using A(9) [OF True] by blast
    note g = tree_grow [OF T1 p None A(6) [OF True] A(8) [OF True] fresh zero]
    have g2: "entry (ms_mem ms') u j = entry (ms_mem ms) u j" if "tab q = Some u" "j < 512" "length q = 2" for q u j
    proof -
      have "q \<noteq> p \<or> j \<noteq> i" using that(3) p(2) by auto
      from g(2) [OF that(1,2) this] keep [OF that(1,2)] show ?thesis unfolding a(2) by simp
    qed
    have g3: "\<not> pte_is_valid (entry (ms_mem ms') ?n j)" if "j < 512" for j
      using g(3) [OF that] unfolding a(2) by (simp add: pte_is_valid_def)
    let ?tab = "tab(p @ [i] \<mapsto> ?n)"
    have "leaf_entry ?tab (ms_mem ms') va = leaf_entry tab (ms_mem ms) va" for va
      using None g2 [OF _ ix_bound] g3 [OF ix_bound] unfolding leaf_entry_def
      by (cases "[ix va 2, ix va 1] = p @ [i]"; cases "tab [ix va 2, ix va 1]") (auto simp: Let_def)
    moreover have "?n \<noteq> 0" using True by (simp add: allocation_valid_def)
    moreover have "can_allocate (Suc n) ms \<longrightarrow> can_allocate n ms'" using al unfolding a(2) by simp
    ultimately show ?thesis using g(1) None unfolding a by (intro exI [of _ ?tab]) (auto simp: fun_eq_iff)
  qed
qed

section \<open>Mapping a page\<close>

definition page_tables :: "address_space \<Rightarrow> memst \<Rightarrow> bool" where
  "page_tables sp ms \<longleftrightarrow> (\<exists>tab. tree_ok (root_physical_address sp) tab ms)"

text \<open>Setting an entry of a table of level zero.\<close>

lemma tree_set_leaf:
  assumes T: "tree_ok root tab ms" and t: "tab [ix va 2, ix va 1] = Some t" and v: "pte_is_valid w"
  defines "ms' \<equiv> ms\<lparr>ms_mem := store64 (pte_address t (of_nat (ix va 0))) w (ms_mem ms)\<rparr>"
  shows "tree_ok root tab ms'" "leaf_entry tab (ms_mem ms') va' = (if same_page va' va then Some w else leaf_entry tab (ms_mem ms) va')"
proof -
  note D = tree_okD [OF T]
  have e: "entry (ms_mem ms') u j = (if t = u \<and> ix va 0 = j then w else entry (ms_mem ms) u j)" if "tab q = Some u" "j < 512" for q u j
    unfolding ms'_def using entry_store [OF D(6) [OF t] D(6) [OF that(1)] ix_bound that(2)] by simp
  have dist: "q = [ix va 2, ix va 1]" if "tab q = Some t" for q by (rule tables_distinct [OF T that t])
  have al: "allocated ms' = allocated ms" "pm_inv ms' = pm_inv ms" "physical ms' = physical ms"
    by (simp_all add: ms'_def allocated_def pm_inv_def physical_def)
  have short: "entry (ms_mem ms') u j = entry (ms_mem ms) u j" if "tab q = Some u" "length q < 2" "j < 512" for q u j
    using e [OF that(1,3)] dist [of q] that(1,2) by auto
  show "tree_ok root tab ms'"
  proof (rule tree_okI)
    show "entry (ms_mem ms') u j = make_pte v pte_valid" if "tab q = Some u" "length q < 2" "j < 512" "tab (q @ [j]) = Some v" for q u j v
      using short [OF that(1-3)] D(8) [OF that] by simp
    show "\<not> pte_is_valid (entry (ms_mem ms') u j)" if "tab q = Some u" "length q < 2" "j < 512" "tab (q @ [j]) = None" for q u j
      using short [OF that(1-3)] D(9) [OF that] by simp
    show "q = q'" if "tab q = Some u" "tab q' = Some u" for q q' u by (rule tables_distinct [OF T that])
    show "length q \<le> 2 \<and> table_page u \<and> u \<in> allocated ms'" if "tab q = Some u" for q u using D(5-7) [OF that] al by simp
  qed (use D al in simp_all)
  show "leaf_entry tab (ms_mem ms') va' = (if same_page va' va then Some w else leaf_entry tab (ms_mem ms) va')"
    using t v dist [of "[ix va' 2, ix va' 1]"] e [OF _ ix_bound]
    by (cases "tab [ix va' 2, ix va' 1]") (auto simp: leaf_entry_def same_page_ix Let_def)
qed

definition map_arguments_ok :: "address_space \<Rightarrow> u64 \<Rightarrow> u64 \<Rightarrow> u64 \<Rightarrow> bool" where
  "map_arguments_ok sp va pa flags \<longleftrightarrow> address_space_valid sp \<and> is_page_aligned va \<and> is_page_aligned pa \<and>
     \<not> (flags AND pte_write \<noteq> 0 \<and> flags AND pte_read = 0)"

lemma map_page_walk:
  assumes "map_arguments_ok sp va pa flags"
  shows "map_page_4k sp va pa flags ms =
    (let (level1_address, ms1) = ensure_child_table (pte_address (root_physical_address sp) (vpn_index va 2)) ms in
     if level1_address = 0 then (False, ms1)
     else let (level0_address, ms2) = ensure_child_table (pte_address level1_address (vpn_index va 1)) ms1 in
     if level0_address = 0 then (False, ms2)
     else let leaf = pte_address level0_address (vpn_index va 0) in
     if pte_is_valid (load64 (ms_mem ms2) leaf) then (False, ms2)
     else (True, ms2\<lparr>ms_mem := store64 leaf (make_pte pa (flags OR pte_valid)) (ms_mem ms2)\<rparr>))"
proof -
  have "\<not> (\<not> address_space_valid sp \<or> \<not> is_page_aligned va \<or> \<not> is_page_aligned pa)"
    "\<not> (flags AND pte_write \<noteq> 0 \<and> flags AND pte_read = 0)"
    using assms by (auto simp: map_arguments_ok_def)
  then show ?thesis unfolding map_page_4k_def by (simp only: if_False)
qed

lemma map_page_tree:
  assumes T: "tree_ok (root_physical_address sp) tab ms" and m: "map_page_4k sp va pa flags ms = (ok, ms')"
  shows "\<exists>tab'. tree_ok (root_physical_address sp) tab' ms' \<and>
    (\<forall>va'. leaf_entry tab' (ms_mem ms') va' =
       (if ok \<and> same_page va' va then Some (make_pte pa (flags OR pte_valid)) else leaf_entry tab (ms_mem ms) va')) \<and>
    (ok \<longrightarrow> map_arguments_ok sp va pa flags \<and> leaf_entry tab (ms_mem ms) va = None) \<and>
    (can_allocate (Suc (Suc n)) ms \<longrightarrow> can_allocate n ms' \<and>
       (map_arguments_ok sp va pa flags \<and> leaf_entry tab (ms_mem ms) va = None \<longrightarrow> ok))"
proof (cases "map_arguments_ok sp va pa flags")
  case False
  then have "ok = False" "ms' = ms" using m by (auto simp: map_page_4k_def map_arguments_ok_def split: if_splits)
  then show ?thesis using T False can_allocate_less [of n ms] can_allocate_less [of "Suc n" ms]
    by (intro exI [of _ tab]) (simp del: can_allocate.simps)
next
  case args: True
  let ?r = "root_physical_address sp"
  note D = tree_okD [OF T]
  have v: "vpn_index va l = of_nat (ix va l)" for l by (simp add: ix_def)
  obtain a1 ms1 where e1: "ensure_child_table (pte_address ?r (vpn_index va 2)) ms = (a1, ms1)" by fastforce
  obtain tab1 where t1: "tree_ok ?r tab1 ms1" "leaf_entry tab1 (ms_mem ms1) = leaf_entry tab (ms_mem ms)"
    "a1 \<noteq> 0 \<longrightarrow> tab1 ([] @ [ix va 2]) = Some a1" "can_allocate (Suc (Suc n)) ms \<longrightarrow> a1 \<noteq> 0 \<and> can_allocate (Suc n) ms1"
    using ensure_child [OF T D(3) _ ix_bound e1 [unfolded v], of "Suc n"] by (auto simp del: can_allocate.simps)
  show ?thesis
  proof (cases "a1 = 0")
    case True
    then have "ok = False" "ms' = ms1" using m e1 by (simp_all add: map_page_walk [OF args])
    then show ?thesis using t1 True by (intro exI [of _ tab1]) (simp del: can_allocate.simps)
  next
    case a1: False
    then have p1: "tab1 [ix va 2] = Some a1" using t1(3) by simp
    obtain a0 ms2 where e2: "ensure_child_table (pte_address a1 (vpn_index va 1)) ms1 = (a0, ms2)" by fastforce
    obtain tab2 where t2: "tree_ok ?r tab2 ms2" "leaf_entry tab2 (ms_mem ms2) = leaf_entry tab1 (ms_mem ms1)"
      "a0 \<noteq> 0 \<longrightarrow> tab2 ([ix va 2] @ [ix va 1]) = Some a0" "can_allocate (Suc n) ms1 \<longrightarrow> a0 \<noteq> 0 \<and> can_allocate n ms2"
      using ensure_child [OF t1(1) p1 _ ix_bound e2 [unfolded v], of n] by (auto simp del: can_allocate.simps)
    note le = t2(2) [unfolded t1(2)]
    show ?thesis
    proof (cases "a0 = 0")
      case True
      then have "ok = False" "ms' = ms2" using m e1 e2 a1 by (simp_all add: map_page_walk [OF args])
      then show ?thesis using t1(4) t2(1,4) le True by (intro exI [of _ tab2]) (simp del: can_allocate.simps)
    next
      case a0: False
      then have p2: "tab2 [ix va 2, ix va 1] = Some a0" using t2(3) by simp
      let ?w = "make_pte pa (flags OR pte_valid)" and ?e = "entry (ms_mem ms2) a0 (ix va 0)"
      have r: "map_page_4k sp va pa flags ms = (if pte_is_valid ?e then (False, ms2)
          else (True, ms2\<lparr>ms_mem := store64 (pte_address a0 (of_nat (ix va 0))) ?w (ms_mem ms2)\<rparr>))"
        using e1 e2 a1 a0 by (simp add: map_page_walk [OF args] Let_def entry_ix flip: v)
      show ?thesis
      proof (cases "pte_is_valid ?e")
        case True
        then have "ok = False" "ms' = ms2" using m r by simp_all
        moreover have "leaf_entry tab (ms_mem ms) va \<noteq> None" using True p2 by (simp add: le [symmetric] leaf_entry_def Let_def)
        ultimately show ?thesis using t1(4) t2(1,4) le by (intro exI [of _ tab2]) (simp del: can_allocate.simps)
      next
        case False
        then have "ok" and s': "ms' = ms2\<lparr>ms_mem := store64 (pte_address a0 (of_nat (ix va 0))) ?w (ms_mem ms2)\<rparr>"
          using m r by simp_all
        moreover have "leaf_entry tab (ms_mem ms) va = None" using False p2 by (simp add: le [symmetric] leaf_entry_def Let_def)
        ultimately show ?thesis
          using tree_set_leaf [OF t2(1) p2 leaf_pte, of pa flags] t1(4) t2(4) args unfolding s' le
          by (intro exI [of _ tab2]) (simp del: can_allocate.simps)
      qed
    qed
  qed
qed

section \<open>Pages in reserve\<close>

definition active_kind :: "lifecycle_state \<Rightarrow> backing_kind" where
  "active_kind lc = (if ls_ddr_allocation_enabled lc then BK_ddr else if ls_domain lc = MD_contained then BK_contained else BK_unavailable)"

lemma allocate_page_active: "allocate_page ms = (if active_kind (ms_lc ms) = BK_unavailable then (no_allocation, ms) else allocate_from (active_kind (ms_lc ms)) ms)"
  by (simp add: allocate_page_def active_kind_def)

lemma can_allocate_remaining:
  assumes "pm_inv ms" and "\<forall>r \<in> set (ms_ranges ms). mr_base r \<noteq> 0" and "active_kind (ms_lc ms) \<noteq> BK_unavailable"
    and "n \<le> unat (remaining_pages (active_kind (ms_lc ms)) ms)"
  shows "can_allocate n ms"
  using assms
proof (induction n arbitrary: ms)
  case (Suc n)
  let ?k = "active_kind (ms_lc ms)"
  obtain al ms' where al: "allocate_from ?k ms = (al, ms')" by fastforce
  note c = allocate_from_count [OF Suc.prems(1) al Suc.prems(3)]
  have ok: "al_backing al \<noteq> BK_unavailable" using c Suc.prems(4) by auto
  note f = allocate_from_fresh [OF Suc.prems(1) al ok]
  obtain pre r post where d: "ms_ranges ms = pre @ r # post" "range_ok r" "al = \<lparr>al_physical_address = mr_next r, al_backing = ?k\<rparr>"
    "ms' = ms\<lparr>ms_ranges := pre @ r\<lparr>mr_next := mr_next r + kPageSize\<rparr> # post, ms_mem := zero_page (mr_next r) (ms_mem ms)\<rparr>"
    by (rule allocate_from_Some [OF Suc.prems(1) al ok]) blast
  have "mr_next r \<noteq> 0" using d(1,2) Suc.prems(2) by (auto simp: range_ok_def unat_eq_zero)
  then have "allocation_valid al" using ok d(3) by (simp add: allocation_valid_def)
  moreover have "can_allocate n ms'"
    using f(1,6) c ok Suc.prems(2-4) d(1,4) by (intro Suc.IH) auto
  ultimately show ?case using al Suc.prems(3) by (simp add: allocate_page_active)
qed simp

section \<open>Mapping a range\<close>

abbreviation page_at :: "u64 \<Rightarrow> nat \<Rightarrow> u64" where
  "page_at base k \<equiv> base + kPageSize * of_nat k"

lemma leaf_entry_same_page: "same_page va va' \<Longrightarrow> leaf_entry tab m va = leaf_entry tab m va'"
  by (simp add: same_page_ix leaf_entry_def split: option.split)

lemma same_page_sym: "same_page va va' \<longleftrightarrow> same_page va' va"
  by (auto simp: same_page_def)

lemma same_page_trans: "same_page a b \<Longrightarrow> same_page b c \<Longrightarrow> same_page a c"
  by (simp add: same_page_def)

lemma map_range_tree:
  assumes "tree_ok (root_physical_address sp) tab ms" and "map_range_loop sp vb pb flags i n ms = (ok, ms')"
  shows "\<exists>tab'. tree_ok (root_physical_address sp) tab' ms' \<and> (ok \<longrightarrow>
    (\<forall>k < n. leaf_entry tab (ms_mem ms) (page_at vb (i + k)) = None) \<and>
    (\<forall>k < n. leaf_entry tab' (ms_mem ms') (page_at vb (i + k)) = Some (make_pte (page_at pb (i + k)) (flags OR pte_valid))) \<and>
    (\<forall>va. (\<forall>k < n. \<not> same_page va (page_at vb (i + k))) \<longrightarrow> leaf_entry tab' (ms_mem ms') va = leaf_entry tab (ms_mem ms) va))"
  using assms
proof (induction n arbitrary: i tab ms)
  case 0
  then show ?case by (intro exI [of _ tab]) simp
next
  case (Suc n)
  obtain ok1 ms1 where m: "map_page_4k sp (page_at vb i) (page_at pb i) flags ms = (ok1, ms1)" by fastforce
  let ?w = "\<lambda>k. make_pte (page_at pb k) (flags OR pte_valid)"
  obtain tab1 where t1: "tree_ok (root_physical_address sp) tab1 ms1"
    "\<forall>va'. leaf_entry tab1 (ms_mem ms1) va' = (if ok1 \<and> same_page va' (page_at vb i) then Some (?w i) else leaf_entry tab (ms_mem ms) va')"
    "ok1 \<longrightarrow> leaf_entry tab (ms_mem ms) (page_at vb i) = None"
    using map_page_tree [OF Suc.prems(1) m, of 0] by blast
  show ?case
  proof (cases ok1)
    case False
    then have "ok = False" "ms' = ms1" using Suc.prems(2) m by simp_all
    then show ?thesis using t1(1) by blast
  next
    case True
    then have "map_range_loop sp vb pb flags (Suc i) n ms1 = (ok, ms')" using Suc.prems(2) m by simp
    from Suc.IH [OF t1(1) this] obtain tab2 where t2: "tree_ok (root_physical_address sp) tab2 ms'"
      "ok \<longrightarrow> (\<forall>k < n. leaf_entry tab1 (ms_mem ms1) (page_at vb (Suc i + k)) = None)"
      "ok \<longrightarrow> (\<forall>k < n. leaf_entry tab2 (ms_mem ms') (page_at vb (Suc i + k)) = Some (?w (Suc i + k)))"
      "ok \<longrightarrow> (\<forall>va. (\<forall>k < n. \<not> same_page va (page_at vb (Suc i + k))) \<longrightarrow> leaf_entry tab2 (ms_mem ms') va = leaf_entry tab1 (ms_mem ms1) va)"
      by blast
    have refl: "same_page va va" for va by (simp add: same_page_def)
    have apart: "\<not> same_page (page_at vb (Suc i + k)) (page_at vb i)" if "ok" "k < n" for k
      using t1(2) t2(2) that True by (metis option.distinct(1))
    have before: "leaf_entry tab (ms_mem ms) (page_at vb (i + k)) = None" if "ok" "k < Suc n" for k
      using that t1(2,3) t2(2) True apart [OF that(1)] by (cases k) auto
    have after: "leaf_entry tab2 (ms_mem ms') (page_at vb (i + k)) = Some (?w (i + k))" if "ok" "k < Suc n" for k
    proof (cases k)
      case 0
      have "\<not> same_page (page_at vb i) (page_at vb (Suc i + j))" if "j < n" for j using apart [OF \<open>ok\<close> that] same_page_sym by blast
      then show ?thesis using t2(4) t1(2) True refl 0 \<open>ok\<close> by simp
    next
      case (Suc j)
      then show ?thesis using t2(3) that by simp
    qed
    have other: "leaf_entry tab2 (ms_mem ms') va = leaf_entry tab (ms_mem ms) va"
      if "ok" "\<forall>k < Suc n. \<not> same_page va (page_at vb (i + k))" for va
    proof -
      have "\<not> same_page va (page_at vb (Suc i + k))" if "k < n" for k using \<open>\<forall>k < Suc n. _ k\<close> [rule_format, of "Suc k"] that by simp
      moreover have "\<not> same_page va (page_at vb i)" using that(2) [rule_format, of 0] by simp
      ultimately show ?thesis using t2(4) t1(2) \<open>ok\<close> by simp
    qed
    show ?thesis using t2(1) before after other by blast
  qed
qed

lemma map_range_success:
  assumes "tree_ok (root_physical_address sp) tab ms" and "can_allocate (2 * n + m) ms"
    and "\<And>k. k < n \<Longrightarrow> map_arguments_ok sp (page_at vb (i + k)) (page_at pb (i + k)) flags"
    and "\<And>k. k < n \<Longrightarrow> leaf_entry tab (ms_mem ms) (page_at vb (i + k)) = None"
    and "\<And>j k. j < n \<Longrightarrow> k < n \<Longrightarrow> same_page (page_at vb (i + j)) (page_at vb (i + k)) \<Longrightarrow> j = k"
  shows "\<exists>ms'. map_range_loop sp vb pb flags i n ms = (True, ms') \<and> can_allocate m ms'"
  using assms
proof (induction n arbitrary: i tab ms)
  case 0
  then show ?case by simp
next
  case (Suc n)
  obtain ok1 ms1 where m: "map_page_4k sp (page_at vb i) (page_at pb i) flags ms = (ok1, ms1)" by fastforce
  have "can_allocate (Suc (Suc (2 * n + m))) ms" using Suc.prems(2) by (simp del: can_allocate.simps)
  moreover have "map_arguments_ok sp (page_at vb i) (page_at pb i) flags" "leaf_entry tab (ms_mem ms) (page_at vb i) = None"
    using Suc.prems(3) [of 0] Suc.prems(4) [of 0] by simp_all
  ultimately obtain tab1 where t1: "tree_ok (root_physical_address sp) tab1 ms1" "ok1" "can_allocate (2 * n + m) ms1"
    "\<forall>va'. leaf_entry tab1 (ms_mem ms1) va' = (if ok1 \<and> same_page va' (page_at vb i) then Some (make_pte (page_at pb i) (flags OR pte_valid))
       else leaf_entry tab (ms_mem ms) va')"
    using map_page_tree [OF Suc.prems(1) m, of "2 * n + m"] by blast
  have "\<exists>ms'. map_range_loop sp vb pb flags (Suc i) n ms1 = (True, ms') \<and> can_allocate m ms'"
  proof (rule Suc.IH [OF t1(1,3)])
    fix k assume k: "k < n"
    show "map_arguments_ok sp (page_at vb (Suc i + k)) (page_at pb (Suc i + k)) flags" using Suc.prems(3) [of "Suc k"] k by simp
    have "\<not> same_page (page_at vb (Suc i + k)) (page_at vb i)" using Suc.prems(5) [of "Suc k" 0] k by auto
    then show "leaf_entry tab1 (ms_mem ms1) (page_at vb (Suc i + k)) = None" using t1(4) Suc.prems(4) [of "Suc k"] k by simp
  next
    fix j k assume "j < n" "k < n" "same_page (page_at vb (Suc i + j)) (page_at vb (Suc i + k))"
    then show "j = k" using Suc.prems(5) [of "Suc j" "Suc k"] by simp
  qed
  then show ?case using m t1(2) by simp
qed

text \<open>Below 512 GiB the three indices determine the page.\<close>

lemma bit_vpn_index:
  assumes "j < 9"
  shows "bit (vpn_index va l) j \<longleftrightarrow> bit va (12 + 9 * l + j)"
proof -
  have "(0x1ff :: u64) = mask 9" by (simp add: mask_eq_exp_minus_1)
  then show ?thesis using assms unfolding vpn_index_def by (simp only: bit_and_iff bit_drop_bit_eq bit_mask_iff) (auto dest: bit_imp_le_length)
qed

lemma same_page_eq:
  assumes "is_page_aligned va" "is_page_aligned va'" "unat va < 2 ^ 39" "unat va' < 2 ^ 39" and "same_page va va'"
  shows "va = va'"
proof (rule bit_word_eqI)
  fix n assume n: "n < LENGTH(64)"
  show "bit va n = bit va' n"
  proof (cases "12 \<le> n \<and> n < 39")
    case True
    define l j where "l = (n - 12) div 9" and "j = (n - 12) mod 9"
    have nl: "n = 12 + 9 * l + j" "j < 9" "l < 3" using True by (auto simp: l_def j_def)
    have "l = 0 \<or> l = 1 \<or> l = 2" using nl(3) by arith
    then have "vpn_index va l = vpn_index va' l" using assms(5) by (elim disjE) (simp_all add: same_page_def)
    then show ?thesis using bit_vpn_index [OF nl(2), of _ l] nl(1) by metis
  next
    case False
    then show ?thesis using assms(1,2) aligned_low_bits small_high_bits [OF assms(3)] small_high_bits [OF assms(4)] by (auto simp: is_page_aligned_dvd)
  qed
qed

section \<open>Translation\<close>

lemma pte_leaf: "pte_is_leaf (make_pte a (flags OR pte_valid)) \<longleftrightarrow> flags AND kLeafMask \<noteq> 0"
proof -
  have leaf: "bit kLeafMask n \<longleftrightarrow> n = 1 \<or> n = 2 \<or> n = 3" for n
    unfolding kLeafMask_def pte_read_def pte_write_def pte_execute_def bit_or_iff bit_push_bit_iff bit_1_iff by auto
  have "make_pte a (flags OR pte_valid) AND kLeafMask = flags AND kLeafMask"
    by (rule bit_word_eqI) (auto simp: make_pte_def pte_valid_def bit_simps leaf)
  then show ?thesis by (simp add: pte_is_leaf_def)
qed

lemma pte_target:
  assumes "is_page_aligned pa" and "unat pa < 2 ^ 56" and "flags < 1024"
  shows "pte_physical_address (make_pte pa (flags OR pte_valid)) = pa"
proof (rule bit_word_eqI)
  fix n assume "n < LENGTH(64)"
  have "unat flags < 2 ^ 10" using assms(3) by (simp add: word_less_nat_alt)
  note fl = small_high_bits [OF this]
  have km: "kPpnMask = mask 44" unfolding kPpnMask_def mask_eq_exp_minus_1 by (simp add: push_bit_eq_mult)
  have pb: "12 \<le> n \<and> n < 56" if "bit pa n"
  proof (rule ccontr)
    assume h: "\<not> (12 \<le> n \<and> n < 56)"
    have "pa = 0 \<or> table_page pa" using assms(1,2) by (auto simp: table_page_def is_page_aligned_dvd)
    then show False using table_page_bits [of pa n] that h by auto
  qed
  show "bit (pte_physical_address (make_pte pa (flags OR pte_valid))) n = bit pa n"
    unfolding pte_physical_address_def make_pte_def pte_valid_def km
    using pb fl [of "n - 12 + 10"] by (auto simp: bit_simps)
qed

lemma map_page_translation:
  assumes "page_tables sp ms" and "map_page_4k sp va pa flags ms = (ok, ms')"
  shows "page_tables sp ms' \<and> (\<forall>va'. translation sp ms' va' =
      (if ok \<and> same_page va' va
       then (if flags AND kLeafMask = 0 then None else Some (0, make_pte pa (flags OR pte_valid)))
       else translation sp ms va')) \<and> (ok \<longrightarrow> translation sp ms va = None)"
proof -
  from assms(1) obtain tab where T: "tree_ok (root_physical_address sp) tab ms" unfolding page_tables_def by blast
  from map_page_tree [OF T assms(2), of 0] obtain tab' where T': "tree_ok (root_physical_address sp) tab' ms'"
    "\<forall>va'. leaf_entry tab' (ms_mem ms') va' = (if ok \<and> same_page va' va then Some (make_pte pa (flags OR pte_valid)) else leaf_entry tab (ms_mem ms) va')"
    "ok \<longrightarrow> leaf_entry tab (ms_mem ms) va = None" by blast
  show ?thesis
    using T'(1,2,3) unfolding page_tables_def walk_leaf_entry [OF T] walk_leaf_entry [OF T'(1)]
    by (auto simp: pte_leaf)
qed

lemma create_tree:
  assumes "pm_inv ms" "physical ms" and c: "create_address_space ms = (sp, ms')" and v: "address_space_valid sp"
  shows "tree_ok (root_physical_address sp) [[] \<mapsto> root_physical_address sp] ms'"
    "can_allocate (Suc n) ms \<Longrightarrow> can_allocate n ms'" "ms_lc ms' = ms_lc ms"
proof -
  obtain al where al: "allocate_page ms = (al, ms')" "allocation_valid al" "root_physical_address sp = al_physical_address al"
    using c v by (auto simp: create_address_space_def address_space_valid_def split: prod.splits if_splits)
  note A = allocate_page_table [OF assms(1,2) al(1)]
  have z: "\<not> pte_is_valid 0" by (simp add: pte_is_valid_def)
  show "tree_ok (root_physical_address sp) [[] \<mapsto> root_physical_address sp] ms'"
    by (rule tree_okI) (use A(1,2) A(6,8,9) [OF al(2)] al(3) z in \<open>auto split: if_splits\<close>)
  show "can_allocate (Suc n) ms \<Longrightarrow> can_allocate n ms'" using al(1) by simp
  show "ms_lc ms' = ms_lc ms" by (rule A(5))
qed

text \<open>
  C0: Mapping a page.  Whatever happens the tables stay a tree of pages of their own.  When the call
  succeeds, the page was not mapped before, and afterwards the hardware walk of every address in
  the page ends at the new entry, or in a fault when the flags give no access; the walk of every
  other address ends where it did.  When it fails, no translation changes.
\<close>

theorem map_page_translates:
  assumes "page_tables sp ms" and "map_page_4k sp va pa flags ms = (ok, ms')"
  shows "page_tables sp ms' \<and> (\<forall>va'. translation sp ms' va' =
      (if ok \<and> same_page va' va
       then (if flags AND kLeafMask = 0 then None else Some (0, make_pte pa (flags OR pte_valid)))
       else translation sp ms va')) \<and> (ok \<longrightarrow> translation sp ms va = None)"
  by (rule map_page_translation [OF assms])

definition pt_example :: "address_space \<times> memst" where
  "pt_example = create_address_space \<lparr>ms_lc = lc0, ms_ranges = [\<lparr>mr_base = 0x80100000, mr_next = 0x80100000, mr_end = 0x80110000,
     mr_backing = BK_contained\<rparr>], ms_mem = (\<lambda>_. 0)\<rparr>"

lemma pt_example_ok: "tree_ok (root_physical_address (fst pt_example)) [[] \<mapsto> root_physical_address (fst pt_example)] (snd pt_example)"
    "can_allocate 2 (snd pt_example)" "address_space_valid (fst pt_example)"
proof -
  let ?ms = "\<lparr>ms_lc = lc0, ms_ranges = [\<lparr>mr_base = 0x80100000, mr_next = 0x80100000, mr_end = 0x80110000,
     mr_backing = BK_contained\<rparr>], ms_mem = (\<lambda>_. 0)\<rparr>"
  have inv: "pm_inv ?ms" "physical ?ms" by (simp_all add: pm_inv_def range_ok_def kMaxRanges_def physical_def)
  have k: "active_kind lc0 = BK_contained" by (simp add: active_kind_def initialize_contained_def)
  have c: "can_allocate 3 ?ms"
    by (rule can_allocate_remaining) (use inv(1) k in \<open>simp_all add: remaining_pages_sum free_pages_def\<close>)
  then have v: "address_space_valid (fst pt_example)"
    by (auto simp: pt_example_def create_address_space_def address_space_valid_def numeral_3_eq_3 allocation_valid_def split: prod.splits)
  have e: "create_address_space ?ms = (fst pt_example, snd pt_example)" by (simp add: pt_example_def)
  note t = create_tree [OF inv e v]
  show "tree_ok (root_physical_address (fst pt_example)) [[] \<mapsto> root_physical_address (fst pt_example)] (snd pt_example)" by (rule t(1))
  show "can_allocate 2 (snd pt_example)" using t(2) [of 2] c by (simp add: numeral_3_eq_3 numeral_2_eq_2 del: can_allocate.simps)
  show "address_space_valid (fst pt_example)" by (rule v)
qed

theorem map_page_translates_witness:
  "\<exists>ms'. map_page_4k (fst pt_example) 0x4000 0x80000000 kUserTextFlags (snd pt_example) = (True, ms') \<and>
    translation (fst pt_example) ms' 0x4abc = Some (0, make_pte 0x80000000 (kUserTextFlags OR pte_valid)) \<and> translation (fst pt_example) ms' 0x5000 = None"
proof -
  let ?sp = "fst pt_example" and ?ms = "snd pt_example"
  have args: "map_arguments_ok ?sp 0x4000 0x80000000 kUserTextFlags"
    using pt_example_ok(3) by (simp add: map_arguments_ok_def is_page_aligned_def kPageSize_def kUserTextFlags_def pte_write_def pte_read_def
        pte_execute_def pte_user_def pte_accessed_def)
  obtain ok ms' where m: "map_page_4k ?sp 0x4000 0x80000000 kUserTextFlags ?ms = (ok, ms')" by fastforce
  have none: "leaf_entry [[] \<mapsto> root_physical_address ?sp] m va = None" for m va by (simp add: leaf_entry_def)
  have "ok" using map_page_tree [OF pt_example_ok(1) m, of 0] pt_example_ok(2) args none by (simp add: numeral_2_eq_2 del: can_allocate.simps) blast
  moreover have "page_tables ?sp ?ms" using pt_example_ok(1) unfolding page_tables_def by blast
  moreover have "translation ?sp ?ms va = None" for va using none by (simp add: walk_leaf_entry [OF pt_example_ok(1)])
  moreover have "same_page 0x4abc 0x4000" "\<not> same_page 0x5000 0x4000" by (simp_all add: same_page_def vpn_index_def)
  moreover have "kUserTextFlags AND kLeafMask \<noteq> 0"
    by (simp add: kUserTextFlags_def kLeafMask_def pte_write_def pte_read_def pte_execute_def pte_user_def pte_accessed_def)
  ultimately show ?thesis using map_page_translates [OF _ m] m by auto
qed

end
