(* ===== verification/Task_Context.thy ===== *)
theory Task_Context
  imports Jixia_Prelude
begin

text \<open>
  Trap frames and durable task contexts, \<^verbatim>\<open>src/microkernel/arch/riscv/trap_frame.h\<close> and
  \<^verbatim>\<open>src/microkernel/core/task_context.cpp\<close>.  A register file of 32 entries is a function on
  register numbers; the values read from the \<^verbatim>\<open>mstatus\<close> and \<^verbatim>\<open>satp\<close> registers are arguments.
\<close>

section \<open>Frames and contexts\<close>

record trap_frame =
  tf_x :: "nat \<Rightarrow> u64"
  tf_mstatus :: u64
  tf_mepc :: u64
  tf_mcause :: u64
  tf_mtval :: u64

record task_context =
  ctx_x :: "nat \<Rightarrow> u64"
  ctx_mstatus :: u64
  ctx_mepc :: u64
  ctx_satp :: u64

definition zero_context :: task_context where
  "zero_context = \<lparr>ctx_x = (\<lambda>_. 0), ctx_mstatus = 0, ctx_mepc = 0, ctx_satp = 0\<rparr>"

definition kMstatusMppMask :: u64 where
  "kMstatusMppMask = push_bit 11 3"

definition kMstatusMpie :: u64 where
  "kMstatusMpie = push_bit 7 1"

definition kMstatusMprv :: u64 where
  "kMstatusMprv = push_bit 17 1"

section \<open>Operations\<close>

definition context_clear :: "task_context \<Rightarrow> task_context" where
  "context_clear c = c\<lparr>
     ctx_x := (\<lambda>i. if i < 32 then 0 else ctx_x c i),
     ctx_mstatus := 0, ctx_mepc := 0, ctx_satp := 0\<rparr>"

definition initialize_user ::
    "u64 \<Rightarrow> u64 \<Rightarrow> u64 \<Rightarrow> u64 \<Rightarrow> u64 \<Rightarrow> u64 \<Rightarrow> task_context \<Rightarrow> task_context" where
  "initialize_user mstatus entry argument stack_top return_stub satp c =
     (let c1 = context_clear c in c1\<lparr>
        ctx_x := (ctx_x c1)(1 := return_stub, 2 := stack_top, 10 := argument),
        ctx_mstatus := (mstatus AND NOT (kMstatusMppMask OR kMstatusMprv)) OR kMstatusMpie,
        ctx_mepc := entry,
        ctx_satp := satp\<rparr>)"

definition save_from_trap :: "u64 \<Rightarrow> trap_frame \<Rightarrow> task_context \<Rightarrow> task_context" where
  "save_from_trap satp frame c = c\<lparr>
     ctx_x := (\<lambda>i. if i < 32 then tf_x frame i else ctx_x c i)(0 := 0),
     ctx_mstatus := tf_mstatus frame,
     ctx_mepc := tf_mepc frame,
     ctx_satp := satp\<rparr>"

definition restore_to_trap :: "task_context \<Rightarrow> trap_frame \<Rightarrow> trap_frame" where
  "restore_to_trap c frame = frame\<lparr>
     tf_x := (\<lambda>i. if i < 32 then ctx_x c i else tf_x frame i)(0 := 0),
     tf_mstatus := ctx_mstatus c,
     tf_mepc := ctx_mepc c\<rparr>"

definition set_x :: "nat \<Rightarrow> u64 \<Rightarrow> task_context \<Rightarrow> task_context" where
  "set_x i v c = c\<lparr>ctx_x := (ctx_x c)(i := v)\<rparr>"

section \<open>What the context operations guarantee\<close>

lemma set_x_simps [simp]:
  "ctx_x (set_x i v c) = (ctx_x c)(i := v)"
  "ctx_mstatus (set_x i v c) = ctx_mstatus c"
  "ctx_mepc (set_x i v c) = ctx_mepc c"
  "ctx_satp (set_x i v c) = ctx_satp c"
  by (simp_all add: set_x_def)


text \<open>
  C25: A fresh task context enters user mode whatever \<^verbatim>\<open>mstatus\<close> the creating hart had: the
  previous-privilege field is U, memory privilege borrowing is off, interrupts are enabled by
  the return, the first instruction is the entry point, and apart from the return stub, the
  stack pointer and the argument every register is zero.
\<close>

theorem initialize_user_enters_user_mode:
  "let c' = initialize_user mstatus entry argument stack_top return_stub satp c in
     ctx_mstatus c' AND kMstatusMppMask = 0 \<and>
     ctx_mstatus c' AND kMstatusMprv = 0 \<and>
     ctx_mstatus c' AND kMstatusMpie = kMstatusMpie \<and>
     ctx_mstatus c' AND NOT (kMstatusMppMask OR kMstatusMprv OR kMstatusMpie)
       = mstatus AND NOT (kMstatusMppMask OR kMstatusMprv OR kMstatusMpie) \<and>
     ctx_mepc c' = entry \<and> ctx_satp c' = satp \<and>
     map (ctx_x c') [0..<32] = (replicate 32 0)[1 := return_stub, 2 := stack_top, 10 := argument]"
proof -
  have masks: "kMstatusMpie AND kMstatusMppMask = 0" "kMstatusMpie AND kMstatusMprv = 0"
    by (simp_all add: kMstatusMpie_def kMstatusMppMask_def kMstatusMprv_def)
  have bits: "(m AND NOT a AND NOT b OR p) AND a = p AND a"
    "(m AND NOT a AND NOT b OR p) AND b = p AND b"
    "(m AND NOT a AND NOT b OR p) AND NOT a AND NOT b AND NOT p = m AND NOT a AND NOT b AND NOT p"
    for m a b p :: u64
    by (rule bit_word_eqI; auto simp: bit_simps)+
  show ?thesis
    by (simp add: initialize_user_def context_clear_def Let_def bits masks upt_rec numeral_eq_Suc)
qed

end
