(* ===== verification/Kernel_State.thy ===== *)
theory Kernel_State
  imports Task_Context Vmm_Manager
begin

text \<open>
  The data model of the kernel executive: \<^verbatim>\<open>src/microkernel/core/task.h\<close>, the data members of
  the managers in \<^verbatim>\<open>scheduler.h\<close>, \<^verbatim>\<open>time_manager.h\<close>, \<^verbatim>\<open>task_manager.h\<close>, \<^verbatim>\<open>ipc_manager.h\<close> and
  the per-hart record of \<^verbatim>\<open>hart.h\<close>.  The managers are singletons, so one record \<open>kst\<close> holds
  the data of all of them.  A fixed array is a function on indices.  A \<^verbatim>\<open>Task*\<close>,
  \<^verbatim>\<open>TaskTracker*\<close> or \<^verbatim>\<open>HartLocal*\<close> is the index of the pool slot it points to (\<open>None\<close> for
  \<^verbatim>\<open>nullptr\<close>): the sources form no other pointers to these objects.

  The environment is part of the state: successive reads of \<^verbatim>\<open>mtime\<close> come from \<open>k_clock\<close> at
  position \<open>k_reads\<close>, the control registers of a hart are \<open>k_csr\<close>, the timer comparators
  \<open>k_mtimecmp\<close> are indexed by hart identifier, and \<open>k_log\<close> lists the \<^verbatim>\<open>printk\<close> calls.
\<close>

section \<open>Tasks\<close>

text \<open>\<open>TS_zero\<close> is the zero byte of a value-initialised \<^verbatim>\<open>Task\<close>, which is no enumerator.\<close>

datatype task_state =
    TS_zero | TS_running | TS_ready | TS_ended | TS_blocked_futex | TS_blocked_message
  | TS_blocked_userspace | TS_blocked_sleep | TS_blocked_join

datatype exit_status = ES_running | ES_exited_clean | ES_crashed

record delay_node =
  dn_previous :: "nat ptr"
  dn_next :: "nat ptr"
  dn_deadline :: u64
  dn_queued :: bool

record wait_info =
  wi_active :: bool
  wi_tid :: u64
  wi_status_address :: u64
  wi_return_value_address :: u64

record message_wait_node =
  mw_previous :: "nat ptr"
  mw_next :: "nat ptr"
  mw_queued :: bool

record task_tracker =
  tt_parent :: "nat ptr"
  tt_first_child :: "nat ptr"
  tt_previous_sibling :: "nat ptr"
  tt_next_sibling :: "nat ptr"
  tt_key :: u64
  tt_task :: "nat ptr"
  tt_status :: exit_status
  tt_return_value :: u64
  tt_wait :: wait_info
  tt_entry_point :: u64

record task =
  t_cpu :: "nat ptr"
  t_context :: task_context
  t_address_space :: address_space
  t_tid :: u64
  t_affinity_pinned :: u64
  t_state :: task_state
  t_state_info :: u64
  t_tracker :: "nat ptr"
  t_delay :: delay_node
  t_message_wait :: message_wait_node
  t_stack_bottom :: u64
  t_stack_top :: u64
  t_detached :: bool
  t_idle :: bool
  t_queued :: bool
  t_previous :: "nat ptr"
  t_next :: "nat ptr"

definition zero_wait :: wait_info where
  "zero_wait = \<lparr>wi_active = False, wi_tid = 0, wi_status_address = 0, wi_return_value_address = 0\<rparr>"

definition zero_message_wait :: message_wait_node where
  "zero_message_wait = \<lparr>mw_previous = None, mw_next = None, mw_queued = False\<rparr>"

definition zero_delay :: delay_node where
  "zero_delay = \<lparr>dn_previous = None, dn_next = None, dn_deadline = 0, dn_queued = False\<rparr>"

definition zero_tracker :: task_tracker where
  "zero_tracker = \<lparr>tt_parent = None, tt_first_child = None, tt_previous_sibling = None,
     tt_next_sibling = None, tt_key = 0, tt_task = None, tt_status = ES_exited_clean,
     tt_return_value = 0, tt_wait = zero_wait, tt_entry_point = 0\<rparr>"

definition zero_task :: task where
  "zero_task = \<lparr>t_cpu = None, t_context = zero_context,
     t_address_space = \<lparr>root_physical_address = 0\<rparr>, t_tid = 0, t_affinity_pinned = 0,
     t_state = TS_zero, t_state_info = 0, t_tracker = None, t_delay = zero_delay,
     t_message_wait = zero_message_wait, t_stack_bottom = 0, t_stack_top = 0,
     t_detached = False, t_idle = False, t_queued = False, t_previous = None, t_next = None\<rparr>"

section \<open>Queues and endpoints\<close>

datatype rqid = Global_rq | Local_rq nat

record run_queue =
  rq_head :: "nat ptr"
  rq_tail :: "nat ptr"
  rq_size :: nat

definition empty_rq :: run_queue where
  "empty_rq = \<lparr>rq_head = None, rq_tail = None, rq_size = 0\<rparr>"

record message =
  msg_sender :: u64
  msg_word0 :: u64
  msg_word1 :: u64
  msg_word2 :: u64
  msg_word3 :: u64

definition zero_message :: message where
  "zero_message =
     \<lparr>msg_sender = 0, msg_word0 = 0, msg_word1 = 0, msg_word2 = 0, msg_word3 = 0\<rparr>"

record endpoint =
  ep_active :: bool
  ep_retired :: bool
  ep_generation :: u32
  ep_owner :: u64
  ep_head :: nat
  ep_count :: nat
  ep_queue :: "nat \<Rightarrow> message"
  ep_waiting_head :: "nat ptr"
  ep_waiting_tail :: "nat ptr"
  ep_waiting_count :: nat

section \<open>Harts\<close>

datatype hart_role = HR_boot | HR_secondary

datatype hart_state = HS_offline | HS_online

text \<open>
  The scheduler and queue pointers of a hart are typed by what they point to: the scheduler
  singleton (\<open>True\<close> when bound), a run queue and a delay queue.
\<close>

record hart_local =
  hl_hart_id :: u64
  hl_stack_bottom :: u64
  hl_stack_top :: u64
  hl_machine_timer_interrupt_count :: u64
  hl_index :: u32
  hl_role :: hart_role
  hl_state :: hart_state
  hl_trap_entry_sp :: u64
  hl_trap_entry_t1 :: u64
  hl_trap_stack_bottom :: u64
  hl_trap_stack_top :: u64
  hl_trap_active :: u32
  hl_trap_reserved :: u32
  hl_current_task :: "nat ptr"
  hl_scheduler :: bool
  hl_scheduler_extra :: "rqid ptr"
  hl_delay_list :: "nat ptr"
  hl_idle_task :: "nat ptr"
  hl_timeslice_ticks :: u64
  hl_scheduler_preemption_count :: u64

record csr =
  csr_satp :: u64
  csr_mstatus :: u64
  csr_mtie :: bool
  csr_medeleg :: u64
  csr_mideleg :: u64
  csr_pmpaddr0 :: u64
  csr_pmpcfg0 :: u64

definition kMaxHarts :: nat where
  "kMaxHarts = 4"

definition kMaxTasks :: nat where
  "kMaxTasks = 16"

definition kMaxEndpoints :: nat where
  "kMaxEndpoints = 16"

definition kEndpointQueueDepth :: nat where
  "kEndpointQueueDepth = 16"

section \<open>The kernel state\<close>

record reported_flags =
  g_create_reported :: bool
  g_context_switch_reported :: bool
  g_end_reported :: bool
  g_wait_reported :: bool
  g_wait_block_reported :: bool
  g_detach_reported :: bool
  g_idle_reported :: bool

record kst =
  k_tasks :: "nat \<Rightarrow> task"
  k_trackers :: "nat \<Rightarrow> task_tracker"
  k_task_slots_used :: "nat \<Rightarrow> bool"
  k_tracker_slots_used :: "nat \<Rightarrow> bool"
  k_root_tasks :: "nat ptr"
  k_next_tid :: u64
  k_initial_task_id :: u64
  k_tm_initialized :: bool
  k_run_queues :: "rqid \<Rightarrow> run_queue"
  k_delay_queues :: "nat \<Rightarrow> nat ptr"
  k_time_initialized :: bool
  k_slot_allocated :: "nat \<Rightarrow> bool"
  k_endpoints :: "nat \<Rightarrow> endpoint"
  k_harts :: "nat \<Rightarrow> hart_local"
  k_present_count :: nat
  k_vmm :: vmm_state
  k_ms :: memst
  k_csr :: "nat \<Rightarrow> csr"
  k_mtimecmp :: "u64 \<Rightarrow> u64"
  k_clock :: "nat \<Rightarrow> u64"
  k_reads :: nat
  k_log :: "(string \<times> log_arg list) list"
  k_reported :: reported_flags

text \<open>
  Addresses the linker provides: the entries of the idle and the initial task, the end stub, the
  bounds of the user text and of the bootstrap page pool, \<^verbatim>\<open>g_task_stacks\<close> and the hart stacks.
\<close>

record image =
  im_user_idle_task :: u64
  im_user_init_task :: u64
  im_user_task_end_stub :: u64
  im_user_text_start :: u64
  im_user_text_end :: u64
  im_pool_start :: u64
  im_pool_end :: u64
  im_task_stacks :: u64
  im_hart_stacks :: u64
  im_hart_trap_stacks :: u64

section \<open>Field access\<close>

definition upd_task :: "nat \<Rightarrow> (task \<Rightarrow> task) \<Rightarrow> kst \<Rightarrow> kst" where
  "upd_task t f s = s\<lparr>k_tasks := (k_tasks s)(t := f (k_tasks s t))\<rparr>"

definition upd_tracker :: "nat \<Rightarrow> (task_tracker \<Rightarrow> task_tracker) \<Rightarrow> kst \<Rightarrow> kst" where
  "upd_tracker x f s = s\<lparr>k_trackers := (k_trackers s)(x := f (k_trackers s x))\<rparr>"

definition upd_rq :: "rqid \<Rightarrow> (run_queue \<Rightarrow> run_queue) \<Rightarrow> kst \<Rightarrow> kst" where
  "upd_rq q f s = s\<lparr>k_run_queues := (k_run_queues s)(q := f (k_run_queues s q))\<rparr>"

definition upd_ep :: "nat \<Rightarrow> (endpoint \<Rightarrow> endpoint) \<Rightarrow> kst \<Rightarrow> kst" where
  "upd_ep e f s = s\<lparr>k_endpoints := (k_endpoints s)(e := f (k_endpoints s e))\<rparr>"

definition upd_hart :: "nat \<Rightarrow> (hart_local \<Rightarrow> hart_local) \<Rightarrow> kst \<Rightarrow> kst" where
  "upd_hart h f s = s\<lparr>k_harts := (k_harts s)(h := f (k_harts s h))\<rparr>"

definition set_delay_head :: "nat \<Rightarrow> nat ptr \<Rightarrow> kst \<Rightarrow> kst" where
  "set_delay_head h p s = s\<lparr>k_delay_queues := (k_delay_queues s)(h := p)\<rparr>"

definition upd_delay :: "nat \<Rightarrow> (delay_node \<Rightarrow> delay_node) \<Rightarrow> kst \<Rightarrow> kst" where
  "upd_delay t f s = upd_task t (\<lambda>x. x\<lparr>t_delay := f (t_delay x)\<rparr>) s"

definition upd_mw :: "nat \<Rightarrow> (message_wait_node \<Rightarrow> message_wait_node) \<Rightarrow> kst \<Rightarrow> kst" where
  "upd_mw t f s = upd_task t (\<lambda>x. x\<lparr>t_message_wait := f (t_message_wait x)\<rparr>) s"

definition set_task_x :: "nat \<Rightarrow> nat \<Rightarrow> u64 \<Rightarrow> kst \<Rightarrow> kst" where
  "set_task_x t i v s = upd_task t (\<lambda>x. x\<lparr>t_context := set_x i v (t_context x)\<rparr>) s"

abbreviation nl :: string where
  "nl \<equiv> [CHR 0x0A]"

definition printk :: "string \<Rightarrow> log_arg list \<Rightarrow> kst \<Rightarrow> kst" where
  "printk fmt args s = s\<lparr>k_log := k_log s @ [(fmt, args)]\<rparr>"

text \<open>One read of the free-running timer.\<close>

definition read_time :: "kst \<Rightarrow> u64 \<times> kst" where
  "read_time s = (k_clock s (k_reads s), s\<lparr>k_reads := Suc (k_reads s)\<rparr>)"

text \<open>\<^verbatim>\<open>task.cpu->scheduler->...\<close>: both pointers are dereferenced.\<close>

definition deref_scheduler :: "nat \<Rightarrow> kst \<Rightarrow> unit option" where
  "deref_scheduler t s = do { h \<leftarrow> t_cpu (k_tasks s t); park_unless (hl_scheduler (k_harts s h)) }"

end
