(* ===== verification/Linked_Queue.thy ===== *)
theory Linked_Queue
  imports Jixia_Prelude
begin

text \<open>
  Intrusive doubly linked lists.  The kernel threads run queues, sleep queues, waiting FIFOs and
  sibling lists through link fields of pool objects.  Here the link fields are functions \<open>P\<close>
  (previous) and \<open>N\<close> (next) on slot numbers; \<open>chain P N p xs\<close> says that they spell the list
  \<open>xs\<close> after predecessor \<open>p\<close>.  A \<open>family\<close> is a set of disjoint lists over one pair of link
  fields with a membership flag \<open>Q\<close>.  Inserting and removing an element at any position is
  proved once for all users.
\<close>

section \<open>End pointers\<close>

definition first :: "'a list \<Rightarrow> 'a option" where
  "first xs = (if xs = [] then None else Some (hd xs))"

definition lastp :: "'a list \<Rightarrow> 'a option" where
  "lastp xs = (if xs = [] then None else Some (last xs))"

lemma first_simps [simp]:
  "first [] = None" "first (x # xs) = Some x"
  "first (xs @ ys) = (if xs = [] then first ys else first xs)"
  "first xs = None \<longleftrightarrow> xs = []"
  by (auto simp: first_def)

lemma lastp_simps [simp]:
  "lastp [] = None" "lastp (xs @ [x]) = Some x"
  "lastp (x # xs) = (if xs = [] then Some x else lastp xs)"
  "lastp (xs @ ys) = (if ys = [] then lastp xs else lastp ys)"
  "lastp xs = None \<longleftrightarrow> xs = []"
  by (auto simp: lastp_def)

lemma first_mem: "first xs = Some x \<Longrightarrow> x \<in> set xs"
  by (cases xs) auto

lemma lastp_mem: "lastp xs = Some x \<Longrightarrow> x \<in> set xs"
  by (auto simp: lastp_def split: if_splits)

lemma first_SomeD: "first xs = Some x \<Longrightarrow> \<exists>ys. xs = x # ys"
  by (cases xs) auto

section \<open>Chains\<close>

fun chain :: "('a \<Rightarrow> 'a option) \<Rightarrow> ('a \<Rightarrow> 'a option) \<Rightarrow> 'a option \<Rightarrow> 'a list \<Rightarrow> bool" where
  "chain P N p [] \<longleftrightarrow> True"
| "chain P N p (x # xs) \<longleftrightarrow> P x = p \<and> N x = first xs \<and> chain P N (Some x) xs"

lemma chain_cong:
  "chain P N p xs \<Longrightarrow> \<forall>u \<in> set xs. P' u = P u \<and> N' u = N u \<Longrightarrow> chain P' N' p xs"
  by (induction xs arbitrary: p) auto

text \<open>Relinking the predecessor of a list changes at most the back link of its first element.\<close>

lemma chain_repoint:
  assumes "chain P N p xs" and "distinct xs"
    and "\<forall>u \<in> set xs. N' u = N u"
    and "\<forall>u \<in> set xs. P' u = (if Some u = first xs then p' else P u)"
  shows "chain P' N' p' xs"
proof (cases xs)
  case (Cons x ys)
  have "chain P' N' (Some x) ys"
    by (rule chain_cong [where P = P and N = N]) (use assms Cons in auto)
  with Cons assms show ?thesis by auto
qed simp

lemma chain_insert:
  assumes "chain P N p (xs @ ys)" and "distinct (xs @ ys)" and "t \<notin> set (xs @ ys)"
    and "P' t = (if xs = [] then p else lastp xs)" and "N' t = first ys"
    and "\<forall>u \<in> set (xs @ ys). P' u = (if Some u = first ys then Some t else P u)"
    and "\<forall>u \<in> set (xs @ ys). N' u = (if Some u = lastp xs then Some t else N u)"
  shows "chain P' N' p (xs @ t # ys)"
  using assms
proof (induction xs arbitrary: p)
  case Nil
  have "chain P' N' (Some t) ys"
    by (rule chain_repoint [of P N p ys]) (use Nil.prems in simp_all)
  with Nil.prems(4,5) show ?case by simp
next
  case (Cons x xs)
  have x: "Some x \<noteq> first ys" "Some x \<noteq> lastp xs" "x \<noteq> t"
    using Cons.prems(2,3) by (auto dest: first_mem [OF sym] lastp_mem [OF sym])
  have Px: "P' x = P x"
    using Cons.prems(6) x by simp
  have Nx: "N' x = (if xs = [] then Some t else N x)"
    using Cons.prems(7) x by simp
  have "chain P' N' (Some x) (xs @ t # ys)"
  proof (rule Cons.IH)
    show "chain P N (Some x) (xs @ ys)" "distinct (xs @ ys)" "t \<notin> set (xs @ ys)"
      "P' t = (if xs = [] then Some x else lastp xs)" "N' t = first ys"
      using Cons.prems(1-5) by simp_all
    show "\<forall>u \<in> set (xs @ ys). P' u = (if Some u = first ys then Some t else P u)"
      using Cons.prems(6) by simp
    have "x \<notin> set (xs @ ys)" using Cons.prems(2) by simp
    then show "\<forall>u \<in> set (xs @ ys). N' u = (if Some u = lastp xs then Some t else N u)"
      using Cons.prems(7) by (cases "xs = []") auto
  qed
  with Px Nx Cons.prems(1) show ?case
    by auto
qed

lemma chain_remove:
  assumes "chain P N p (xs @ t # ys)" and "distinct (xs @ t # ys)"
    and "\<forall>u \<in> set (xs @ ys). P' u = (if Some u = first ys then (if xs = [] then p else lastp xs) else P u)"
    and "\<forall>u \<in> set (xs @ ys). N' u = (if Some u = lastp xs then first ys else N u)"
  shows "chain P' N' p (xs @ ys)"
  using assms
proof (induction xs arbitrary: p)
  case Nil
  have "chain P' N' p ys"
    by (rule chain_repoint [of P N "Some t" ys]) (use Nil.prems in auto)
  then show ?case by simp
next
  case (Cons x xs)
  have x: "Some x \<noteq> first ys" "Some x \<noteq> lastp xs"
    using Cons.prems(2) by (auto dest: first_mem [OF sym] lastp_mem [OF sym])
  have Px: "P' x = P x"
    using Cons.prems(3) x by simp
  have Nx: "N' x = (if xs = [] then first ys else N x)"
    using Cons.prems(4) x by simp
  have "chain P' N' (Some x) (xs @ ys)"
  proof (rule Cons.IH)
    show "chain P N (Some x) (xs @ t # ys)" "distinct (xs @ t # ys)"
      using Cons.prems(1,2) by simp_all
    show "\<forall>u \<in> set (xs @ ys).
        P' u = (if Some u = first ys then if xs = [] then Some x else lastp xs else P u)"
      using Cons.prems(3) by simp
    have "x \<notin> set (xs @ ys)" using Cons.prems(2) by simp
    then show "\<forall>u \<in> set (xs @ ys). N' u = (if Some u = lastp xs then first ys else N u)"
      using Cons.prems(4) by (cases "xs = []") auto
  qed
  with Px Nx Cons.prems(1) show ?case
    by auto
qed

lemma chain_links:
  assumes "chain P N p (xs @ t # ys)"
  shows "P t = (if xs = [] then p else lastp xs)" and "N t = first ys"
  using assms by (induction xs arbitrary: p) (auto split: if_splits)

section \<open>Families of lists\<close>

definition family ::
    "('a \<Rightarrow> 'a option) \<Rightarrow> ('a \<Rightarrow> 'a option) \<Rightarrow> ('a \<Rightarrow> bool) \<Rightarrow> ('q \<Rightarrow> 'a list) \<Rightarrow> bool" where
  "family P N Q ls \<longleftrightarrow>
     (\<forall>q. chain P N None (ls q) \<and> distinct (ls q)) \<and>
     (\<forall>q q'. q \<noteq> q' \<longrightarrow> set (ls q) \<inter> set (ls q') = {}) \<and>
     (\<forall>u. Q u \<longleftrightarrow> (\<exists>q. u \<in> set (ls q)))"

lemma familyD:
  assumes "family P N Q ls"
  shows "chain P N None (ls q)" "distinct (ls q)" "u \<in> set (ls q) \<Longrightarrow> Q u"
    "u \<in> set (ls q) \<Longrightarrow> u \<in> set (ls q') \<Longrightarrow> q' = q"
    "Q u \<Longrightarrow> \<exists>q. u \<in> set (ls q)"
  using assms unfolding family_def by blast+

lemma family_cong:
  assumes "family P N Q ls" and "\<forall>u. Q u \<longrightarrow> P' u = P u \<and> N' u = N u" and "\<forall>u. Q' u = Q u"
  shows "family P' N' Q' ls"
proof -
  have "chain P' N' None (ls q)" for q
    by (rule chain_cong [OF familyD(1) [OF assms(1), where q = q]])
      (use assms(2) familyD(3) [OF assms(1), where q = q] in blast)
  with assms(1,3) show ?thesis
    unfolding family_def by simp
qed

lemma family_insert:
  assumes fam: "family P N Q ls" and ls: "ls q = xs @ ys" and t: "\<not> Q t"
    and "P' t = lastp xs" and "N' t = first ys"
    and P': "\<forall>u. u \<noteq> t \<longrightarrow> P' u = (if Some u = first ys then Some t else P u)"
    and N': "\<forall>u. u \<noteq> t \<longrightarrow> N' u = (if Some u = lastp xs then Some t else N u)"
    and Q': "\<forall>u. Q' u \<longleftrightarrow> u = t \<or> Q u"
  shows "family P' N' Q' (ls(q := xs @ t # ys))"
proof -
  have t_out: "\<forall>q. t \<notin> set (ls q)"
    using familyD(3) [OF fam] t by blast
  have mem: "t \<notin> set xs \<union> set ys"
    using t_out ls by (metis set_append)
  have "chain P' N' None (xs @ t # ys)"
    by (rule chain_insert [of P N]) (use familyD(1,2) [OF fam, where q = q] mem assms(4,5) P' N' in \<open>auto simp: ls\<close>)
  moreover have "chain P' N' None (ls q')" if q': "q' \<noteq> q" for q'
  proof (rule chain_cong [OF familyD(1) [OF fam, where q = q']])
    have "u \<notin> set xs \<union> set ys" if "u \<in> set (ls q')" for u
      using familyD(4) [OF fam that, where q' = q] q' ls by auto
    then show "\<forall>u \<in> set (ls q'). P' u = P u \<and> N' u = N u"
      using t_out P' N' by (metis UnI1 UnI2 first_mem lastp_mem)
  qed
  moreover have "distinct (xs @ t # ys)"
    using familyD(2) [OF fam, where q = q] mem ls by auto
  moreover have "set (xs @ t # ys) \<inter> set (ls q') = {}" if "q' \<noteq> q" for q'
    using familyD(4) [OF fam, where q = q and q' = q'] t_out ls that by auto
  moreover have "Q' u \<longleftrightarrow> (\<exists>r. u \<in> set ((ls(q := xs @ t # ys)) r))" for u
  proof (cases "u = t")
    case False
    then have "u \<in> set ((ls(q := xs @ t # ys)) r) \<longleftrightarrow> u \<in> set (ls r)" for r
      using ls by auto
    with False fam Q' show ?thesis unfolding family_def by blast
  qed (use Q' in auto)
  ultimately show ?thesis
    using fam unfolding family_def by (simp add: Int_commute)
qed

lemma family_remove:
  assumes fam: "family P N Q ls" and ls: "ls q = xs @ t # ys"
    and P': "\<forall>u. u \<noteq> t \<longrightarrow> P' u = (if Some u = first ys then lastp xs else P u)"
    and N': "\<forall>u. u \<noteq> t \<longrightarrow> N' u = (if Some u = lastp xs then first ys else N u)"
    and Q': "\<forall>u. Q' u \<longleftrightarrow> u \<noteq> t \<and> Q u"
  shows "family P' N' Q' (ls(q := xs @ ys))"
proof -
  have t_only: "t \<in> set (ls q') \<longleftrightarrow> q' = q" for q'
    using familyD(4) [OF fam, where u = t and q = q and q' = q'] ls by auto
  have dis: "distinct (xs @ t # ys)"
    using familyD(2) [OF fam, where q = q] ls by simp
  have "chain P' N' None (xs @ ys)"
    by (rule chain_remove [of P N _ _ t])
      (use familyD(1) [OF fam, where q = q] ls dis P' N' in \<open>auto dest: first_mem lastp_mem\<close>)
  moreover have "chain P' N' None (ls q')" if q': "q' \<noteq> q" for q'
  proof (rule chain_cong [OF familyD(1) [OF fam, where q = q']])
    have "u \<notin> set xs \<union> set ys \<and> u \<noteq> t" if "u \<in> set (ls q')" for u
      using familyD(4) [OF fam that, where q' = q] q' ls by auto
    then show "\<forall>u \<in> set (ls q'). P' u = P u \<and> N' u = N u"
      using P' N' by (metis UnI1 UnI2 first_mem lastp_mem)
  qed
  moreover have "distinct (xs @ ys)"
    using dis by auto
  moreover have "set (xs @ ys) \<inter> set (ls q') = {}" if "q' \<noteq> q" for q'
    using familyD(4) [OF fam, where q = q and q' = q'] ls that by auto
  moreover have "Q' u \<longleftrightarrow> (\<exists>r. u \<in> set ((ls(q := xs @ ys)) r))" for u
  proof (cases "u = t")
    case True
    then show ?thesis using t_only dis Q' by auto
  next
    case False
    then have "u \<in> set ((ls(q := xs @ ys)) r) \<longleftrightarrow> u \<in> set (ls r)" for r
      using ls by auto
    with False fam Q' show ?thesis unfolding family_def by blast
  qed
  ultimately show ?thesis
    using fam unfolding family_def by (simp add: Int_commute)
qed

text \<open>The two ends, as the FIFO operations use them.\<close>

lemma family_push_back:
  assumes "family P N Q ls" and "\<not> Q t" and "P' t = lastp (ls q)" and "N' t = None"
    and "\<forall>u. u \<noteq> t \<longrightarrow> P' u = P u"
    and "\<forall>u. u \<noteq> t \<longrightarrow> N' u = (if Some u = lastp (ls q) then Some t else N u)"
    and "\<forall>u. Q' u \<longleftrightarrow> u = t \<or> Q u"
  shows "family P' N' Q' (ls(q := ls q @ [t]))"
  using family_insert [of P N Q ls q "ls q" "[]" t P' N' Q'] assms by simp

lemma family_push_front:
  assumes "family P N Q ls" and "\<not> Q t" and "P' t = None" and "N' t = first (ls q)"
    and "\<forall>u. u \<noteq> t \<longrightarrow> P' u = (if Some u = first (ls q) then Some t else P u)"
    and "\<forall>u. u \<noteq> t \<longrightarrow> N' u = N u"
    and "\<forall>u. Q' u \<longleftrightarrow> u = t \<or> Q u"
  shows "family P' N' Q' (ls(q := t # ls q))"
  using family_insert [of P N Q ls q "[]" "ls q" t P' N' Q'] assms by simp

lemma family_pop_front:
  assumes "family P N Q ls" and "ls q = t # ys"
    and "\<forall>u. u \<noteq> t \<longrightarrow> P' u = (if Some u = first ys then None else P u)"
    and "\<forall>u. u \<noteq> t \<longrightarrow> N' u = N u"
    and "\<forall>u. Q' u \<longleftrightarrow> u \<noteq> t \<and> Q u"
  shows "family P' N' Q' (ls(q := ys))"
  using family_remove [of P N Q ls q "[]" t ys P' N' Q'] assms by simp

lemma family_links:
  assumes "family P N Q ls" and "ls q = xs @ t # ys"
  shows "P t = lastp xs" "N t = first ys"
  using chain_links [of P N None xs t ys] familyD(1) [OF assms(1), where q = q] assms(2) by auto

end
