(* ===== verification/Kernel_Ghost.thy ===== *)
theory Kernel_Ghost
  imports Kernel_State Linked_Queue
begin

text \<open>
  The abstract view of the kernel state.  Ghost lists \<open>ghost\<close> stand for the linked structures
  (run queues, sleep queues, waiting FIFOs, sibling lists), and \<open>erase\<close> forgets every link
  field.  The refinement relation \<open>sim G c s\<close> says that the concrete state \<open>s\<close> is the erased
  state \<open>c\<close> with links that spell exactly the lists of \<open>G\<close>.  Each queue operation of the code is
  proved to follow its list counterpart under \<open>sim\<close>; updates that touch no link carry over.
\<close>

section \<open>Ghost lists and erasure\<close>

text \<open>\<open>g_out\<close> holds the allocated trackers that are linked into no sibling list.\<close>

record ghost =
  g_rq :: "rqid \<Rightarrow> nat list"
  g_dq :: "nat \<Rightarrow> nat list"
  g_wq :: "nat \<Rightarrow> nat list"
  g_ch :: "nat option \<Rightarrow> nat list"
  g_out :: "nat set"

definition erase_task :: "task \<Rightarrow> task" where
  "erase_task x = x\<lparr>t_previous := None, t_next := None,
     t_delay := (t_delay x)\<lparr>dn_previous := None, dn_next := None\<rparr>,
     t_message_wait := (t_message_wait x)\<lparr>mw_previous := None, mw_next := None\<rparr>\<rparr>"

definition erase_tracker :: "task_tracker \<Rightarrow> task_tracker" where
  "erase_tracker x =
     x\<lparr>tt_first_child := None, tt_previous_sibling := None, tt_next_sibling := None\<rparr>"

definition erase_ep :: "endpoint \<Rightarrow> endpoint" where
  "erase_ep x = x\<lparr>ep_waiting_head := None, ep_waiting_tail := None, ep_waiting_count := 0\<rparr>"

definition erase :: "kst \<Rightarrow> kst" where
  "erase s = s\<lparr>
     k_tasks := (\<lambda>t. erase_task (k_tasks s t)),
     k_trackers := (\<lambda>x. erase_tracker (k_trackers s x)),
     k_root_tasks := None,
     k_run_queues := (\<lambda>_. empty_rq),
     k_delay_queues := (\<lambda>_. None),
     k_endpoints := (\<lambda>e. erase_ep (k_endpoints s e))\<rparr>"

section \<open>The refinement relation\<close>

definition rq_rep :: "ghost \<Rightarrow> kst \<Rightarrow> bool" where
  "rq_rep G s \<longleftrightarrow>
     family (\<lambda>t. t_previous (k_tasks s t)) (\<lambda>t. t_next (k_tasks s t)) (\<lambda>t. t_queued (k_tasks s t)) (g_rq G) \<and>
     (\<forall>q. k_run_queues s q =
        \<lparr>rq_head = first (g_rq G q), rq_tail = lastp (g_rq G q), rq_size = length (g_rq G q)\<rparr>)"

definition dq_rep :: "ghost \<Rightarrow> kst \<Rightarrow> bool" where
  "dq_rep G s \<longleftrightarrow>
     family (\<lambda>t. dn_previous (t_delay (k_tasks s t))) (\<lambda>t. dn_next (t_delay (k_tasks s t)))
       (\<lambda>t. dn_queued (t_delay (k_tasks s t))) (g_dq G) \<and>
     (\<forall>h. k_delay_queues s h = first (g_dq G h))"

definition wq_rep :: "ghost \<Rightarrow> kst \<Rightarrow> bool" where
  "wq_rep G s \<longleftrightarrow>
     family (\<lambda>t. mw_previous (t_message_wait (k_tasks s t)))
       (\<lambda>t. mw_next (t_message_wait (k_tasks s t)))
       (\<lambda>t. mw_queued (t_message_wait (k_tasks s t))) (g_wq G) \<and>
     (\<forall>e. ep_waiting_head (k_endpoints s e) = first (g_wq G e) \<and>
          ep_waiting_tail (k_endpoints s e) = lastp (g_wq G e) \<and>
          ep_waiting_count (k_endpoints s e) = length (g_wq G e))"

definition ch_rep :: "ghost \<Rightarrow> kst \<Rightarrow> bool" where
  "ch_rep G s \<longleftrightarrow>
     family (\<lambda>x. tt_previous_sibling (k_trackers s x)) (\<lambda>x. tt_next_sibling (k_trackers s x))
       (\<lambda>x. k_tracker_slots_used s x \<and> x \<notin> g_out G) (g_ch G) \<and>
     k_root_tasks s = first (g_ch G None) \<and>
     (\<forall>p. tt_first_child (k_trackers s p) = first (g_ch G (Some p))) \<and>
     (\<forall>p x. x \<in> set (g_ch G p) \<longrightarrow> tt_parent (k_trackers s x) = p)"

definition sim :: "ghost \<Rightarrow> kst \<Rightarrow> kst \<Rightarrow> bool" where
  "sim G c s \<longleftrightarrow> c = erase s \<and> rq_rep G s \<and> dq_rep G s \<and> wq_rep G s \<and> ch_rep G s"

lemma simD:
  assumes "sim G c s"
  shows "c = erase s" "rq_rep G s" "dq_rep G s" "wq_rep G s" "ch_rep G s"
  using assms by (simp_all add: sim_def)

lemma simI:
  "c = erase s \<Longrightarrow> rq_rep G s \<Longrightarrow> dq_rep G s \<Longrightarrow> wq_rep G s \<Longrightarrow> ch_rep G s \<Longrightarrow> sim G c s"
  by (simp add: sim_def)

section \<open>Reading and updating\<close>

lemma erase_task_simps [simp]:
  "t_cpu (erase_task x) = t_cpu x" "t_context (erase_task x) = t_context x"
  "t_address_space (erase_task x) = t_address_space x" "t_tid (erase_task x) = t_tid x"
  "t_affinity_pinned (erase_task x) = t_affinity_pinned x" "t_state (erase_task x) = t_state x"
  "t_state_info (erase_task x) = t_state_info x" "t_tracker (erase_task x) = t_tracker x"
  "t_stack_bottom (erase_task x) = t_stack_bottom x" "t_stack_top (erase_task x) = t_stack_top x"
  "t_detached (erase_task x) = t_detached x" "t_idle (erase_task x) = t_idle x"
  "t_queued (erase_task x) = t_queued x"
  "dn_deadline (t_delay (erase_task x)) = dn_deadline (t_delay x)"
  "dn_queued (t_delay (erase_task x)) = dn_queued (t_delay x)"
  "mw_queued (t_message_wait (erase_task x)) = mw_queued (t_message_wait x)"
  by (simp_all add: erase_task_def)

lemma erase_tracker_simps [simp]:
  "tt_parent (erase_tracker x) = tt_parent x" "tt_key (erase_tracker x) = tt_key x"
  "tt_task (erase_tracker x) = tt_task x" "tt_status (erase_tracker x) = tt_status x"
  "tt_return_value (erase_tracker x) = tt_return_value x" "tt_wait (erase_tracker x) = tt_wait x"
  "tt_entry_point (erase_tracker x) = tt_entry_point x"
  by (simp_all add: erase_tracker_def)

lemma erase_ep_simps [simp]:
  "ep_active (erase_ep x) = ep_active x" "ep_retired (erase_ep x) = ep_retired x"
  "ep_generation (erase_ep x) = ep_generation x" "ep_owner (erase_ep x) = ep_owner x"
  "ep_head (erase_ep x) = ep_head x" "ep_count (erase_ep x) = ep_count x"
  "ep_queue (erase_ep x) = ep_queue x"
  by (simp_all add: erase_ep_def)

lemma erase_simps [simp]:
  "k_tasks (erase s) t = erase_task (k_tasks s t)"
  "k_trackers (erase s) x = erase_tracker (k_trackers s x)"
  "k_endpoints (erase s) e = erase_ep (k_endpoints s e)"
  "k_task_slots_used (erase s) = k_task_slots_used s"
  "k_tracker_slots_used (erase s) = k_tracker_slots_used s"
  "k_next_tid (erase s) = k_next_tid s" "k_initial_task_id (erase s) = k_initial_task_id s"
  "k_tm_initialized (erase s) = k_tm_initialized s"
  "k_time_initialized (erase s) = k_time_initialized s"
  "k_slot_allocated (erase s) = k_slot_allocated s" "k_harts (erase s) = k_harts s"
  "k_present_count (erase s) = k_present_count s" "k_vmm (erase s) = k_vmm s"
  "k_ms (erase s) = k_ms s" "k_csr (erase s) = k_csr s" "k_mtimecmp (erase s) = k_mtimecmp s"
  "k_clock (erase s) = k_clock s" "k_reads (erase s) = k_reads s" "k_log (erase s) = k_log s"
  "k_reported (erase s) = k_reported s"
  by (simp_all add: erase_def)

text \<open>Under \<open>sim\<close> every field but the links reads the same in the concrete and the erased state.\<close>

lemma sim_reads:
  assumes "sim G c s"
  shows "t_cpu (k_tasks s t) = t_cpu (k_tasks c t)"
    "t_context (k_tasks s t) = t_context (k_tasks c t)"
    "t_address_space (k_tasks s t) = t_address_space (k_tasks c t)"
    "t_tid (k_tasks s t) = t_tid (k_tasks c t)"
    "t_affinity_pinned (k_tasks s t) = t_affinity_pinned (k_tasks c t)"
    "t_state (k_tasks s t) = t_state (k_tasks c t)"
    "t_state_info (k_tasks s t) = t_state_info (k_tasks c t)"
    "t_tracker (k_tasks s t) = t_tracker (k_tasks c t)"
    "t_stack_bottom (k_tasks s t) = t_stack_bottom (k_tasks c t)"
    "t_detached (k_tasks s t) = t_detached (k_tasks c t)"
    "t_idle (k_tasks s t) = t_idle (k_tasks c t)"
    "t_queued (k_tasks s t) = t_queued (k_tasks c t)"
    "dn_deadline (t_delay (k_tasks s t)) = dn_deadline (t_delay (k_tasks c t))"
    "dn_queued (t_delay (k_tasks s t)) = dn_queued (t_delay (k_tasks c t))"
    "mw_queued (t_message_wait (k_tasks s t)) = mw_queued (t_message_wait (k_tasks c t))"
    "tt_parent (k_trackers s x) = tt_parent (k_trackers c x)"
    "tt_key (k_trackers s x) = tt_key (k_trackers c x)"
    "tt_task (k_trackers s x) = tt_task (k_trackers c x)"
    "tt_status (k_trackers s x) = tt_status (k_trackers c x)"
    "tt_wait (k_trackers s x) = tt_wait (k_trackers c x)"
    "ep_active (k_endpoints s e) = ep_active (k_endpoints c e)"
    "ep_retired (k_endpoints s e) = ep_retired (k_endpoints c e)"
    "ep_generation (k_endpoints s e) = ep_generation (k_endpoints c e)"
    "ep_owner (k_endpoints s e) = ep_owner (k_endpoints c e)"
    "ep_head (k_endpoints s e) = ep_head (k_endpoints c e)"
    "ep_count (k_endpoints s e) = ep_count (k_endpoints c e)"
    "ep_queue (k_endpoints s e) = ep_queue (k_endpoints c e)"
    "k_task_slots_used s = k_task_slots_used c" "k_tracker_slots_used s = k_tracker_slots_used c"
    "k_next_tid s = k_next_tid c" "k_initial_task_id s = k_initial_task_id c"
    "k_tm_initialized s = k_tm_initialized c" "k_time_initialized s = k_time_initialized c"
    "k_slot_allocated s = k_slot_allocated c" "k_harts s = k_harts c"
    "k_present_count s = k_present_count c" "k_vmm s = k_vmm c" "k_ms s = k_ms c"
    "k_csr s = k_csr c" "k_mtimecmp s = k_mtimecmp c" "k_clock s = k_clock c"
    "k_reads s = k_reads c" "k_log s = k_log c" "k_reported s = k_reported c"
    "rq_head (k_run_queues s q) = first (g_rq G q)" "rq_tail (k_run_queues s q) = lastp (g_rq G q)"
    "rq_size (k_run_queues s q) = length (g_rq G q)"
    "k_delay_queues s h = first (g_dq G h)"
    "ep_waiting_head (k_endpoints s e) = first (g_wq G e)"
    "ep_waiting_tail (k_endpoints s e) = lastp (g_wq G e)"
    "ep_waiting_count (k_endpoints s e) = length (g_wq G e)"
    "k_root_tasks s = first (g_ch G None)"
    "tt_first_child (k_trackers s x) = first (g_ch G (Some x))"
  using assms by (simp_all add: sim_def rq_rep_def dq_rep_def wq_rep_def ch_rep_def)

text \<open>Each update helper changes one component of the state.\<close>

lemma upd_task_simps [simp]:
  "k_tasks (upd_task t f s) = (k_tasks s)(t := f (k_tasks s t))"
  "k_trackers (upd_task t f s) = k_trackers s"
  "k_task_slots_used (upd_task t f s) = k_task_slots_used s"
  "k_tracker_slots_used (upd_task t f s) = k_tracker_slots_used s"
  "k_root_tasks (upd_task t f s) = k_root_tasks s" "k_next_tid (upd_task t f s) = k_next_tid s"
  "k_initial_task_id (upd_task t f s) = k_initial_task_id s"
  "k_tm_initialized (upd_task t f s) = k_tm_initialized s"
  "k_run_queues (upd_task t f s) = k_run_queues s"
  "k_delay_queues (upd_task t f s) = k_delay_queues s"
  "k_time_initialized (upd_task t f s) = k_time_initialized s"
  "k_slot_allocated (upd_task t f s) = k_slot_allocated s"
  "k_endpoints (upd_task t f s) = k_endpoints s" "k_harts (upd_task t f s) = k_harts s"
  "k_present_count (upd_task t f s) = k_present_count s" "k_vmm (upd_task t f s) = k_vmm s"
  "k_ms (upd_task t f s) = k_ms s" "k_csr (upd_task t f s) = k_csr s"
  "k_mtimecmp (upd_task t f s) = k_mtimecmp s" "k_clock (upd_task t f s) = k_clock s"
  "k_reads (upd_task t f s) = k_reads s" "k_log (upd_task t f s) = k_log s"
  "k_reported (upd_task t f s) = k_reported s"
  by (simp_all add: upd_task_def)

lemma upd_tracker_simps [simp]:
  "k_trackers (upd_tracker x g s) = (k_trackers s)(x := g (k_trackers s x))"
  "k_tasks (upd_tracker x g s) = k_tasks s"
  "k_task_slots_used (upd_tracker x g s) = k_task_slots_used s"
  "k_tracker_slots_used (upd_tracker x g s) = k_tracker_slots_used s"
  "k_root_tasks (upd_tracker x g s) = k_root_tasks s"
  "k_next_tid (upd_tracker x g s) = k_next_tid s"
  "k_initial_task_id (upd_tracker x g s) = k_initial_task_id s"
  "k_tm_initialized (upd_tracker x g s) = k_tm_initialized s"
  "k_run_queues (upd_tracker x g s) = k_run_queues s"
  "k_delay_queues (upd_tracker x g s) = k_delay_queues s"
  "k_time_initialized (upd_tracker x g s) = k_time_initialized s"
  "k_slot_allocated (upd_tracker x g s) = k_slot_allocated s"
  "k_endpoints (upd_tracker x g s) = k_endpoints s" "k_harts (upd_tracker x g s) = k_harts s"
  "k_present_count (upd_tracker x g s) = k_present_count s" "k_vmm (upd_tracker x g s) = k_vmm s"
  "k_ms (upd_tracker x g s) = k_ms s" "k_csr (upd_tracker x g s) = k_csr s"
  "k_mtimecmp (upd_tracker x g s) = k_mtimecmp s" "k_clock (upd_tracker x g s) = k_clock s"
  "k_reads (upd_tracker x g s) = k_reads s" "k_log (upd_tracker x g s) = k_log s"
  "k_reported (upd_tracker x g s) = k_reported s"
  by (simp_all add: upd_tracker_def)

lemma upd_rq_simps [simp]:
  "k_run_queues (upd_rq q r s) = (k_run_queues s)(q := r (k_run_queues s q))"
  "k_tasks (upd_rq q r s) = k_tasks s" "k_trackers (upd_rq q r s) = k_trackers s"
  "k_task_slots_used (upd_rq q r s) = k_task_slots_used s"
  "k_tracker_slots_used (upd_rq q r s) = k_tracker_slots_used s"
  "k_root_tasks (upd_rq q r s) = k_root_tasks s" "k_next_tid (upd_rq q r s) = k_next_tid s"
  "k_initial_task_id (upd_rq q r s) = k_initial_task_id s"
  "k_tm_initialized (upd_rq q r s) = k_tm_initialized s"
  "k_delay_queues (upd_rq q r s) = k_delay_queues s"
  "k_time_initialized (upd_rq q r s) = k_time_initialized s"
  "k_slot_allocated (upd_rq q r s) = k_slot_allocated s"
  "k_endpoints (upd_rq q r s) = k_endpoints s" "k_harts (upd_rq q r s) = k_harts s"
  "k_present_count (upd_rq q r s) = k_present_count s" "k_vmm (upd_rq q r s) = k_vmm s"
  "k_ms (upd_rq q r s) = k_ms s" "k_csr (upd_rq q r s) = k_csr s"
  "k_mtimecmp (upd_rq q r s) = k_mtimecmp s" "k_clock (upd_rq q r s) = k_clock s"
  "k_reads (upd_rq q r s) = k_reads s" "k_log (upd_rq q r s) = k_log s"
  "k_reported (upd_rq q r s) = k_reported s"
  by (simp_all add: upd_rq_def)

lemma upd_ep_simps [simp]:
  "k_endpoints (upd_ep e f s) = (k_endpoints s)(e := f (k_endpoints s e))"
  "k_tasks (upd_ep e f s) = k_tasks s" "k_trackers (upd_ep e f s) = k_trackers s"
  "k_task_slots_used (upd_ep e f s) = k_task_slots_used s"
  "k_tracker_slots_used (upd_ep e f s) = k_tracker_slots_used s"
  "k_root_tasks (upd_ep e f s) = k_root_tasks s" "k_next_tid (upd_ep e f s) = k_next_tid s"
  "k_initial_task_id (upd_ep e f s) = k_initial_task_id s"
  "k_tm_initialized (upd_ep e f s) = k_tm_initialized s"
  "k_run_queues (upd_ep e f s) = k_run_queues s"
  "k_delay_queues (upd_ep e f s) = k_delay_queues s"
  "k_time_initialized (upd_ep e f s) = k_time_initialized s"
  "k_slot_allocated (upd_ep e f s) = k_slot_allocated s" "k_harts (upd_ep e f s) = k_harts s"
  "k_present_count (upd_ep e f s) = k_present_count s" "k_vmm (upd_ep e f s) = k_vmm s"
  "k_ms (upd_ep e f s) = k_ms s" "k_csr (upd_ep e f s) = k_csr s"
  "k_mtimecmp (upd_ep e f s) = k_mtimecmp s" "k_clock (upd_ep e f s) = k_clock s"
  "k_reads (upd_ep e f s) = k_reads s" "k_log (upd_ep e f s) = k_log s"
  "k_reported (upd_ep e f s) = k_reported s"
  by (simp_all add: upd_ep_def)

lemma upd_hart_simps [simp]:
  "k_harts (upd_hart h f s) = (k_harts s)(h := f (k_harts s h))"
  "k_tasks (upd_hart h f s) = k_tasks s" "k_trackers (upd_hart h f s) = k_trackers s"
  "k_task_slots_used (upd_hart h f s) = k_task_slots_used s"
  "k_tracker_slots_used (upd_hart h f s) = k_tracker_slots_used s"
  "k_root_tasks (upd_hart h f s) = k_root_tasks s" "k_next_tid (upd_hart h f s) = k_next_tid s"
  "k_initial_task_id (upd_hart h f s) = k_initial_task_id s"
  "k_tm_initialized (upd_hart h f s) = k_tm_initialized s"
  "k_run_queues (upd_hart h f s) = k_run_queues s"
  "k_delay_queues (upd_hart h f s) = k_delay_queues s"
  "k_time_initialized (upd_hart h f s) = k_time_initialized s"
  "k_slot_allocated (upd_hart h f s) = k_slot_allocated s"
  "k_endpoints (upd_hart h f s) = k_endpoints s"
  "k_present_count (upd_hart h f s) = k_present_count s" "k_vmm (upd_hart h f s) = k_vmm s"
  "k_ms (upd_hart h f s) = k_ms s" "k_csr (upd_hart h f s) = k_csr s"
  "k_mtimecmp (upd_hart h f s) = k_mtimecmp s" "k_clock (upd_hart h f s) = k_clock s"
  "k_reads (upd_hart h f s) = k_reads s" "k_log (upd_hart h f s) = k_log s"
  "k_reported (upd_hart h f s) = k_reported s"
  by (simp_all add: upd_hart_def)

lemma set_delay_head_simps [simp]:
  "k_delay_queues (set_delay_head h p s) = (k_delay_queues s)(h := p)"
  "k_tasks (set_delay_head h p s) = k_tasks s" "k_trackers (set_delay_head h p s) = k_trackers s"
  "k_task_slots_used (set_delay_head h p s) = k_task_slots_used s"
  "k_tracker_slots_used (set_delay_head h p s) = k_tracker_slots_used s"
  "k_root_tasks (set_delay_head h p s) = k_root_tasks s"
  "k_next_tid (set_delay_head h p s) = k_next_tid s"
  "k_initial_task_id (set_delay_head h p s) = k_initial_task_id s"
  "k_tm_initialized (set_delay_head h p s) = k_tm_initialized s"
  "k_run_queues (set_delay_head h p s) = k_run_queues s"
  "k_time_initialized (set_delay_head h p s) = k_time_initialized s"
  "k_slot_allocated (set_delay_head h p s) = k_slot_allocated s"
  "k_endpoints (set_delay_head h p s) = k_endpoints s"
  "k_harts (set_delay_head h p s) = k_harts s"
  "k_present_count (set_delay_head h p s) = k_present_count s"
  "k_vmm (set_delay_head h p s) = k_vmm s" "k_ms (set_delay_head h p s) = k_ms s"
  "k_csr (set_delay_head h p s) = k_csr s" "k_mtimecmp (set_delay_head h p s) = k_mtimecmp s"
  "k_clock (set_delay_head h p s) = k_clock s" "k_reads (set_delay_head h p s) = k_reads s"
  "k_log (set_delay_head h p s) = k_log s" "k_reported (set_delay_head h p s) = k_reported s"
  by (simp_all add: set_delay_head_def)

lemma printk_simps [simp]:
  "k_log (printk fmt args s) = k_log s @ [(fmt, args)]" "k_tasks (printk fmt args s) = k_tasks s"
  "k_trackers (printk fmt args s) = k_trackers s"
  "k_task_slots_used (printk fmt args s) = k_task_slots_used s"
  "k_tracker_slots_used (printk fmt args s) = k_tracker_slots_used s"
  "k_root_tasks (printk fmt args s) = k_root_tasks s"
  "k_next_tid (printk fmt args s) = k_next_tid s"
  "k_initial_task_id (printk fmt args s) = k_initial_task_id s"
  "k_tm_initialized (printk fmt args s) = k_tm_initialized s"
  "k_run_queues (printk fmt args s) = k_run_queues s"
  "k_delay_queues (printk fmt args s) = k_delay_queues s"
  "k_time_initialized (printk fmt args s) = k_time_initialized s"
  "k_slot_allocated (printk fmt args s) = k_slot_allocated s"
  "k_endpoints (printk fmt args s) = k_endpoints s" "k_harts (printk fmt args s) = k_harts s"
  "k_present_count (printk fmt args s) = k_present_count s" "k_vmm (printk fmt args s) = k_vmm s"
  "k_ms (printk fmt args s) = k_ms s" "k_csr (printk fmt args s) = k_csr s"
  "k_mtimecmp (printk fmt args s) = k_mtimecmp s" "k_clock (printk fmt args s) = k_clock s"
  "k_reads (printk fmt args s) = k_reads s" "k_reported (printk fmt args s) = k_reported s"
  by (simp_all add: printk_def)

lemma read_time_simps [simp]:
  "fst (read_time s) = k_clock s (k_reads s)"
  "snd (read_time s) = s\<lparr>k_reads := Suc (k_reads s)\<rparr>"
  by (simp_all add: read_time_def)

section \<open>Updates that touch no link\<close>

definition task_safe :: "(task \<Rightarrow> task) \<Rightarrow> bool" where
  "task_safe f \<longleftrightarrow> (\<forall>x. erase_task (f x) = f (erase_task x) \<and>
     t_previous (f x) = t_previous x \<and> t_next (f x) = t_next x \<and> t_queued (f x) = t_queued x \<and>
     dn_previous (t_delay (f x)) = dn_previous (t_delay x) \<and>
     dn_next (t_delay (f x)) = dn_next (t_delay x) \<and>
     dn_queued (t_delay (f x)) = dn_queued (t_delay x) \<and>
     mw_previous (t_message_wait (f x)) = mw_previous (t_message_wait x) \<and>
     mw_next (t_message_wait (f x)) = mw_next (t_message_wait x) \<and>
     mw_queued (t_message_wait (f x)) = mw_queued (t_message_wait x))"

lemma sim_upd_task:
  assumes "sim G c s" and "task_safe f"
  shows "sim G (upd_task t f c) (upd_task t f s)"
proof -
  have "erase (upd_task t f s) = upd_task t f (erase s)"
    using assms(2) by (simp add: erase_def upd_task_def task_safe_def fun_eq_iff)
  moreover have "t_previous (k_tasks (upd_task t f s) u) = t_previous (k_tasks s u)"
    "t_next (k_tasks (upd_task t f s) u) = t_next (k_tasks s u)"
    "t_queued (k_tasks (upd_task t f s) u) = t_queued (k_tasks s u)"
    "dn_previous (t_delay (k_tasks (upd_task t f s) u)) = dn_previous (t_delay (k_tasks s u))"
    "dn_next (t_delay (k_tasks (upd_task t f s) u)) = dn_next (t_delay (k_tasks s u))"
    "dn_queued (t_delay (k_tasks (upd_task t f s) u)) = dn_queued (t_delay (k_tasks s u))"
    "mw_previous (t_message_wait (k_tasks (upd_task t f s) u)) = mw_previous (t_message_wait (k_tasks s u))"
    "mw_next (t_message_wait (k_tasks (upd_task t f s) u)) = mw_next (t_message_wait (k_tasks s u))"
    "mw_queued (t_message_wait (k_tasks (upd_task t f s) u)) = mw_queued (t_message_wait (k_tasks s u))"
    for u
    using assms(2) by (simp_all add: task_safe_def)
  ultimately show ?thesis
    using assms(1) by (simp add: sim_def rq_rep_def dq_rep_def wq_rep_def ch_rep_def
        del: upd_task_simps(1))
qed

definition tracker_safe :: "(task_tracker \<Rightarrow> task_tracker) \<Rightarrow> bool" where
  "tracker_safe f \<longleftrightarrow> (\<forall>x. erase_tracker (f x) = f (erase_tracker x) \<and>
     tt_previous_sibling (f x) = tt_previous_sibling x \<and> tt_next_sibling (f x) = tt_next_sibling x \<and>
     tt_first_child (f x) = tt_first_child x \<and> tt_parent (f x) = tt_parent x)"

lemma sim_upd_tracker:
  assumes "sim G c s" and "tracker_safe f"
  shows "sim G (upd_tracker y f c) (upd_tracker y f s)"
proof -
  have "erase (upd_tracker y f s) = upd_tracker y f (erase s)"
    using assms(2) by (simp add: erase_def upd_tracker_def tracker_safe_def fun_eq_iff)
  moreover have "tt_previous_sibling (k_trackers (upd_tracker y f s) u) = tt_previous_sibling (k_trackers s u)"
    "tt_next_sibling (k_trackers (upd_tracker y f s) u) = tt_next_sibling (k_trackers s u)"
    "tt_first_child (k_trackers (upd_tracker y f s) u) = tt_first_child (k_trackers s u)"
    "tt_parent (k_trackers (upd_tracker y f s) u) = tt_parent (k_trackers s u)" for u
    using assms(2) by (simp_all add: tracker_safe_def)
  ultimately show ?thesis
    using assms(1) by (simp add: sim_def rq_rep_def dq_rep_def wq_rep_def ch_rep_def
        del: upd_tracker_simps(1))
qed

definition ep_safe :: "(endpoint \<Rightarrow> endpoint) \<Rightarrow> bool" where
  "ep_safe f \<longleftrightarrow> (\<forall>x. erase_ep (f x) = f (erase_ep x) \<and>
     ep_waiting_head (f x) = ep_waiting_head x \<and> ep_waiting_tail (f x) = ep_waiting_tail x \<and>
     ep_waiting_count (f x) = ep_waiting_count x)"

lemma sim_upd_ep:
  assumes "sim G c s" and "ep_safe f"
  shows "sim G (upd_ep y f c) (upd_ep y f s)"
proof -
  have "erase (upd_ep y f s) = upd_ep y f (erase s)"
    using assms(2) by (simp add: erase_def upd_ep_def ep_safe_def fun_eq_iff)
  with assms show ?thesis
    by (simp add: sim_def rq_rep_def dq_rep_def wq_rep_def ch_rep_def ep_safe_def)
qed

text \<open>Components outside the linked structures.\<close>

lemma sim_other:
  assumes "sim G c s"
  shows "sim G (upd_hart h f c) (upd_hart h f s)"
    "sim G (printk fmt args c) (printk fmt args s)"
    "sim G (c\<lparr>k_reads := r\<rparr>) (s\<lparr>k_reads := r\<rparr>)"
    "sim G (c\<lparr>k_csr := v\<rparr>) (s\<lparr>k_csr := v\<rparr>)"
    "sim G (c\<lparr>k_mtimecmp := w\<rparr>) (s\<lparr>k_mtimecmp := w\<rparr>)"
    "sim G (c\<lparr>k_reported := z\<rparr>) (s\<lparr>k_reported := z\<rparr>)"
    "sim G (c\<lparr>k_slot_allocated := sa\<rparr>) (s\<lparr>k_slot_allocated := sa\<rparr>)"
    "sim G (c\<lparr>k_next_tid := n\<rparr>) (s\<lparr>k_next_tid := n\<rparr>)"
    "sim G (c\<lparr>k_initial_task_id := n\<rparr>) (s\<lparr>k_initial_task_id := n\<rparr>)"
    "sim G (c\<lparr>k_vmm := vm\<rparr>) (s\<lparr>k_vmm := vm\<rparr>)"
    "sim G (c\<lparr>k_ms := ms\<rparr>) (s\<lparr>k_ms := ms\<rparr>)"
    "sim G (c\<lparr>k_task_slots_used := u\<rparr>) (s\<lparr>k_task_slots_used := u\<rparr>)"
  using assms
  by (simp_all add: sim_def rq_rep_def dq_rep_def wq_rep_def ch_rep_def erase_def
      upd_hart_def printk_def)

section \<open>Changing one linked structure\<close>

lemma sim_rq_change:
  assumes "sim G c s" and s': "s' = s\<lparr>k_tasks := T, k_run_queues := R\<rparr>"
    and T: "\<And>u. t_delay (T u) = t_delay (k_tasks s u)"
      "\<And>u. t_message_wait (T u) = t_message_wait (k_tasks s u)"
    and fam: "family (\<lambda>u. t_previous (T u)) (\<lambda>u. t_next (T u)) (\<lambda>u. t_queued (T u)) ls"
    and R: "\<And>q. R q = \<lparr>rq_head = first (ls q), rq_tail = lastp (ls q), rq_size = length (ls q)\<rparr>"
    and c': "c' = c\<lparr>k_tasks := \<lambda>u. erase_task (T u)\<rparr>"
  shows "sim (G\<lparr>g_rq := ls\<rparr>) c' s'"
  using assms(1) fam unfolding sim_def s' c'
  by (simp add: rq_rep_def dq_rep_def wq_rep_def ch_rep_def erase_def T R)

lemma sim_dq_change:
  assumes "sim G c s" and s': "s' = s\<lparr>k_tasks := T, k_delay_queues := D\<rparr>"
    and T: "\<And>u. t_previous (T u) = t_previous (k_tasks s u)" "\<And>u. t_next (T u) = t_next (k_tasks s u)"
      "\<And>u. t_queued (T u) = t_queued (k_tasks s u)"
      "\<And>u. t_message_wait (T u) = t_message_wait (k_tasks s u)"
    and fam: "family (\<lambda>u. dn_previous (t_delay (T u))) (\<lambda>u. dn_next (t_delay (T u)))
      (\<lambda>u. dn_queued (t_delay (T u))) ls"
    and D: "\<And>h. D h = first (ls h)"
    and c': "c' = c\<lparr>k_tasks := \<lambda>u. erase_task (T u)\<rparr>"
  shows "sim (G\<lparr>g_dq := ls\<rparr>) c' s'"
  using assms(1) fam unfolding sim_def s' c'
  by (simp add: rq_rep_def dq_rep_def wq_rep_def ch_rep_def erase_def T D)

lemma sim_wq_change:
  assumes "sim G c s" and s': "s' = s\<lparr>k_tasks := T, k_endpoints := E\<rparr>"
    and T: "\<And>u. t_previous (T u) = t_previous (k_tasks s u)" "\<And>u. t_next (T u) = t_next (k_tasks s u)"
      "\<And>u. t_queued (T u) = t_queued (k_tasks s u)" "\<And>u. t_delay (T u) = t_delay (k_tasks s u)"
    and fam: "family (\<lambda>u. mw_previous (t_message_wait (T u))) (\<lambda>u. mw_next (t_message_wait (T u)))
      (\<lambda>u. mw_queued (t_message_wait (T u))) ls"
    and E: "\<And>e. ep_waiting_head (E e) = first (ls e)" "\<And>e. ep_waiting_tail (E e) = lastp (ls e)"
      "\<And>e. ep_waiting_count (E e) = length (ls e)"
    and c': "c' = c\<lparr>k_tasks := \<lambda>u. erase_task (T u), k_endpoints := \<lambda>e. erase_ep (E e)\<rparr>"
  shows "sim (G\<lparr>g_wq := ls\<rparr>) c' s'"
  using assms(1) fam unfolding sim_def s' c'
  by (simp add: rq_rep_def dq_rep_def wq_rep_def ch_rep_def erase_def T E)

lemma sim_ch_change:
  assumes "sim G c s" and s': "s' = s\<lparr>k_trackers := X, k_tracker_slots_used := U, k_root_tasks := r\<rparr>"
    and fam: "family (\<lambda>x. tt_previous_sibling (X x)) (\<lambda>x. tt_next_sibling (X x))
      (\<lambda>x. U x \<and> x \<notin> out) ls"
    and "r = first (ls None)" and "\<And>p. tt_first_child (X p) = first (ls (Some p))"
    and "\<And>p x. x \<in> set (ls p) \<Longrightarrow> tt_parent (X x) = p"
    and c': "c' = c\<lparr>k_trackers := \<lambda>x. erase_tracker (X x), k_tracker_slots_used := U\<rparr>"
  shows "sim (G\<lparr>g_ch := ls, g_out := out\<rparr>) c' s'"
  using assms(1) fam assms(4-6) unfolding sim_def s' c'
  by (simp add: rq_rep_def dq_rep_def wq_rep_def ch_rep_def erase_def)


end
