(* ===== verification/Run_Queue.thy ===== *)
theory Run_Queue
  imports Kernel_Ghost
begin

text \<open>
  The run queues, class \<^verbatim>\<open>RunQueue\<close> of \<^verbatim>\<open>src/microkernel/core/scheduler.cpp\<close>: intrusive doubly
  linked FIFO lists threaded through the \<^verbatim>\<open>previous\<close>/\<^verbatim>\<open>next\<close> fields of the tasks.  The spinlock
  of a queue makes each operation one step.
\<close>

definition RunQueue_reset :: "rqid \<Rightarrow> kst \<Rightarrow> kst" where
  "RunQueue_reset q s = upd_rq q (\<lambda>_. empty_rq) s"

definition RunQueue_insert :: "rqid \<Rightarrow> nat \<Rightarrow> kst \<Rightarrow> bool \<times> kst" where
  "RunQueue_insert q t s =
     (let tk = k_tasks s t in
      if t_queued tk \<or> dn_queued (t_delay tk) \<or> mw_queued (t_message_wait tk) \<or>
         t_state tk = TS_ended then (False, s)
      else let
        tl = rq_tail (k_run_queues s q);
        s1 = upd_task t (\<lambda>x. x\<lparr>t_previous := tl, t_next := None\<rparr>) s;
        s2 = (case tl of
                Some l \<Rightarrow> upd_task l (\<lambda>x. x\<lparr>t_next := Some t\<rparr>) s1
              | None \<Rightarrow> upd_rq q (\<lambda>r. r\<lparr>rq_head := Some t\<rparr>) s1);
        s3 = upd_rq q (\<lambda>r. r\<lparr>rq_tail := Some t\<rparr>) s2;
        s4 = upd_task t (\<lambda>x. x\<lparr>t_state := TS_ready, t_queued := True\<rparr>) s3
      in (True, upd_rq q (\<lambda>r. r\<lparr>rq_size := Suc (rq_size r)\<rparr>) s4))"

definition RunQueue_remove :: "rqid \<Rightarrow> kst \<Rightarrow> (nat ptr \<times> kst) option" where
  "RunQueue_remove q s =
     (case rq_head (k_run_queues s q) of
        None \<Rightarrow> Some (None, s)
      | Some selected \<Rightarrow>
          let hd' = t_next (k_tasks s selected);
              s1 = upd_rq q (\<lambda>r. r\<lparr>rq_head := hd'\<rparr>) s;
              s2 = (case hd' of
                      Some h \<Rightarrow> upd_task h (\<lambda>x. x\<lparr>t_previous := None\<rparr>) s1
                    | None \<Rightarrow> upd_rq q (\<lambda>r. r\<lparr>rq_tail := None\<rparr>) s1);
              s3 = upd_task selected
                     (\<lambda>x. x\<lparr>t_previous := None, t_next := None, t_queued := False\<rparr>) s2;
              s4 = upd_rq q (\<lambda>r. r\<lparr>rq_size := rq_size r - 1\<rparr>) s3;
              tk = k_tasks s4 selected
          in if t_state tk \<noteq> TS_ready \<or> dn_queued (t_delay tk) \<or> mw_queued (t_message_wait tk)
             then None else Some (Some selected, s4))"

definition RunQueue_size :: "rqid \<Rightarrow> kst \<Rightarrow> nat" where
  "RunQueue_size q s = rq_size (k_run_queues s q)"

section \<open>Refinement to lists\<close>

definition enq_rq :: "rqid \<Rightarrow> nat \<Rightarrow> ghost \<Rightarrow> ghost" where
  "enq_rq q t G = G\<lparr>g_rq := (g_rq G)(q := g_rq G q @ [t])\<rparr>"

definition deq_rq :: "rqid \<Rightarrow> ghost \<Rightarrow> ghost" where
  "deq_rq q G = G\<lparr>g_rq := (g_rq G)(q := tl (g_rq G q))\<rparr>"

definition make_ready :: "task \<Rightarrow> task" where
  "make_ready x = x\<lparr>t_state := TS_ready, t_queued := True\<rparr>"

definition unqueue :: "task \<Rightarrow> task" where
  "unqueue x = x\<lparr>t_queued := False\<rparr>"

lemma sim_rq_family:
  "sim G c s \<Longrightarrow> family (\<lambda>t. t_previous (k_tasks s t)) (\<lambda>t. t_next (k_tasks s t))
     (\<lambda>t. t_queued (k_tasks s t)) (g_rq G)"
  by (simp add: sim_def rq_rep_def)

text \<open>A task is flagged as queued exactly when it is in one of the run queues.\<close>

lemma sim_queued: "sim G c s \<Longrightarrow> t_queued (k_tasks c t) \<longleftrightarrow> (\<exists>q. t \<in> set (g_rq G q))"
  using sim_rq_family [of G c s] by (simp add: family_def sim_reads)

lemma RunQueue_insert_sim:
  assumes S: "sim G c s"
    and "\<not> t_queued (k_tasks c t)" "\<not> dn_queued (t_delay (k_tasks c t))"
    "\<not> mw_queued (t_message_wait (k_tasks c t))" "t_state (k_tasks c t) \<noteq> TS_ended"
  shows "\<exists>s'. RunQueue_insert q t s = (True, s') \<and> sim (enq_rq q t G) (upd_task t make_ready c) s'"
proof -
  note R = sim_reads [OF S]
  let ?tl = "lastp (g_rq G q)"
  let ?T = "\<lambda>u. if u = t
      then (k_tasks s t)\<lparr>t_previous := ?tl, t_next := None, t_state := TS_ready, t_queued := True\<rparr>
      else if Some u = ?tl then (k_tasks s u)\<lparr>t_next := Some t\<rparr> else k_tasks s u"
  let ?R = "(k_run_queues s)(q := \<lparr>rq_head = first (g_rq G q @ [t]), rq_tail = Some t,
      rq_size = Suc (length (g_rq G q))\<rparr>)"
  have rq: "k_run_queues s p = \<lparr>rq_head = first (g_rq G p), rq_tail = lastp (g_rq G p),
      rq_size = length (g_rq G p)\<rparr>" for p
    using simD(2) [OF S] by (simp add: rq_rep_def)
  have tl: "?tl \<noteq> Some t"
    using sim_queued [OF S] assms(2) by (auto dest: lastp_mem)
  have ok: "RunQueue_insert q t s = (True, s\<lparr>k_tasks := ?T, k_run_queues := ?R\<rparr>)"
    using assms(2-) tl by (auto simp: RunQueue_insert_def R Let_def upd_task_def upd_rq_def rq
        fun_eq_iff split: option.splits)
  have fam: "family (\<lambda>u. t_previous (?T u)) (\<lambda>u. t_next (?T u)) (\<lambda>u. t_queued (?T u))
      ((g_rq G)(q := g_rq G q @ [t]))"
    by (rule family_push_back [OF sim_rq_family [OF S]]) (use assms(2) R in auto)
  have "sim (enq_rq q t G) (upd_task t make_ready c) (s\<lparr>k_tasks := ?T, k_run_queues := ?R\<rparr>)"
    unfolding enq_rq_def
    by (rule sim_rq_change [OF S refl _ _ fam])
      (auto simp: rq simD(1) [OF S] upd_task_def erase_def fun_eq_iff erase_task_def make_ready_def)
  with ok show ?thesis by blast
qed

lemma RunQueue_insert_frame:
  assumes "RunQueue_insert q t s = (ok, s')"
  shows "t_context (k_tasks s' u) = t_context (k_tasks s u)" "k_endpoints s' = k_endpoints s"
    "k_slot_allocated s' = k_slot_allocated s"
  using assms by (auto simp: RunQueue_insert_def Let_def split: if_splits option.splits)

lemma RunQueue_remove_empty:
  assumes "sim G c s" and "g_rq G q = []"
  shows "RunQueue_remove q s = Some (None, s)"
  using assms by (simp add: RunQueue_remove_def sim_reads)

lemma RunQueue_remove_sim:
  assumes S: "sim G c s" and ls: "g_rq G q = t # ys"
    and "t_state (k_tasks c t) = TS_ready" "\<not> dn_queued (t_delay (k_tasks c t))"
    "\<not> mw_queued (t_message_wait (k_tasks c t))"
  shows "\<exists>s'. RunQueue_remove q s = Some (Some t, s') \<and> sim (deq_rq q G) (upd_task t unqueue c) s'"
proof -
  note R = sim_reads [OF S]
  let ?T = "\<lambda>u. if u = t then (k_tasks s t)\<lparr>t_previous := None, t_next := None, t_queued := False\<rparr>
      else if Some u = first ys then (k_tasks s u)\<lparr>t_previous := None\<rparr> else k_tasks s u"
  let ?R = "(k_run_queues s)(q := \<lparr>rq_head = first ys, rq_tail = lastp ys, rq_size = length ys\<rparr>)"
  have rq: "k_run_queues s p = \<lparr>rq_head = first (g_rq G p), rq_tail = lastp (g_rq G p),
      rq_size = length (g_rq G p)\<rparr>" for p
    using simD(2) [OF S] by (simp add: rq_rep_def)
  have nx: "t_next (k_tasks s t) = first ys"
    using family_links(2) [OF sim_rq_family [OF S], of q "[]" t ys] ls by simp
  have hd: "first ys \<noteq> Some t"
    using familyD(2) [OF sim_rq_family [OF S], of q] ls by (auto dest: first_mem)
  have ok: "RunQueue_remove q s = Some (Some t, s\<lparr>k_tasks := ?T, k_run_queues := ?R\<rparr>)"
    using assms(3-) hd by (auto simp: RunQueue_remove_def R Let_def upd_task_def upd_rq_def rq ls nx
        fun_eq_iff split: option.splits)
  have fam: "family (\<lambda>u. t_previous (?T u)) (\<lambda>u. t_next (?T u)) (\<lambda>u. t_queued (?T u))
      ((g_rq G)(q := ys))"
    by (rule family_pop_front [OF sim_rq_family [OF S] ls]) auto
  have "sim (deq_rq q G) (upd_task t unqueue c) (s\<lparr>k_tasks := ?T, k_run_queues := ?R\<rparr>)"
    unfolding deq_rq_def ls list.sel
    by (rule sim_rq_change [OF S refl _ _ fam])
      (auto simp: rq simD(1) [OF S] upd_task_def erase_def fun_eq_iff erase_task_def unqueue_def)
  with ok show ?thesis by blast
qed

section \<open>The run queue as a queue\<close>

text \<open>
  Run queue \<open>q\<close> holds the tasks \<open>xs\<close>, all of a set \<open>D\<close> of tasks that are in no other queue and
  have not ended.
\<close>

definition rq_holds :: "rqid \<Rightarrow> nat set \<Rightarrow> kst \<Rightarrow> nat list \<Rightarrow> bool" where
  "rq_holds q D s xs \<longleftrightarrow> (\<exists>G c. sim G c s \<and> g_rq G q = xs \<and> set xs \<subseteq> D \<and>
     (\<forall>t \<in> D. (\<forall>q'. t \<in> set (g_rq G q') \<longrightarrow> q' = q) \<and> \<not> dn_queued (t_delay (k_tasks c t)) \<and>
        \<not> mw_queued (t_message_wait (k_tasks c t)) \<and> t_state (k_tasks c t) \<noteq> TS_ended) \<and>
     (\<forall>t \<in> set xs. t_state (k_tasks c t) = TS_ready))"

definition rq_put :: "rqid \<Rightarrow> nat \<Rightarrow> kst \<Rightarrow> kst option" where
  "rq_put q t s = (case RunQueue_insert q t s of (ok, s') \<Rightarrow> if ok then Some s' else None)"

interpretation rqf: fifo "rq_holds q D" "\<lambda>xs t. t \<in> D \<and> t \<notin> set xs" "rq_put q" "RunQueue_remove q" for q D
proof unfold_locales
  fix s xs a assume h: "rq_holds q D s xs" and r: "a \<in> D \<and> a \<notin> set xs"
  from h obtain G c where g: "sim G c s" "g_rq G q = xs" "set xs \<subseteq> D"
    "\<And>t. t \<in> D \<Longrightarrow> (\<forall>q'. t \<in> set (g_rq G q') \<longrightarrow> q' = q) \<and> \<not> dn_queued (t_delay (k_tasks c t)) \<and>
        \<not> mw_queued (t_message_wait (k_tasks c t)) \<and> t_state (k_tasks c t) \<noteq> TS_ended"
    "\<And>t. t \<in> set xs \<Longrightarrow> t_state (k_tasks c t) = TS_ready" unfolding rq_holds_def by blast
  have "\<not> t_queued (k_tasks c a)" using sim_queued [OF g(1), of a] g(2) g(4) [of a] r by blast
  then obtain s' where s': "RunQueue_insert q a s = (True, s')" "sim (enq_rq q a G) (upd_task a make_ready c) s'"
    using RunQueue_insert_sim [OF g(1), of a q] g(4) [of a] r by auto
  have "rq_holds q D s' (xs @ [a])"
    unfolding rq_holds_def
    by (rule exI [of _ "enq_rq q a G"], rule exI [of _ "upd_task a make_ready c"])
      (use s'(2) g r in \<open>auto simp: enq_rq_def make_ready_def\<close>)
  then show "\<exists>s'. rq_put q a s = Some s' \<and> rq_holds q D s' (xs @ [a])" using s'(1) by (simp add: rq_put_def)
next
  fix s xs assume h: "rq_holds q D s xs"
  from h obtain G c where g: "sim G c s" "g_rq G q = xs" "set xs \<subseteq> D"
    "\<And>t. t \<in> D \<Longrightarrow> (\<forall>q'. t \<in> set (g_rq G q') \<longrightarrow> q' = q) \<and> \<not> dn_queued (t_delay (k_tasks c t)) \<and>
        \<not> mw_queued (t_message_wait (k_tasks c t)) \<and> t_state (k_tasks c t) \<noteq> TS_ended"
    "\<And>t. t \<in> set xs \<Longrightarrow> t_state (k_tasks c t) = TS_ready" unfolding rq_holds_def by blast
  show "\<exists>s'. RunQueue_remove q s = Some (if xs = [] then None else Some (hd xs), s') \<and> rq_holds q D s' (tl xs)"
  proof (cases xs)
    case Nil
    then show ?thesis using RunQueue_remove_empty [OF g(1)] g(2) h by simp
  next
    case (Cons t ys)
    then obtain s' where s': "RunQueue_remove q s = Some (Some t, s')" "sim (deq_rq q G) (upd_task t unqueue c) s'"
      using RunQueue_remove_sim [OF g(1), of q t ys] g(2,3) g(4) [of t] g(5) [of t] by auto
    have "rq_holds q D s' ys"
      unfolding rq_holds_def
      by (rule exI [of _ "deq_rq q G"], rule exI [of _ "upd_task t unqueue c"])
        (use s'(2) g Cons in \<open>auto simp: deq_rq_def unqueue_def split: if_splits\<close>)
    then show ?thesis using s'(1) Cons by simp
  qed
qed

end
