(* ===== verification/Delay_Queue.thy ===== *)
theory Delay_Queue
  imports Kernel_Ghost
begin

text \<open>
  The per-hart sleep queues, class \<^verbatim>\<open>DelayQueue\<close> of \<^verbatim>\<open>src/microkernel/core/time_manager.cpp\<close>:
  doubly linked lists ordered by deadline, threaded through the \<^verbatim>\<open>delay\<close> nodes of the tasks.
  The loop that looks for the insertion point follows the links; it returns \<open>None\<close> when it
  does not end.
\<close>

definition DelayQueue_reset :: "nat \<Rightarrow> kst \<Rightarrow> kst" where
  "DelayQueue_reset h s = set_delay_head h None s"

partial_function (option) dq_position ::
    "u64 \<Rightarrow> nat ptr \<Rightarrow> nat ptr \<Rightarrow> kst \<Rightarrow> (nat ptr \<times> nat ptr) option" where
  "dq_position deadline previous cursor s =
     (case cursor of
        None \<Rightarrow> Some (previous, None)
      | Some c \<Rightarrow>
          if dn_deadline (t_delay (k_tasks s c)) \<le> deadline
          then dq_position deadline (Some c) (dn_next (t_delay (k_tasks s c))) s
          else Some (previous, Some c))"

definition DelayQueue_insert :: "nat \<Rightarrow> nat \<Rightarrow> u64 \<Rightarrow> kst \<Rightarrow> (bool \<times> kst) option" where
  "DelayQueue_insert h t deadline s =
     (let tk = k_tasks s t in
      if dn_queued (t_delay tk) \<or> t_queued tk \<or> t_state tk = TS_ended then Some (False, s)
      else do {
        (previous, cursor) \<leftarrow> dq_position deadline None (k_delay_queues s h) s;
        let s1 = upd_delay t (\<lambda>d. d\<lparr>dn_previous := previous, dn_next := cursor,
               dn_deadline := deadline, dn_queued := True\<rparr>) s;
        let s2 = (case previous of
               Some p \<Rightarrow> upd_delay p (\<lambda>d. d\<lparr>dn_next := Some t\<rparr>) s1
             | None \<Rightarrow> set_delay_head h (Some t) s1);
        let s3 = (case cursor of
               Some c \<Rightarrow> upd_delay c (\<lambda>d. d\<lparr>dn_previous := Some t\<rparr>) s2
             | None \<Rightarrow> s2);
        Some (True, s3)
      })"

definition DelayQueue_remove_expired :: "nat \<Rightarrow> u64 \<Rightarrow> kst \<Rightarrow> nat ptr \<times> kst" where
  "DelayQueue_remove_expired h now s =
     (case k_delay_queues s h of
        None \<Rightarrow> (None, s)
      | Some t \<Rightarrow>
          if dn_deadline (t_delay (k_tasks s t)) > now then (None, s)
          else let
            hd' = dn_next (t_delay (k_tasks s t));
            s1 = set_delay_head h hd' s;
            s2 = (case hd' of
                    Some n \<Rightarrow> upd_delay n (\<lambda>d. d\<lparr>dn_previous := None\<rparr>) s1
                  | None \<Rightarrow> s1)
          in (Some t, upd_delay t
                (\<lambda>d. d\<lparr>dn_previous := None, dn_next := None, dn_queued := False\<rparr>) s2))"

definition DelayQueue_ticks_until_next :: "nat \<Rightarrow> u64 \<Rightarrow> u64 \<Rightarrow> kst \<Rightarrow> u64" where
  "DelayQueue_ticks_until_next h now maximum s =
     (case k_delay_queues s h of
        None \<Rightarrow> maximum
      | Some t \<Rightarrow>
          let deadline = dn_deadline (t_delay (k_tasks s t)) in
          if deadline \<le> now then 1
          else let remaining = deadline - now in if remaining < maximum then remaining else maximum)"

definition task_timeslice_ticks :: u64 where
  "task_timeslice_ticks = 100000"

definition kIdleTimesliceTicks :: u64 where
  "kIdleTimesliceTicks = 1000000"

definition idle_timeslice_ticks :: "nat \<Rightarrow> kst \<Rightarrow> u64 \<times> kst" where
  "idle_timeslice_ticks h s =
     (case hl_delay_list (k_harts s h) of
        None \<Rightarrow> (kIdleTimesliceTicks, s)
      | Some q \<Rightarrow>
          let (now, s1) = read_time s in
          (DelayQueue_ticks_until_next q now kIdleTimesliceTicks s1, s1))"

definition kFrequencyHz :: u64 where
  "kFrequencyHz = 10000000"

definition kNanosecondsPerSecond :: u64 where
  "kNanosecondsPerSecond = 1000000000"

definition duration_to_ticks :: "u64 \<Rightarrow> u64 \<Rightarrow> u64" where
  "duration_to_ticks seconds nanoseconds =
     (if nanoseconds \<ge> kNanosecondsPerSecond then 0
      else if seconds > UINT64_MAX div kFrequencyHz then 0
      else let
        seconds_ticks = seconds * kFrequencyHz;
        nanoseconds_ticks = (nanoseconds * kFrequencyHz + kNanosecondsPerSecond - 1) div kNanosecondsPerSecond
      in if seconds_ticks > UINT64_MAX - nanoseconds_ticks then 0
         else let ticks = seconds_ticks + nanoseconds_ticks in if ticks = 0 then 1 else ticks)"

section \<open>Refinement to ordered lists\<close>

abbreviation deadline_of :: "kst \<Rightarrow> nat \<Rightarrow> u64" where
  "deadline_of s t \<equiv> dn_deadline (t_delay (k_tasks s t))"

definition enq_dq :: "nat \<Rightarrow> nat \<Rightarrow> u64 \<Rightarrow> kst \<Rightarrow> ghost \<Rightarrow> ghost" where
  "enq_dq h t d c G = G\<lparr>g_dq := (g_dq G)(h :=
     takeWhile (\<lambda>u. deadline_of c u \<le> d) (g_dq G h) @ t #
     dropWhile (\<lambda>u. deadline_of c u \<le> d) (g_dq G h))\<rparr>"

definition deq_dq :: "nat \<Rightarrow> ghost \<Rightarrow> ghost" where
  "deq_dq h G = G\<lparr>g_dq := (g_dq G)(h := tl (g_dq G h))\<rparr>"

definition make_delayed :: "u64 \<Rightarrow> task \<Rightarrow> task" where
  "make_delayed d x = x\<lparr>t_delay := (t_delay x)\<lparr>dn_deadline := d, dn_queued := True\<rparr>\<rparr>"

definition undelay :: "task \<Rightarrow> task" where
  "undelay x = x\<lparr>t_delay := (t_delay x)\<lparr>dn_queued := False\<rparr>\<rparr>"

lemma sim_dq_family:
  "sim G c s \<Longrightarrow> family (\<lambda>t. dn_previous (t_delay (k_tasks s t))) (\<lambda>t. dn_next (t_delay (k_tasks s t)))
     (\<lambda>t. dn_queued (t_delay (k_tasks s t))) (g_dq G)"
  by (simp add: sim_def dq_rep_def)

lemma sim_delayed: "sim G c s \<Longrightarrow> dn_queued (t_delay (k_tasks c t)) \<longleftrightarrow> (\<exists>h. t \<in> set (g_dq G h))"
  using sim_dq_family [of G c s] by (simp add: family_def sim_reads)

text \<open>On a well-linked queue the search ends, between the last earlier and the first later entry.\<close>

lemma dq_position_chain:
  assumes "chain P (\<lambda>t. dn_next (t_delay (k_tasks s t))) p zs"
  shows "dq_position d p (first zs) s =
    Some (if takeWhile (\<lambda>u. deadline_of s u \<le> d) zs = [] then p
          else lastp (takeWhile (\<lambda>u. deadline_of s u \<le> d) zs),
          first (dropWhile (\<lambda>u. deadline_of s u \<le> d) zs))"
  using assms
proof (induction zs arbitrary: p)
  case Nil
  then show ?case by (simp add: dq_position.simps)
next
  case (Cons z zs)
  then have IH: "dq_position d (Some z) (first zs) s =
    Some (if takeWhile (\<lambda>u. deadline_of s u \<le> d) zs = [] then Some z
          else lastp (takeWhile (\<lambda>u. deadline_of s u \<le> d) zs),
          first (dropWhile (\<lambda>u. deadline_of s u \<le> d) zs))"
    by simp
  show ?case
    using Cons.prems by (subst dq_position.simps) (simp add: IH)
qed

lemma DelayQueue_insert_sim:
  assumes S: "sim G c s"
    and "\<not> t_queued (k_tasks c t)" "\<not> dn_queued (t_delay (k_tasks c t))" "t_state (k_tasks c t) \<noteq> TS_ended"
  shows "\<exists>s'. DelayQueue_insert h t d s = Some (True, s') \<and>
    sim (enq_dq h t d c G) (upd_task t (make_delayed d) c) s'"
proof -
  note R = sim_reads [OF S]
  define xs ys where "xs = takeWhile (\<lambda>u. deadline_of c u \<le> d) (g_dq G h)"
    and "ys = dropWhile (\<lambda>u. deadline_of c u \<le> d) (g_dq G h)"
  then have ls: "g_dq G h = xs @ ys" by simp
  let ?T = "\<lambda>u. if u = t then (k_tasks s t)\<lparr>t_delay := (t_delay (k_tasks s t))\<lparr>
        dn_previous := lastp xs, dn_next := first ys, dn_deadline := d, dn_queued := True\<rparr>\<rparr>
      else if Some u = lastp xs
        then (k_tasks s u)\<lparr>t_delay := (t_delay (k_tasks s u))\<lparr>dn_next := Some t\<rparr>\<rparr>
      else if Some u = first ys
        then (k_tasks s u)\<lparr>t_delay := (t_delay (k_tasks s u))\<lparr>dn_previous := Some t\<rparr>\<rparr>
      else k_tasks s u"
  let ?D = "(k_delay_queues s)(h := first (xs @ t # ys))"
  have dq: "k_delay_queues s p = first (g_dq G p)" for p
    by (rule R)
  have "\<forall>h. t \<notin> set (g_dq G h)"
    using sim_delayed [OF S, of t] assms(3) by blast
  then have mem: "t \<notin> set xs" "t \<notin> set ys"
    using ls by (metis Un_iff set_append)+
  have ends: "lastp xs \<noteq> Some t" "first ys \<noteq> Some t"
    using mem by (blast dest: lastp_mem first_mem)+
  have disj: "\<not> (Some u = lastp xs \<and> Some u = first ys)" for u
    using familyD(2) [OF sim_dq_family [OF S], of h] lastp_mem [of xs u] first_mem [of ys u]
    by (auto simp: ls)
  have pos: "dq_position d None (k_delay_queues s h) s = Some (lastp xs, first ys)"
    using dq_position_chain [OF familyD(1) [OF sim_dq_family [OF S], where q = h], of d]
    unfolding R xs_def [symmetric] ys_def [symmetric] by (simp split: if_splits)
  have ok: "DelayQueue_insert h t d s = Some (True, s\<lparr>k_tasks := ?T, k_delay_queues := ?D\<rparr>)"
  proof (cases "lastp xs")
    case None
    with ends assms(2-) show ?thesis
      unfolding DelayQueue_insert_def pos Let_def R(6) R(12) R(14)
      by (cases "first ys"; simp; intro kst.equality)
        (simp_all add: upd_delay_def set_delay_head_def fun_eq_iff)
  next
    case (Some l)
    then have "first ys \<noteq> Some l" and D: "?D = k_delay_queues s"
      using disj [of l] by (auto simp: fun_eq_iff dq ls)
    with Some ends assms(2-) show ?thesis
      unfolding DelayQueue_insert_def pos Let_def D R(6) R(12) R(14)
      by (cases "first ys"; simp; intro kst.equality) (simp_all add: upd_delay_def fun_eq_iff)
  qed
  have fam: "family (\<lambda>u. dn_previous (t_delay (?T u))) (\<lambda>u. dn_next (t_delay (?T u)))
      (\<lambda>u. dn_queued (t_delay (?T u))) ((g_dq G)(h := xs @ t # ys))"
    using assms(3) disj by (intro family_insert [OF sim_dq_family [OF S] ls]) (simp_all add: R(14))
  have "sim (enq_dq h t d c G) (upd_task t (make_delayed d) c) (s\<lparr>k_tasks := ?T, k_delay_queues := ?D\<rparr>)"
    unfolding enq_dq_def xs_def [symmetric] ys_def [symmetric]
    by (rule sim_dq_change [OF S refl _ _ _ _ fam])
      (auto simp: dq simD(1) [OF S] upd_task_def erase_def fun_eq_iff erase_task_def make_delayed_def)
  with ok show ?thesis by blast
qed

lemma DelayQueue_remove_none:
  assumes "sim G c s" and "g_dq G h = [] \<or> deadline_of c (hd (g_dq G h)) > now"
  shows "DelayQueue_remove_expired h now s = (None, s)"
  using assms by (cases "g_dq G h") (auto simp: DelayQueue_remove_expired_def sim_reads)

lemma DelayQueue_remove_sim:
  assumes S: "sim G c s" and ls: "g_dq G h = t # ys" and "deadline_of c t \<le> now"
  shows "\<exists>s'. DelayQueue_remove_expired h now s = (Some t, s') \<and>
    sim (deq_dq h G) (upd_task t undelay c) s'"
proof -
  note R = sim_reads [OF S]
  let ?T = "\<lambda>u. if u = t then (k_tasks s t)\<lparr>t_delay := (t_delay (k_tasks s t))\<lparr>dn_previous := None,
        dn_next := None, dn_queued := False\<rparr>\<rparr>
      else if Some u = first ys then (k_tasks s u)\<lparr>t_delay := (t_delay (k_tasks s u))\<lparr>dn_previous := None\<rparr>\<rparr>
      else k_tasks s u"
  let ?D = "(k_delay_queues s)(h := first ys)"
  have dq: "k_delay_queues s p = first (g_dq G p)" for p
    by (rule R)
  have nx: "dn_next (t_delay (k_tasks s t)) = first ys"
    using family_links(2) [OF sim_dq_family [OF S], of h "[]" t ys] ls by simp
  have hd: "first ys \<noteq> Some t"
    using familyD(2) [OF sim_dq_family [OF S], of h] ls by (auto dest: first_mem)
  have ok: "DelayQueue_remove_expired h now s = (Some t, s\<lparr>k_tasks := ?T, k_delay_queues := ?D\<rparr>)"
    using assms(3-) hd by (auto simp: DelayQueue_remove_expired_def R Let_def upd_delay_def upd_task_def
        set_delay_head_def ls nx fun_eq_iff split: option.splits)
  have fam: "family (\<lambda>u. dn_previous (t_delay (?T u))) (\<lambda>u. dn_next (t_delay (?T u)))
      (\<lambda>u. dn_queued (t_delay (?T u))) ((g_dq G)(h := ys))"
    by (rule family_pop_front [OF sim_dq_family [OF S] ls]) auto
  have "sim (deq_dq h G) (upd_task t undelay c) (s\<lparr>k_tasks := ?T, k_delay_queues := ?D\<rparr>)"
    unfolding deq_dq_def ls list.sel
    by (rule sim_dq_change [OF S refl _ _ _ _ fam])
      (auto simp: dq simD(1) [OF S] upd_task_def erase_def fun_eq_iff erase_task_def undelay_def)
  with ok show ?thesis by blast
qed

text \<open>The ticks until the next deadline, over the abstract queue.\<close>

definition ticks_to_deadline :: "u64 \<Rightarrow> u64 \<Rightarrow> u64 list \<Rightarrow> u64" where
  "ticks_to_deadline now maximum ds =
     (case ds of [] \<Rightarrow> maximum | d # _ \<Rightarrow> if d \<le> now then 1 else min (d - now) maximum)"

lemma DelayQueue_ticks_sim:
  assumes "sim G c s"
  shows "DelayQueue_ticks_until_next h now maximum s =
    ticks_to_deadline now maximum (map (deadline_of c) (g_dq G h))"
  using assms by (cases "g_dq G h")
    (auto simp: DelayQueue_ticks_until_next_def sim_reads ticks_to_deadline_def Let_def)

end
