(* ===== verification/Scheduler.thy ===== *)
theory Scheduler
  imports Run_Queue Delay_Queue
begin

text \<open>
  The scheduler, class \<^verbatim>\<open>Scheduler\<close> of \<^verbatim>\<open>src/microkernel/core/scheduler.cpp\<close>, with the two
  accessors of the current task it uses from \<^verbatim>\<open>task_manager.cpp\<close>.  The executing hart,
  \<^verbatim>\<open>hart::current()\<close>, is the argument \<open>h\<close>.
\<close>

definition get_current_task :: "nat \<Rightarrow> kst \<Rightarrow> nat ptr" where
  "get_current_task h s = hl_current_task (k_harts s h)"

definition set_current_task :: "nat \<Rightarrow> nat \<Rightarrow> kst \<Rightarrow> kst option" where
  "set_current_task h t s =
     (let tk = k_tasks s t in
      if t_state tk = TS_ended \<or> t_queued tk \<or> dn_queued (t_delay tk) \<or>
         mw_queued (t_message_wait tk) then None
      else Some (upd_hart h (\<lambda>l. l\<lparr>hl_current_task := Some t\<rparr>)
             (upd_task t (\<lambda>x. x\<lparr>t_cpu := Some h, t_state := TS_running\<rparr>) s)))"

definition Scheduler_initialize :: "kst \<Rightarrow> kst" where
  "Scheduler_initialize s =
     fold (\<lambda>i. RunQueue_reset (Local_rq i)) [0..<kMaxHarts] (RunQueue_reset Global_rq s)"

definition Scheduler_bind_hart :: "nat \<Rightarrow> kst \<Rightarrow> kst option" where
  "Scheduler_bind_hart h s = do {
     let index = unat (hl_index (k_harts s h));
     park_unless (index < kMaxHarts);
     Some (upd_hart h (\<lambda>l. l\<lparr>hl_scheduler := True,
       hl_scheduler_extra := Some (Local_rq index)\<rparr>) s)
   }"

definition Scheduler_add_task :: "nat \<Rightarrow> kst \<Rightarrow> bool \<times> kst" where
  "Scheduler_add_task t s =
     (let tk = k_tasks s t in
      if t_state tk = TS_ended \<or> t_idle tk then (False, s)
      else case t_cpu tk of
        None \<Rightarrow> (False, s)
      | Some c \<Rightarrow>
          if dn_queued (t_delay tk) \<or> t_queued tk \<or> mw_queued (t_message_wait tk) then (False, s)
          else if t_affinity_pinned tk \<noteq> 0 then
            (case hl_scheduler_extra (k_harts s c) of
               None \<Rightarrow> (False, s)
             | Some q \<Rightarrow> RunQueue_insert q t s)
          else RunQueue_insert Global_rq t s)"

definition Scheduler_return_runnable :: "nat \<Rightarrow> kst \<Rightarrow> kst option" where
  "Scheduler_return_runnable h s =
     (case get_current_task h s of
        None \<Rightarrow> Some s
      | Some current \<Rightarrow>
          if t_idle (k_tasks s current) then Some s
          else let (ok, s1) = Scheduler_add_task current s in if ok then Some s1 else None)"

definition Scheduler_set_next_runnable :: "nat \<Rightarrow> kst \<Rightarrow> (nat \<times> kst) option" where
  "Scheduler_set_next_runnable h s = do {
     (selected1, s1) \<leftarrow> (case hl_scheduler_extra (k_harts s h) of
         None \<Rightarrow> Some (None, s)
       | Some q \<Rightarrow> RunQueue_remove q s);
     (selected2, s2) \<leftarrow> (if selected1 = None \<and> RunQueue_size Global_rq s1 \<noteq> 0
       then RunQueue_remove Global_rq s1 else Some (selected1, s1));
     let (selected3, s3) = (case selected2 of
         None \<Rightarrow> let (ticks, s') = idle_timeslice_ticks h s2 in
           (hl_idle_task (k_harts s2 h), upd_hart h (\<lambda>l. l\<lparr>hl_timeslice_ticks := ticks\<rparr>) s')
       | Some t \<Rightarrow>
           (Some t, upd_hart h (\<lambda>l. l\<lparr>hl_timeslice_ticks := task_timeslice_ticks\<rparr>) s2));
     t \<leftarrow> selected3;
     s4 \<leftarrow> set_current_task h t s3;
     Some (t, s4)
   }"

text \<open>Making a task runnable changes neither a saved context nor an endpoint.\<close>

lemma add_task_frame:
  assumes "Scheduler_add_task t s = (ok, s')"
  shows "t_context (k_tasks s' u) = t_context (k_tasks s u)" "k_endpoints s' = k_endpoints s"
    "k_slot_allocated s' = k_slot_allocated s"
  using assms RunQueue_insert_frame
  by (auto simp: Scheduler_add_task_def Let_def split: if_splits option.splits)

end
