(* ===== verification/Endpoint_Ipc.thy ===== *)
theory Endpoint_Ipc
  imports Scheduler
begin

text \<open>
  Endpoint message passing, class \<^verbatim>\<open>EndpointManager\<close> of \<^verbatim>\<open>src/microkernel/core/ipc_manager.cpp\<close>:
  a fixed table of endpoints, each with a ring buffer of pending messages and a FIFO of blocked
  receivers.  Error codes are integers as in the header; a handle is one 64-bit word.  The
  endpoint and table locks make each operation one step.
\<close>

section \<open>Handles and error codes\<close>

definition kErrorInvalidArgument :: int where "kErrorInvalidArgument = -22"

definition kErrorAgain :: int where "kErrorAgain = -11"

definition kErrorAccess :: int where "kErrorAccess = -13"

definition kErrorNoSpace :: int where "kErrorNoSpace = -28"

definition kErrorIdrm :: int where "kErrorIdrm = -43"

definition kMaxGeneration :: u32 where "kMaxGeneration = 0x7FFFFFFF"

record endpoint_handle =
  eh_index :: u32
  eh_generation :: u32

definition EndpointHandle_raw :: "endpoint_handle \<Rightarrow> u64" where
  "EndpointHandle_raw eh = push_bit 32 (ucast (eh_generation eh)) OR ucast (eh_index eh)"

definition EndpointHandle_from_raw :: "u64 \<Rightarrow> endpoint_handle" where
  "EndpointHandle_from_raw v = \<lparr>eh_index = ucast v, eh_generation = ucast (drop_bit 32 v)\<rparr>"

definition handle_well_formed :: "endpoint_handle \<Rightarrow> bool" where
  "handle_well_formed eh \<longleftrightarrow> unat (eh_index eh) < kMaxEndpoints \<and> eh_generation eh \<noteq> 0 \<and>
     eh_generation eh \<le> kMaxGeneration"

datatype recv_status = RS_delivered | RS_blocked | RS_rejected

record recv_result =
  rr_status :: recv_status
  rr_message :: message
  rr_error :: int

section \<open>Waiting receivers\<close>

definition check_endpoint_invariant :: "endpoint \<Rightarrow> unit option" where
  "check_endpoint_invariant ep = park_unless (\<not> (ep_waiting_count ep > 0 \<and> ep_count ep > 0))"

definition waiter_push :: "nat \<Rightarrow> nat \<Rightarrow> kst \<Rightarrow> kst" where
  "waiter_push e w s =
     (let tl = ep_waiting_tail (k_endpoints s e);
          s1 = upd_mw w (\<lambda>m. m\<lparr>mw_previous := tl, mw_next := None\<rparr>) s;
          s2 = (case tl of
                  Some l \<Rightarrow> upd_mw l (\<lambda>m. m\<lparr>mw_next := Some w\<rparr>) s1
                | None \<Rightarrow> upd_ep e (\<lambda>x. x\<lparr>ep_waiting_head := Some w\<rparr>) s1);
          s3 = upd_ep e (\<lambda>x. x\<lparr>ep_waiting_tail := Some w\<rparr>) s2;
          s4 = upd_mw w (\<lambda>m. m\<lparr>mw_queued := True\<rparr>) s3
      in upd_ep e (\<lambda>x. x\<lparr>ep_waiting_count := ep_waiting_count x + 1\<rparr>) s4)"

definition waiter_pop :: "nat \<Rightarrow> kst \<Rightarrow> nat ptr \<times> kst" where
  "waiter_pop e s =
     (case ep_waiting_head (k_endpoints s e) of
        None \<Rightarrow> (None, s)
      | Some w \<Rightarrow>
          let hd' = mw_next (t_message_wait (k_tasks s w));
              s1 = upd_ep e (\<lambda>x. x\<lparr>ep_waiting_head := hd'\<rparr>) s;
              s2 = (case hd' of
                      Some n \<Rightarrow> upd_mw n (\<lambda>m. m\<lparr>mw_previous := None\<rparr>) s1
                    | None \<Rightarrow> upd_ep e (\<lambda>x. x\<lparr>ep_waiting_tail := None\<rparr>) s1);
              s3 = upd_mw w (\<lambda>m. m\<lparr>mw_previous := None, mw_next := None, mw_queued := False\<rparr>) s2
          in (Some w, upd_ep e (\<lambda>x. x\<lparr>ep_waiting_count := ep_waiting_count x - 1\<rparr>) s3))"

definition write_recv_registers :: "nat \<Rightarrow> int \<Rightarrow> message \<Rightarrow> kst \<Rightarrow> kst" where
  "write_recv_registers receiver a0 m s =
     (set_task_x receiver 15 (msg_sender m) \<circ> set_task_x receiver 14 (msg_word3 m) \<circ>
      set_task_x receiver 13 (msg_word2 m) \<circ> set_task_x receiver 12 (msg_word1 m) \<circ>
      set_task_x receiver 11 (msg_word0 m) \<circ> set_task_x receiver 10 (of_int a0)) s"

definition clear_queue :: "endpoint \<Rightarrow> endpoint" where
  "clear_queue ep = ep\<lparr>ep_queue :=
     (\<lambda>i. if i < kEndpointQueueDepth then zero_message else ep_queue ep i)\<rparr>"

section \<open>Endpoint life cycle\<close>

text \<open>The handle is \<open>Some\<close> when it was written through \<^verbatim>\<open>handle_out\<close>.\<close>

definition create_endpoint :: "u64 \<Rightarrow> bool \<Rightarrow> kst \<Rightarrow> int \<times> u64 option \<times> kst" where
  "create_endpoint owner handle_out s =
     (if \<not> handle_out then (kErrorInvalidArgument, None, s)
      else case find (\<lambda>i. \<not> (k_slot_allocated s i \<or> ep_retired (k_endpoints s i)))
             [0..<kMaxEndpoints] of
        None \<Rightarrow> (kErrorNoSpace, None, s)
      | Some i \<Rightarrow>
          let s1 = s\<lparr>k_slot_allocated := (k_slot_allocated s)(i := True)\<rparr>;
              s2 = upd_ep i (\<lambda>x. clear_queue (x\<lparr>ep_active := True, ep_retired := False,
                     ep_owner := owner, ep_head := 0, ep_count := 0, ep_waiting_head := None,
                     ep_waiting_tail := None, ep_waiting_count := 0\<rparr>)) s1;
              s3 = upd_ep i (\<lambda>x. if ep_generation x = 0 then x\<lparr>ep_generation := 1\<rparr> else x) s2
          in (0, Some (EndpointHandle_raw
                \<lparr>eh_index = of_nat i, eh_generation = ep_generation (k_endpoints s3 i)\<rparr>), s3))"

partial_function (option) destroy_wake :: "nat \<Rightarrow> kst \<Rightarrow> kst option" where
  "destroy_wake e s =
     (case waiter_pop e s of
        (None, s1) \<Rightarrow> Some s1
      | (Some receiver, s1) \<Rightarrow> do {
          let s2 = upd_task receiver (\<lambda>x. x\<lparr>t_state_info := 0\<rparr>) s1;
          let s3 = set_task_x receiver 10 (of_int kErrorIdrm) s2;
          deref_scheduler receiver s3;
          let (ok, s4) = Scheduler_add_task receiver s3;
          park_unless ok;
          destroy_wake e s4
        })"

text \<open>The endpoint is emptied; its slot is freed with the next generation, or retired at the last one.\<close>

definition retire_or_free :: "nat \<Rightarrow> kst \<Rightarrow> kst" where
  "retire_or_free i s =
     (let s1 = upd_ep i (\<lambda>x. (clear_queue x)\<lparr>ep_head := 0, ep_count := 0, ep_owner := 0,
            ep_active := False\<rparr>) s
      in if ep_generation (k_endpoints s1 i) \<ge> kMaxGeneration
         then upd_ep i (\<lambda>x. x\<lparr>ep_retired := True\<rparr>) s1
         else (upd_ep i (\<lambda>x. x\<lparr>ep_generation := ep_generation x + 1\<rparr>) s1)
           \<lparr>k_slot_allocated := (k_slot_allocated s1)(i := False)\<rparr>)"

definition destroy_endpoint :: "u64 \<Rightarrow> u64 \<Rightarrow> kst \<Rightarrow> (int \<times> kst) option" where
  "destroy_endpoint caller handle s =
     (let parsed = EndpointHandle_from_raw handle; i = unat (eh_index parsed) in
      if \<not> handle_well_formed parsed then Some (kErrorInvalidArgument, s)
      else let ep = k_endpoints s i in
      if \<not> k_slot_allocated s i \<or> \<not> ep_active ep \<or> ep_generation ep \<noteq> eh_generation parsed
        then Some (kErrorInvalidArgument, s)
      else if ep_owner ep \<noteq> caller then Some (kErrorAccess, s)
      else do {
        s3 \<leftarrow> destroy_wake i (retire_or_free i s);
        Some (0, s3)
      })"

section \<open>Messages\<close>

text \<open>Storing a message behind the pending ones, the last branch of \<^verbatim>\<open>send\<close>.\<close>

definition push_message :: "message \<Rightarrow> endpoint \<Rightarrow> endpoint" where
  "push_message m ep = ep\<lparr>
     ep_queue := (ep_queue ep)((ep_head ep + ep_count ep) mod kEndpointQueueDepth := m),
     ep_count := ep_count ep + 1\<rparr>"

definition send :: "u64 \<Rightarrow> u64 \<Rightarrow> message \<Rightarrow> kst \<Rightarrow> (int \<times> kst) option" where
  "send sender handle words s =
     (let parsed = EndpointHandle_from_raw handle; i = unat (eh_index parsed) in
      if \<not> handle_well_formed parsed then Some (kErrorInvalidArgument, s)
      else let ep = k_endpoints s i in
      if \<not> ep_active ep \<or> ep_generation ep \<noteq> eh_generation parsed
        then Some (kErrorInvalidArgument, s)
      else do {
        check_endpoint_invariant ep;
        if ep_waiting_count ep > 0 then do {
          let (w, s1) = waiter_pop i s;
          receiver \<leftarrow> w;
          let s2 = write_recv_registers receiver 0 (words\<lparr>msg_sender := sender\<rparr>) s1;
          let s3 = upd_task receiver (\<lambda>x. x\<lparr>t_state_info := 0\<rparr>) s2;
          deref_scheduler receiver s3;
          let (ok, s4) = Scheduler_add_task receiver s3;
          park_unless ok;
          Some (0, s4)
        } else if ep_count ep \<ge> kEndpointQueueDepth then Some (kErrorAgain, s)
        else Some (0, upd_ep i (push_message (words\<lparr>msg_sender := sender\<rparr>)) s)
      })"

text \<open>Popping the oldest message, shared by \<^verbatim>\<open>try_recv\<close> and \<^verbatim>\<open>recv\<close>.\<close>

definition pop_message :: "endpoint \<Rightarrow> endpoint" where
  "pop_message ep = ep\<lparr>
     ep_queue := (ep_queue ep)(ep_head ep := zero_message),
     ep_head := (ep_head ep + 1) mod kEndpointQueueDepth,
     ep_count := ep_count ep - 1\<rparr>"

definition try_recv :: "u64 \<Rightarrow> bool \<Rightarrow> kst \<Rightarrow> int \<times> message option \<times> kst" where
  "try_recv handle message_out s =
     (let parsed = EndpointHandle_from_raw handle; i = unat (eh_index parsed) in
      if \<not> handle_well_formed parsed \<or> \<not> message_out then (kErrorInvalidArgument, None, s)
      else let ep = k_endpoints s i in
      if \<not> ep_active ep \<or> ep_generation ep \<noteq> eh_generation parsed
        then (kErrorInvalidArgument, None, s)
      else if ep_count ep = 0 then (kErrorAgain, None, s)
      else (0, Some (ep_queue ep (ep_head ep)), upd_ep i pop_message s))"

definition recv :: "nat \<Rightarrow> nat \<Rightarrow> u64 \<Rightarrow> kst \<Rightarrow> (recv_result \<times> kst) option" where
  "recv h caller handle s =
     (let rejected = \<lparr>rr_status = RS_rejected, rr_message = zero_message,
            rr_error = kErrorInvalidArgument\<rparr>;
          parsed = EndpointHandle_from_raw handle; i = unat (eh_index parsed) in do {
      park_unless (\<not> mw_queued (t_message_wait (k_tasks s caller)));
      if \<not> handle_well_formed parsed
        then Some (rejected, set_task_x caller 10 (of_int kErrorInvalidArgument) s)
      else let ep = k_endpoints s i in
      if \<not> ep_active ep \<or> ep_generation ep \<noteq> eh_generation parsed
        then Some (rejected, set_task_x caller 10 (of_int kErrorInvalidArgument) s)
      else do {
        check_endpoint_invariant ep;
        if ep_count ep > 0 then
          let m = ep_queue ep (ep_head ep) in
          Some (\<lparr>rr_status = RS_delivered, rr_message = m, rr_error = 0\<rparr>,
                write_recv_registers caller 0 m (upd_ep i pop_message s))
        else do {
          let s1 = waiter_push i caller s;
          let s2 = upd_task caller
                (\<lambda>x. x\<lparr>t_state := TS_blocked_message, t_state_info := handle\<rparr>) s1;
          deref_scheduler caller s2;
          (_, s3) \<leftarrow> Scheduler_set_next_runnable h s2;
          Some (\<lparr>rr_status = RS_blocked, rr_message = zero_message, rr_error = 0\<rparr>, s3)
        }
      }
    })"

section \<open>Refinement of the waiting FIFO to lists\<close>

definition enq_wq :: "nat \<Rightarrow> nat \<Rightarrow> ghost \<Rightarrow> ghost" where
  "enq_wq e t G = G\<lparr>g_wq := (g_wq G)(e := g_wq G e @ [t])\<rparr>"

definition deq_wq :: "nat \<Rightarrow> ghost \<Rightarrow> ghost" where
  "deq_wq e G = G\<lparr>g_wq := (g_wq G)(e := tl (g_wq G e))\<rparr>"

definition set_waiting :: "bool \<Rightarrow> task \<Rightarrow> task" where
  "set_waiting b x = x\<lparr>t_message_wait := (t_message_wait x)\<lparr>mw_queued := b\<rparr>\<rparr>"

lemma sim_wq_family:
  "sim G c s \<Longrightarrow> family (\<lambda>t. mw_previous (t_message_wait (k_tasks s t)))
     (\<lambda>t. mw_next (t_message_wait (k_tasks s t))) (\<lambda>t. mw_queued (t_message_wait (k_tasks s t))) (g_wq G)"
  by (simp add: sim_def wq_rep_def)

lemma sim_waiting:
  "sim G c s \<Longrightarrow> mw_queued (t_message_wait (k_tasks c t)) \<longleftrightarrow> (\<exists>e. t \<in> set (g_wq G e))"
  using sim_wq_family [of G c s] by (simp add: family_def sim_reads)

lemma waiter_push_sim:
  assumes S: "sim G c s" and "\<not> mw_queued (t_message_wait (k_tasks c t))"
  shows "sim (enq_wq e t G) (upd_task t (set_waiting True) c) (waiter_push e t s)"
proof -
  note R = sim_reads [OF S]
  define xs where "xs = g_wq G e"
  let ?T = "\<lambda>u. if u = t then (k_tasks s t)\<lparr>t_message_wait :=
        \<lparr>mw_previous = lastp xs, mw_next = None, mw_queued = True\<rparr>\<rparr>
      else if Some u = lastp xs
        then (k_tasks s u)\<lparr>t_message_wait := (t_message_wait (k_tasks s u))\<lparr>mw_next := Some t\<rparr>\<rparr>
      else k_tasks s u"
  let ?E = "(k_endpoints s)(e := (if xs = [] then (k_endpoints s e)\<lparr>ep_waiting_head := Some t\<rparr>
      else k_endpoints s e)\<lparr>ep_waiting_tail := Some t,
        ep_waiting_count := Suc (ep_waiting_count (k_endpoints s e))\<rparr>)"
  have "t \<notin> set xs"
    using sim_waiting [OF S, of t] assms(2) by (auto simp: xs_def)
  then have ends: "lastp xs \<noteq> Some t"
    by (blast dest: lastp_mem)
  have ep: "ep_waiting_head (k_endpoints s p) = first (g_wq G p)"
    "ep_waiting_tail (k_endpoints s p) = lastp (g_wq G p)"
    "ep_waiting_count (k_endpoints s p) = length (g_wq G p)" for p
    by (rule R)+
  have ok: "waiter_push e t s = s\<lparr>k_tasks := ?T, k_endpoints := ?E\<rparr>"
    unfolding waiter_push_def ep(1,2) xs_def [symmetric] Let_def using ends
    by (cases "lastp xs"; intro kst.equality) (auto simp: upd_mw_def fun_eq_iff)
  have fam: "family (\<lambda>u. mw_previous (t_message_wait (?T u))) (\<lambda>u. mw_next (t_message_wait (?T u)))
      (\<lambda>u. mw_queued (t_message_wait (?T u))) ((g_wq G)(e := xs @ [t]))"
    unfolding xs_def
    by (rule family_push_back [OF sim_wq_family [OF S]]) (use assms(2) in \<open>auto simp: R(15)\<close>)
  show ?thesis
    unfolding enq_wq_def xs_def [symmetric] ok
    by (rule sim_wq_change [OF S refl _ _ _ _ fam])
      (auto simp: ep simD(1) [OF S] upd_task_def erase_def fun_eq_iff erase_task_def erase_ep_def
        set_waiting_def xs_def)
qed

lemma waiter_pop_none:
  assumes "sim G c s" and "g_wq G e = []"
  shows "waiter_pop e s = (None, s)"
  using assms by (simp add: waiter_pop_def sim_reads)

lemma waiter_pop_sim:
  assumes S: "sim G c s" and ls: "g_wq G e = t # ys"
  shows "\<exists>s'. waiter_pop e s = (Some t, s') \<and>
    sim (deq_wq e G) (upd_task t (set_waiting False) c) s'"
proof -
  note R = sim_reads [OF S]
  let ?T = "\<lambda>u. if u = t then (k_tasks s t)\<lparr>t_message_wait :=
        \<lparr>mw_previous = None, mw_next = None, mw_queued = False\<rparr>\<rparr>
      else if Some u = first ys
        then (k_tasks s u)\<lparr>t_message_wait := (t_message_wait (k_tasks s u))\<lparr>mw_previous := None\<rparr>\<rparr>
      else k_tasks s u"
  let ?E = "(k_endpoints s)(e := (if ys = [] then (k_endpoints s e)\<lparr>ep_waiting_tail := None\<rparr>
      else k_endpoints s e)\<lparr>ep_waiting_head := first ys,
        ep_waiting_count := ep_waiting_count (k_endpoints s e) - 1\<rparr>)"
  have ep: "ep_waiting_head (k_endpoints s p) = first (g_wq G p)"
    "ep_waiting_tail (k_endpoints s p) = lastp (g_wq G p)"
    "ep_waiting_count (k_endpoints s p) = length (g_wq G p)" for p
    by (rule R)+
  have nx: "mw_next (t_message_wait (k_tasks s t)) = first ys"
    using family_links(2) [OF sim_wq_family [OF S], of e "[]" t ys] ls by simp
  have hd: "first ys \<noteq> Some t"
    using familyD(2) [OF sim_wq_family [OF S], of e] ls by (auto dest: first_mem)
  have ok: "waiter_pop e s = (Some t, s\<lparr>k_tasks := ?T, k_endpoints := ?E\<rparr>)"
  proof (cases "first ys")
    case None
    then have "ys = []" by simp
    with nx show ?thesis
      unfolding waiter_pop_def ep(1) Let_def
      by (simp add: ls, intro kst.equality) (simp_all add: upd_mw_def fun_eq_iff)
  next
    case (Some a)
    then have "ys \<noteq> []" "a \<noteq> t" using hd by auto
    with nx Some show ?thesis
      unfolding waiter_pop_def ep(1) Let_def
      by (simp add: ls, intro kst.equality) (simp_all add: upd_mw_def fun_eq_iff)
  qed
  have fam: "family (\<lambda>u. mw_previous (t_message_wait (?T u))) (\<lambda>u. mw_next (t_message_wait (?T u)))
      (\<lambda>u. mw_queued (t_message_wait (?T u))) ((g_wq G)(e := ys))"
    by (rule family_pop_front [OF sim_wq_family [OF S] ls]) auto
  have "sim (deq_wq e G) (upd_task t (set_waiting False) c) (s\<lparr>k_tasks := ?T, k_endpoints := ?E\<rparr>)"
    unfolding deq_wq_def ls list.sel
    by (rule sim_wq_change [OF S refl _ _ _ _ fam])
      (auto simp: ep ls simD(1) [OF S] upd_task_def erase_def fun_eq_iff erase_task_def erase_ep_def
        set_waiting_def)
  with ok show ?thesis by blast
qed

lemma waiter_pop_frame:
  assumes "waiter_pop e s = (w, s')"
  shows "t_context (k_tasks s' u) = t_context (k_tasks s u)" "erase_ep (k_endpoints s' i) = erase_ep (k_endpoints s i)"
    "k_slot_allocated s' = k_slot_allocated s"
  using assms by (auto simp: waiter_pop_def Let_def upd_mw_def erase_ep_def split: if_splits option.splits)

section \<open>The waiting receivers as a queue\<close>

definition wq_holds :: "nat \<Rightarrow> nat set \<Rightarrow> kst \<Rightarrow> nat list \<Rightarrow> bool" where
  "wq_holds e D s xs \<longleftrightarrow> (\<exists>G c. sim G c s \<and> g_wq G e = xs \<and> set xs \<subseteq> D \<and>
     (\<forall>t \<in> D. \<forall>e'. t \<in> set (g_wq G e') \<longrightarrow> e' = e))"

interpretation wqf: fifo "wq_holds e D" "\<lambda>xs t. t \<in> D \<and> t \<notin> set xs" "\<lambda>t s. Some (waiter_push e t s)" "\<lambda>s. Some (waiter_pop e s)" for e D
proof unfold_locales
  fix s xs a assume h: "wq_holds e D s xs" and r: "a \<in> D \<and> a \<notin> set xs"
  from h obtain G c where g: "sim G c s" "g_wq G e = xs" "set xs \<subseteq> D" "\<forall>t \<in> D. \<forall>e'. t \<in> set (g_wq G e') \<longrightarrow> e' = e"
    unfolding wq_holds_def by blast
  have "\<not> mw_queued (t_message_wait (k_tasks c a))" using sim_waiting [OF g(1), of a] g(2,4) r by blast
  note s' = waiter_push_sim [OF g(1) this, of e]
  have "wq_holds e D (waiter_push e a s) (xs @ [a])"
    unfolding wq_holds_def
    by (rule exI [of _ "enq_wq e a G"], rule exI [of _ "upd_task a (set_waiting True) c"])
      (use s' g r in \<open>auto simp: enq_wq_def\<close>)
  then show "\<exists>s'. Some (waiter_push e a s) = Some s' \<and> wq_holds e D s' (xs @ [a])" by simp
next
  fix s xs assume h: "wq_holds e D s xs"
  from h obtain G c where g: "sim G c s" "g_wq G e = xs" "set xs \<subseteq> D" "\<forall>t \<in> D. \<forall>e'. t \<in> set (g_wq G e') \<longrightarrow> e' = e"
    unfolding wq_holds_def by blast
  show "\<exists>s'. Some (waiter_pop e s) = Some (if xs = [] then None else Some (hd xs), s') \<and> wq_holds e D s' (tl xs)"
  proof (cases xs)
    case Nil
    then show ?thesis using waiter_pop_none [OF g(1)] g(2) h by simp
  next
    case (Cons t ys)
    then obtain s' where s': "waiter_pop e s = (Some t, s')" "sim (deq_wq e G) (upd_task t (set_waiting False) c) s'"
      using waiter_pop_sim [OF g(1), of e t ys] g(2) by auto
    have "wq_holds e D s' ys"
      unfolding wq_holds_def
      by (rule exI [of _ "deq_wq e G"], rule exI [of _ "upd_task t (set_waiting False) c"])
        (use s'(2) g Cons in \<open>auto simp: deq_wq_def split: if_splits\<close>)
    then show ?thesis using s'(1) Cons by simp
  qed
qed

section \<open>The message ring as a queue\<close>

text \<open>The pending messages of an endpoint, oldest first.\<close>

definition pending :: "endpoint \<Rightarrow> message list" where
  "pending ep = map (\<lambda>i. ep_queue ep ((ep_head ep + i) mod kEndpointQueueDepth)) [0..<ep_count ep]"

definition ring_holds :: "endpoint \<Rightarrow> message list \<Rightarrow> bool" where
  "ring_holds ep ms \<longleftrightarrow> ep_head ep < kEndpointQueueDepth \<and> ep_count ep \<le> kEndpointQueueDepth \<and> pending ep = ms"

definition ring_get :: "endpoint \<Rightarrow> (message option \<times> endpoint) option" where
  "ring_get ep = Some (if ep_count ep = 0 then (None, ep) else (Some (ep_queue ep (ep_head ep)), pop_message ep))"

lemma ring_offset:
  assumes "(h + i) mod D = (h + j) mod D" and "i < D" "j < (D :: nat)"
  shows "i = j"
proof -
  have le: "i = j" if "i \<le> j" "(h + i) mod D = (h + j) mod D" "j < D" for i j
  proof -
    have "D dvd (h + j) - (h + i)" using that(1,2) by (subst mod_eq_dvd_iff_nat [symmetric]) simp_all
    then have "D dvd j - i" by simp
    then show ?thesis using that(1,3) dvd_imp_le [of D "j - i"] by (cases "j - i = 0") auto
  qed
  show ?thesis using le [of i j] le [of j i] assms by (cases "i \<le> j") auto
qed

lemma pending_erase: "erase_ep x = erase_ep y \<Longrightarrow> pending x = pending y"
  unfolding pending_def by (metis erase_ep_simps(5-7))

lemma length_pending: "length (pending ep) = ep_count ep"
  by (simp add: pending_def)

lemma pending_push:
  assumes "ep_count ep < kEndpointQueueDepth"
  shows "pending (push_message m ep) = pending ep @ [m]"
proof -
  have "(ep_head ep + i) mod kEndpointQueueDepth \<noteq> (ep_head ep + ep_count ep) mod kEndpointQueueDepth" if "i < ep_count ep" for i
    using ring_offset [of "ep_head ep" i kEndpointQueueDepth "ep_count ep"] that assms by auto
  then show ?thesis by (simp add: pending_def push_message_def)
qed

lemma pending_pop:
  assumes "ep_head ep < kEndpointQueueDepth" and "ep_count ep \<le> kEndpointQueueDepth" and "ep_count ep \<noteq> 0"
  shows "pending ep = ep_queue ep (ep_head ep) # pending (pop_message ep)"
proof -
  let ?D = kEndpointQueueDepth
  have ne: "(ep_head ep + Suc i) mod ?D \<noteq> ep_head ep" if "Suc i < ep_count ep" for i
    using ring_offset [of "ep_head ep" "Suc i" ?D 0] that assms(1,2) by auto
  obtain n where n: "ep_count ep = Suc n" using assms(3) by (cases "ep_count ep") auto
  have r: "[0..<Suc n] = 0 # map Suc [0..<n]" by (simp add: map_Suc_upt upt_conv_Cons del: upt_Suc)
  have p: "((ep_head ep + 1) mod ?D + i) mod ?D = (ep_head ep + Suc i) mod ?D" for i by (simp add: mod_add_left_eq)
  have "pending (pop_message ep) = map (\<lambda>i. ep_queue ep ((ep_head ep + Suc i) mod ?D)) [0..<n]"
    unfolding pending_def
  proof (rule map_cong)
    show "ep_queue (pop_message ep) ((ep_head (pop_message ep) + i) mod ?D) = ep_queue ep ((ep_head ep + Suc i) mod ?D)"
      if "i \<in> set [0..<n]" for i
    proof -
      have "Suc i < ep_count ep" using that n by simp
      from ne [OF this] have "((ep_queue ep)(ep_head ep := zero_message)) ((ep_head ep + Suc i) mod ?D) = ep_queue ep ((ep_head ep + Suc i) mod ?D)"
        by (rule fun_upd_other)
      then show ?thesis unfolding pop_message_def by (simp del: fun_upd_apply add: p [simplified])
    qed
  qed (simp add: pop_message_def n)
  moreover have "pending ep = ep_queue ep (ep_head ep) # map (\<lambda>i. ep_queue ep ((ep_head ep + Suc i) mod ?D)) [0..<n]"
    using assms(1) unfolding pending_def n r by simp
  ultimately show ?thesis by simp
qed

interpretation ring: fifo ring_holds "\<lambda>ms m. length ms < kEndpointQueueDepth" "\<lambda>m ep. Some (push_message m ep)" ring_get
proof unfold_locales
  fix ep ms and m :: message assume h: "ring_holds ep ms" and r: "length ms < kEndpointQueueDepth"
  then have "ep_count ep < kEndpointQueueDepth" by (auto simp: ring_holds_def pending_def)
  then have "ring_holds (push_message m ep) (ms @ [m])"
    using h pending_push [of ep m] by (simp add: ring_holds_def) (simp add: push_message_def)
  then show "\<exists>s'. Some (push_message m ep) = Some s' \<and> ring_holds s' (ms @ [m])" by simp
next
  fix ep ms assume h: "ring_holds ep ms"
  show "\<exists>s'. ring_get ep = Some (if ms = [] then None else Some (hd ms), s') \<and> ring_holds s' (tl ms)"
  proof (cases "ep_count ep = 0")
    case True
    then have "ms = []" using h by (simp add: ring_holds_def pending_def)
    with True h show ?thesis by (simp add: ring_get_def)
  next
    case False
    have e: "ms = ep_queue ep (ep_head ep) # pending (pop_message ep)"
      using pending_pop [of ep] h False by (simp add: ring_holds_def)
    have "ring_holds (pop_message ep) (pending (pop_message ep))"
      using h by (auto simp: ring_holds_def pop_message_def kEndpointQueueDepth_def)
    with False e show ?thesis by (simp add: ring_get_def)
  qed
qed

section \<open>Handles\<close>

interpretation hnd: encoding "\<lambda>_. True" EndpointHandle_raw EndpointHandle_from_raw
proof unfold_locales
  fix x :: endpoint_handle
  have "(ucast (push_bit 32 (ucast (eh_generation x)) OR ucast (eh_index x) :: u64) :: u32) = eh_index x"
    by (rule bit_word_eqI) (auto simp: bit_simps dest: bit_imp_le_length)
  moreover have "(ucast (drop_bit 32 (push_bit 32 (ucast (eh_generation x)) OR ucast (eh_index x) :: u64)) :: u32) = eh_generation x"
    by (rule bit_word_eqI) (auto simp: bit_simps dest: bit_imp_le_length)
  ultimately show "EndpointHandle_from_raw (EndpointHandle_raw x) = x"
    by (simp add: EndpointHandle_from_raw_def EndpointHandle_raw_def)
qed

end
