(* ===== verification/Kernel_Invariant.thy ===== *)
theory Kernel_Invariant
  imports Kernel_Ghost Scheduler Endpoint_Ipc
begin

text \<open>
  The invariant of the kernel executive.  A view \<open>kview\<close> keeps the part of the erased state the
  invariant speaks about: where each task is, which task each hart runs, the tracker tree and
  the endpoints.  Handlers break the invariant only in a controlled way: a hart may be about to
  switch tasks (\<open>Hx\<close>), and tasks may be in transit between two places (\<open>X\<close>).
\<close>


section \<open>The view\<close>

record kview =
  v_used :: "nat \<Rightarrow> bool"
  v_state :: "nat \<Rightarrow> task_state"
  v_idle :: "nat \<Rightarrow> bool"
  v_q :: "nat \<Rightarrow> bool"
  v_d :: "nat \<Rightarrow> bool"
  v_m :: "nat \<Rightarrow> bool"
  v_cpu :: "nat \<Rightarrow> nat option"
  v_pin :: "nat \<Rightarrow> u64"
  v_trk :: "nat \<Rightarrow> nat option"
  v_tid :: "nat \<Rightarrow> u64"
  v_deadline :: "nat \<Rightarrow> u64"
  v_tused :: "nat \<Rightarrow> bool"
  v_parent :: "nat \<Rightarrow> nat option"
  v_key :: "nat \<Rightarrow> u64"
  v_task :: "nat \<Rightarrow> nat option"
  v_status :: "nat \<Rightarrow> exit_status"
  v_active :: "nat \<Rightarrow> bool"
  v_cur :: "nat \<Rightarrow> nat option"
  v_bound :: "nat \<Rightarrow> bool"
  v_idlet :: "nat \<Rightarrow> nat option"
  v_n :: nat
  v_next :: u64
  v_init :: bool
  v_ep :: "nat \<Rightarrow> endpoint"
  v_slot :: "nat \<Rightarrow> bool"

definition hart_bound :: "nat \<Rightarrow> hart_local \<Rightarrow> bool" where
  "hart_bound h l \<longleftrightarrow> hl_scheduler l \<and> hl_scheduler_extra l = Some (Local_rq h) \<and> hl_delay_list l = Some h"

definition view :: "kst \<Rightarrow> kview" where
  "view c = \<lparr>
     v_used = k_task_slots_used c,
     v_state = (\<lambda>t. t_state (k_tasks c t)),
     v_idle = (\<lambda>t. t_idle (k_tasks c t)),
     v_q = (\<lambda>t. t_queued (k_tasks c t)),
     v_d = (\<lambda>t. dn_queued (t_delay (k_tasks c t))),
     v_m = (\<lambda>t. mw_queued (t_message_wait (k_tasks c t))),
     v_cpu = (\<lambda>t. t_cpu (k_tasks c t)),
     v_pin = (\<lambda>t. t_affinity_pinned (k_tasks c t)),
     v_trk = (\<lambda>t. t_tracker (k_tasks c t)),
     v_tid = (\<lambda>t. t_tid (k_tasks c t)),
     v_deadline = (\<lambda>t. dn_deadline (t_delay (k_tasks c t))),
     v_tused = k_tracker_slots_used c,
     v_parent = (\<lambda>x. tt_parent (k_trackers c x)),
     v_key = (\<lambda>x. tt_key (k_trackers c x)),
     v_task = (\<lambda>x. tt_task (k_trackers c x)),
     v_status = (\<lambda>x. tt_status (k_trackers c x)),
     v_active = (\<lambda>x. wi_active (tt_wait (k_trackers c x))),
     v_cur = (\<lambda>h. hl_current_task (k_harts c h)),
     v_bound = (\<lambda>h. hart_bound h (k_harts c h)),
     v_idlet = (\<lambda>h. hl_idle_task (k_harts c h)),
     v_n = k_present_count c,
     v_next = k_next_tid c,
     v_init = (k_tm_initialized c \<and> k_time_initialized c),
     v_ep = (\<lambda>e. erase_ep (k_endpoints c e)),
     v_slot = k_slot_allocated c\<rparr>"

lemma view_simps [simp]:
  "v_used (view c) = k_task_slots_used c" "v_state (view c) t = t_state (k_tasks c t)"
  "v_idle (view c) t = t_idle (k_tasks c t)" "v_q (view c) t = t_queued (k_tasks c t)"
  "v_d (view c) t = dn_queued (t_delay (k_tasks c t))"
  "v_m (view c) t = mw_queued (t_message_wait (k_tasks c t))"
  "v_cpu (view c) t = t_cpu (k_tasks c t)" "v_pin (view c) t = t_affinity_pinned (k_tasks c t)"
  "v_trk (view c) t = t_tracker (k_tasks c t)" "v_tid (view c) t = t_tid (k_tasks c t)"
  "v_deadline (view c) t = dn_deadline (t_delay (k_tasks c t))"
  "v_tused (view c) = k_tracker_slots_used c" "v_parent (view c) x = tt_parent (k_trackers c x)"
  "v_key (view c) x = tt_key (k_trackers c x)" "v_task (view c) x = tt_task (k_trackers c x)"
  "v_status (view c) x = tt_status (k_trackers c x)"
  "v_active (view c) x = wi_active (tt_wait (k_trackers c x))"
  "v_cur (view c) h = hl_current_task (k_harts c h)" "v_bound (view c) h = hart_bound h (k_harts c h)"
  "v_idlet (view c) h = hl_idle_task (k_harts c h)" "v_n (view c) = k_present_count c"
  "v_next (view c) = k_next_tid c" "v_init (view c) = (k_tm_initialized c \<and> k_time_initialized c)"
  "v_ep (view c) e = erase_ep (k_endpoints c e)" "v_slot (view c) = k_slot_allocated c"
  by (simp_all add: view_def)

text \<open>Updates the invariant does not see.\<close>

definition quiet_task :: "(task \<Rightarrow> task) \<Rightarrow> bool" where
  "quiet_task f \<longleftrightarrow> (\<forall>x. t_state (f x) = t_state x \<and> t_idle (f x) = t_idle x \<and> t_queued (f x) = t_queued x \<and>
     t_delay (f x) = t_delay x \<and> t_message_wait (f x) = t_message_wait x \<and> t_cpu (f x) = t_cpu x \<and>
     t_affinity_pinned (f x) = t_affinity_pinned x \<and> t_tracker (f x) = t_tracker x \<and> t_tid (f x) = t_tid x)"

definition quiet_hart :: "(hart_local \<Rightarrow> hart_local) \<Rightarrow> bool" where
  "quiet_hart f \<longleftrightarrow> (\<forall>x. hl_current_task (f x) = hl_current_task x \<and> hl_scheduler (f x) = hl_scheduler x \<and>
     hl_scheduler_extra (f x) = hl_scheduler_extra x \<and> hl_delay_list (f x) = hl_delay_list x \<and>
     hl_idle_task (f x) = hl_idle_task x)"

lemma view_quiet:
  "quiet_task f \<Longrightarrow> view (upd_task t f c) = view c"
  "quiet_hart g \<Longrightarrow> view (upd_hart h g c) = view c"
  "view (printk fmt args c) = view c" "view (c\<lparr>k_reads := r\<rparr>) = view c" "view (c\<lparr>k_csr := v\<rparr>) = view c"
  "view (c\<lparr>k_mtimecmp := w\<rparr>) = view c" "view (c\<lparr>k_reported := z\<rparr>) = view c"
  "view (c\<lparr>k_vmm := vm\<rparr>) = view c" "view (c\<lparr>k_ms := ms\<rparr>) = view c"
  "view (c\<lparr>k_initial_task_id := n\<rparr>) = view c"
  by (rule kview.equality;
      simp add: view_def fun_eq_iff quiet_task_def quiet_hart_def printk_def hart_bound_def)+

section \<open>The invariant\<close>

text \<open>Where a task that is not idle may be.  The harts of \<open>Hx\<close> are about to switch tasks.\<close>

definition place :: "task_state \<Rightarrow> bool \<Rightarrow> bool \<Rightarrow> bool \<Rightarrow> bool \<Rightarrow> bool" where
  "place st queued delayed waiting current \<longleftrightarrow>
     (st, queued, delayed, waiting) \<in>
       {(TS_ready, True, False, False), (TS_blocked_sleep, False, True, False),
        (TS_blocked_message, False, False, True), (TS_blocked_join, False, False, False)} \<or>
     (st, queued, delayed, waiting, current) = (TS_running, False, False, False, True)"

definition placed :: "nat set \<Rightarrow> kview \<Rightarrow> nat \<Rightarrow> bool" where
  "placed Hx v t \<longleftrightarrow> place (v_state v t) (v_q v t) (v_d v t) (v_m v t) (\<exists>h. h \<notin> Hx \<and> v_cur v h = Some t)"

lemma place_mono: "place st q d m cur \<Longrightarrow> (cur \<Longrightarrow> cur') \<Longrightarrow> place st q d m cur'"
  by (auto simp: place_def)

abbreviation free :: "kview \<Rightarrow> nat \<Rightarrow> bool" where
  "free v t \<equiv> \<not> v_q v t \<and> \<not> v_d v t \<and> \<not> v_m v t"

definition task_inv :: "nat set \<Rightarrow> nat set \<Rightarrow> kview \<Rightarrow> bool" where
  "task_inv Hx X v \<longleftrightarrow>
     (\<forall>t. v_used v t \<longrightarrow> t < kMaxTasks \<and> v_pin v t = 0 \<and> (\<exists>h < v_n v. v_cpu v t = Some h)) \<and>
     (\<forall>t. \<not> v_used v t \<longrightarrow> free v t) \<and>
     (\<forall>t. v_used v t \<and> v_idle v t \<longrightarrow> t \<notin> X \<and> free v t \<and> v_state v t \<in> {TS_ready, TS_running} \<and>
        (\<exists>h < v_n v. v_idlet v h = Some t)) \<and>
     (\<forall>t. v_used v t \<and> \<not> v_idle v t \<and> t \<notin> X \<longrightarrow> placed Hx v t) \<and>
     (\<forall>t \<in> X. v_used v t \<and> free v t)"

definition hart_inv :: "nat set \<Rightarrow> nat set \<Rightarrow> kview \<Rightarrow> bool" where
  "hart_inv Hx X v \<longleftrightarrow> v_n v \<le> kMaxHarts \<and> v_init v \<and>
     (\<forall>h < v_n v. v_bound v h \<and> (\<exists>t. v_idlet v h = Some t \<and> v_used v t \<and> v_idle v t \<and> v_cpu v t = Some h)) \<and>
     (\<forall>h t. v_cur v h = Some t \<longrightarrow> h < v_n v \<and>
        (h \<notin> Hx \<longrightarrow> v_used v t \<and> t \<notin> X \<and> v_state v t = TS_running \<and> v_cpu v t = Some h))"

definition queue_inv :: "ghost \<Rightarrow> kview \<Rightarrow> bool" where
  "queue_inv G v \<longleftrightarrow> g_out G = {} \<and> (\<forall>i. g_rq G (Local_rq i) = []) \<and>
     (\<forall>h. sorted (map (v_deadline v) (g_dq G h)) \<and> (g_dq G h \<noteq> [] \<longrightarrow> h < v_n v))"

definition ep_wf :: "bool \<Rightarrow> bool \<Rightarrow> endpoint \<Rightarrow> bool" where
  "ep_wf slot waiting ep \<longleftrightarrow>
     ep_count ep \<le> kEndpointQueueDepth \<and> ep_head ep < kEndpointQueueDepth \<and>
     ep_generation ep \<le> kMaxGeneration \<and>
     (ep_active ep \<longrightarrow> slot \<and> ep_generation ep \<noteq> 0 \<and> \<not> ep_retired ep) \<and>
     (ep_retired ep \<longrightarrow> slot) \<and> (slot \<longrightarrow> ep_active ep \<or> ep_retired ep) \<and>
     (\<not> ep_active ep \<longrightarrow> ep_count ep = 0) \<and>
     (waiting \<longrightarrow> ep_active ep \<and> ep_count ep = 0)"

definition ep_inv :: "ghost \<Rightarrow> kview \<Rightarrow> bool" where
  "ep_inv G v \<longleftrightarrow> (\<forall>e. ep_wf (v_slot v e) (g_wq G e \<noteq> []) (v_ep v e))"

definition tree_inv :: "kview \<Rightarrow> bool" where
  "tree_inv v \<longleftrightarrow>
     (\<forall>x. v_tused v x \<longrightarrow> x < kMaxTasks \<and> v_key v x < v_next v) \<and>
     inj_on (v_key v) {x. v_tused v x} \<and>
     (\<forall>x p. v_tused v x \<and> v_parent v x = Some p \<longrightarrow> v_tused v p \<and> v_key v p < v_key v x) \<and>
     (\<forall>x. v_tused v x \<and> v_task v x = None \<longrightarrow> v_parent v x \<noteq> None \<and> v_status v x \<noteq> ES_running) \<and>
     (\<forall>x t. v_tused v x \<and> v_task v x = Some t \<longrightarrow>
        v_used v t \<and> v_trk v t = Some x \<and> v_tid v t = v_key v x \<and> v_status v x = ES_running) \<and>
     (\<forall>t. v_used v t \<longrightarrow> (\<exists>x. v_trk v t = Some x \<and> v_tused v x \<and> v_task v x = Some t))"

definition join_inv :: "kview \<Rightarrow> bool" where
  "join_inv v \<longleftrightarrow>
     (\<forall>x t. v_tused v x \<and> v_task v x = Some t \<longrightarrow> (v_active v x \<longleftrightarrow> v_state v t = TS_blocked_join)) \<and>
     (\<forall>x. v_tused v x \<and> v_active v x \<longrightarrow> v_task v x \<noteq> None)"

definition qinv :: "nat set \<Rightarrow> nat set \<Rightarrow> ghost \<Rightarrow> kview \<Rightarrow> bool" where
  "qinv Hx X G v \<longleftrightarrow> task_inv Hx X v \<and> hart_inv Hx X v \<and> queue_inv G v \<and> ep_inv G v"

definition kinv :: "nat set \<Rightarrow> ghost \<Rightarrow> kview \<Rightarrow> bool" where
  "kinv Hx G v \<longleftrightarrow> qinv Hx {} G v \<and> tree_inv v \<and> join_inv v"


section \<open>Moving tasks\<close>

lemma qinvD:
  assumes "qinv Hx X G v"
  shows "task_inv Hx X v" "hart_inv Hx X v" "queue_inv G v" "ep_inv G v"
  using assms by (simp_all add: qinv_def)

lemma kinvD:
  assumes "kinv Hx G v"
  shows "qinv Hx {} G v" "tree_inv v" "join_inv v"
  using assms by (simp_all add: kinv_def)

lemma task_invD:
  assumes "task_inv Hx X v"
  shows "v_used v t \<Longrightarrow> t < kMaxTasks" "v_used v t \<Longrightarrow> v_pin v t = 0"
    "v_used v t \<Longrightarrow> \<exists>h < v_n v. v_cpu v t = Some h" "\<not> v_used v t \<Longrightarrow> free v t"
    "v_used v t \<Longrightarrow> v_idle v t \<Longrightarrow> t \<notin> X \<and> free v t \<and> v_state v t \<in> {TS_ready, TS_running} \<and>
        (\<exists>h < v_n v. v_idlet v h = Some t)"
    "v_used v t \<Longrightarrow> \<not> v_idle v t \<Longrightarrow> t \<notin> X \<Longrightarrow> placed Hx v t"
    "t \<in> X \<Longrightarrow> v_used v t \<and> free v t"
  using assms unfolding task_inv_def by blast+

lemma hart_invD:
  assumes "hart_inv Hx X v"
  shows "v_n v \<le> kMaxHarts" "v_init v" "h < v_n v \<Longrightarrow> v_bound v h"
    "h < v_n v \<Longrightarrow> \<exists>t. v_idlet v h = Some t \<and> v_used v t \<and> v_idle v t \<and> v_cpu v t = Some h"
    "v_cur v h = Some t \<Longrightarrow> h < v_n v"
    "v_cur v h = Some t \<Longrightarrow> h \<notin> Hx \<Longrightarrow> v_used v t \<and> t \<notin> X \<and> v_state v t = TS_running \<and> v_cpu v t = Some h"
  using assms unfolding hart_inv_def by blast+

lemma task_invI:
  assumes "\<And>t. v_used v t \<Longrightarrow> t < kMaxTasks \<and> v_pin v t = 0 \<and> (\<exists>h < v_n v. v_cpu v t = Some h)"
    and "\<And>t. \<not> v_used v t \<Longrightarrow> free v t"
    and "\<And>t. v_used v t \<Longrightarrow> v_idle v t \<Longrightarrow> t \<notin> X \<and> free v t \<and> v_state v t \<in> {TS_ready, TS_running} \<and>
        (\<exists>h < v_n v. v_idlet v h = Some t)"
    and "\<And>t. v_used v t \<Longrightarrow> \<not> v_idle v t \<Longrightarrow> t \<notin> X \<Longrightarrow> placed Hx v t"
    and "\<And>t. t \<in> X \<Longrightarrow> v_used v t \<and> free v t"
  shows "task_inv Hx X v"
  using assms unfolding task_inv_def by blast

lemma hart_invI:
  assumes "v_n v \<le> kMaxHarts" "v_init v" "\<And>h. h < v_n v \<Longrightarrow> v_bound v h"
    and "\<And>h. h < v_n v \<Longrightarrow> \<exists>t. v_idlet v h = Some t \<and> v_used v t \<and> v_idle v t \<and> v_cpu v t = Some h"
    and "\<And>h t. v_cur v h = Some t \<Longrightarrow> h < v_n v"
    and "\<And>h t. v_cur v h = Some t \<Longrightarrow> h \<notin> Hx \<Longrightarrow>
      v_used v t \<and> t \<notin> X \<and> v_state v t = TS_running \<and> v_cpu v t = Some h"
  shows "hart_inv Hx X v"
  using assms unfolding hart_inv_def by blast

lemma qinvI:
  "task_inv Hx X v \<Longrightarrow> hart_inv Hx X v \<Longrightarrow> queue_inv G v \<Longrightarrow> ep_inv G v \<Longrightarrow> qinv Hx X G v"
  by (simp add: qinv_def)

text \<open>The task a hart runs is taken out of its place before the hart switches.\<close>

lemma qinv_leave:
  assumes "qinv Hx X G v" and "v_cur v h = Some t" and "h \<notin> Hx" and "\<not> v_idle v t"
  shows "qinv (insert h Hx) (insert t X) G v"
proof -
  note T = task_invD [OF qinvD(1) [OF assms(1)]] and H = hart_invD [OF qinvD(2) [OF assms(1)]]
  note t = H(6) [OF assms(2,3)]
  have unique: "v_cur v h' = Some t \<Longrightarrow> h' \<notin> Hx \<Longrightarrow> h' = h" for h'
    using H(6) [of h' t] t by auto
  have "placed Hx v t" using T(6) t assms(4) by blast
  then have "free v t" using t by (simp add: placed_def place_def)
  moreover have "placed (insert h Hx) v u" if "placed Hx v u" "u \<noteq> t" for u
    using that assms(2) unfolding placed_def by (elim place_mono) (metis insertE option.inject)
  ultimately have "task_inv (insert h Hx) (insert t X) v"
    using T t assms(4) unfolding task_inv_def by blast
  moreover have "hart_inv (insert h Hx) (insert t X) v"
    using H unique unfolding hart_inv_def by blast
  ultimately show ?thesis using assms(1) by (simp add: qinv_def)
qed

lemma qinv_leave_idle:
  assumes "qinv Hx X G v" and "v_cur v h = Some t" and "v_idle v t"
  shows "qinv (insert h Hx) X G v"
proof -
  note T = task_invD [OF qinvD(1) [OF assms(1)]] and H = hart_invD [OF qinvD(2) [OF assms(1)]]
  have "placed (insert h Hx) v u" if "placed Hx v u" "\<not> v_idle v u" for u
    using that assms(2,3) unfolding placed_def by (elim place_mono) (metis insertE option.inject)
  then have "task_inv (insert h Hx) X v"
    using T unfolding task_inv_def by blast
  moreover have "hart_inv (insert h Hx) X v"
    using H unfolding hart_inv_def by blast
  ultimately show ?thesis using assms(1) by (simp add: qinv_def)
qed

text \<open>A task that is in no place may take any state.\<close>

lemma exempt_task:
  assumes "qinv Hx X G v" and "t \<in> X"
  shows "v_used v t" "\<not> v_idle v t" "free v t" "v_cur v h = Some t \<Longrightarrow> h \<in> Hx"
  using task_invD(5,7) [OF qinvD(1) [OF assms(1)], of t] hart_invD(6) [OF qinvD(2) [OF assms(1)], of h t]
    assms(2) by blast+

text \<open>One task changes its place: its state, its queue flags and its deadline.\<close>

definition put :: "nat \<Rightarrow> task_state \<Rightarrow> bool \<Rightarrow> bool \<Rightarrow> bool \<Rightarrow> u64 \<Rightarrow> kview \<Rightarrow> kview" where
  "put t st q d m dl v = v\<lparr>v_state := (v_state v)(t := st), v_q := (v_q v)(t := q), v_d := (v_d v)(t := d),
     v_m := (v_m v)(t := m), v_deadline := (v_deadline v)(t := dl)\<rparr>"

lemma put_simps [simp]:
  "v_state (put t st q d m dl v) = (v_state v)(t := st)" "v_q (put t st q d m dl v) = (v_q v)(t := q)"
  "v_d (put t st q d m dl v) = (v_d v)(t := d)" "v_m (put t st q d m dl v) = (v_m v)(t := m)"
  "v_deadline (put t st q d m dl v) = (v_deadline v)(t := dl)" "v_used (put t st q d m dl v) = v_used v"
  "v_idle (put t st q d m dl v) = v_idle v" "v_cpu (put t st q d m dl v) = v_cpu v"
  "v_pin (put t st q d m dl v) = v_pin v" "v_trk (put t st q d m dl v) = v_trk v"
  "v_tid (put t st q d m dl v) = v_tid v" "v_tused (put t st q d m dl v) = v_tused v"
  "v_parent (put t st q d m dl v) = v_parent v" "v_key (put t st q d m dl v) = v_key v"
  "v_task (put t st q d m dl v) = v_task v" "v_status (put t st q d m dl v) = v_status v"
  "v_active (put t st q d m dl v) = v_active v" "v_cur (put t st q d m dl v) = v_cur v"
  "v_bound (put t st q d m dl v) = v_bound v" "v_idlet (put t st q d m dl v) = v_idlet v"
  "v_n (put t st q d m dl v) = v_n v" "v_next (put t st q d m dl v) = v_next v"
  "v_init (put t st q d m dl v) = v_init v" "v_ep (put t st q d m dl v) = v_ep v"
  "v_slot (put t st q d m dl v) = v_slot v"
  by (simp_all add: put_def)

lemma qinv_put:
  assumes Q: "qinv Hx X G v" and t: "v_used v t" "\<not> v_idle v t" "\<And>h. v_cur v h = Some t \<Longrightarrow> h \<in> Hx"
    and X': "X' - {t} = X - {t}" "if t \<in> X' then \<not> q \<and> \<not> d \<and> \<not> m else place st q d m False"
    and G': "queue_inv G' (put t st q d m dl v)" "ep_inv G' v"
  shows "qinv Hx X' G' (put t st q d m dl v)"
proof (rule qinvI)
  note T = task_invD [OF qinvD(1) [OF Q]] and H = hart_invD [OF qinvD(2) [OF Q]]
  have X: "u \<noteq> t \<Longrightarrow> u \<in> X' \<longleftrightarrow> u \<in> X" for u using X'(1) by blast
  show "task_inv Hx X' (put t st q d m dl v)"
  proof (rule task_invI)
    show "u < kMaxTasks \<and> v_pin (put t st q d m dl v) u = 0 \<and>
        (\<exists>h<v_n (put t st q d m dl v). v_cpu (put t st q d m dl v) u = Some h)"
      if "v_used (put t st q d m dl v) u" for u
      using T(1-3) [of u] that by simp
    show "free (put t st q d m dl v) u" if "\<not> v_used (put t st q d m dl v) u" for u
      using T(4) [of u] that t(1) by auto
    show "u \<notin> X' \<and> free (put t st q d m dl v) u \<and> v_state (put t st q d m dl v) u \<in> {TS_ready, TS_running} \<and>
        (\<exists>h < v_n (put t st q d m dl v). v_idlet (put t st q d m dl v) h = Some u)"
      if "v_used (put t st q d m dl v) u" "v_idle (put t st q d m dl v) u" for u
      using T(5) [of u] X [of u] that t(2) by (cases "u = t") auto
    show "placed Hx (put t st q d m dl v) u"
      if "v_used (put t st q d m dl v) u" "\<not> v_idle (put t st q d m dl v) u" "u \<notin> X'" for u
      using T(6) [of u] X [of u] that X'(2) place_mono [of st q d m False]
      by (cases "u = t") (simp_all add: placed_def)
    show "v_used (put t st q d m dl v) u \<and> free (put t st q d m dl v) u" if "u \<in> X'" for u
      using T(7) [of u] X [of u] that t(1) X'(2) by (cases "u = t") simp_all
  qed
  show "hart_inv Hx X' (put t st q d m dl v)"
  proof (rule hart_invI)
    show "v_used (put t st q d m dl v) u \<and> u \<notin> X' \<and> v_state (put t st q d m dl v) u = TS_running \<and>
        v_cpu (put t st q d m dl v) u = Some h" if "v_cur (put t st q d m dl v) h = Some u" "h \<notin> Hx" for h u
      using H(6) [of h u] X [of u] that t(3) [of h] by (cases "u = t") simp_all
  qed (use H in simp_all)
qed (use G' in \<open>simp_all add: ep_inv_def\<close>)

lemma queue_inv_put:
  assumes "queue_inv G v" and "\<And>h. t \<in> set (g_dq G h) \<Longrightarrow> dl = v_deadline v t"
    and "g_dq G' = g_dq G" "g_out G' = g_out G" "\<And>i. g_rq G' (Local_rq i) = g_rq G (Local_rq i)"
  shows "queue_inv G' (put t st q d m dl v)"
proof -
  have eq: "map ((v_deadline v)(t := dl)) (g_dq G h) = map (v_deadline v) (g_dq G h)" for h
    using assms(2) [of h] by auto
  show ?thesis
    using assms(1,4,5) unfolding queue_inv_def put_simps assms(3) eq by simp
qed



lemma qinv_set_state:
  assumes "qinv Hx X G v" and "t \<in> X"
  shows "qinv Hx X G (put t st False False False (v_deadline v t) v)"
  using exempt_task [OF assms] assms(2) qinvD(3,4) [OF assms(1)]
  by (intro qinv_put [OF assms(1)]) (auto intro: queue_inv_put)

text \<open>A task without a place is put into one.\<close>

lemma qinv_enter_rq:
  assumes "qinv Hx (insert t X) G v" and "t \<notin> X"
  shows "qinv Hx X (enq_rq Global_rq t G) (put t TS_ready True False False (v_deadline v t) v)"
  using exempt_task [OF assms(1) insertI1] assms(2) qinvD(3,4) [OF assms(1)]
  by (intro qinv_put [OF assms(1)] queue_inv_put)
    (auto simp: place_def enq_rq_def ep_inv_def)

lemma qinv_enter_join:
  assumes "qinv Hx (insert t X) G v" and "t \<notin> X"
  shows "qinv Hx X G (put t TS_blocked_join False False False (v_deadline v t) v)"
  using exempt_task [OF assms(1) insertI1] assms(2) qinvD(3,4) [OF assms(1)]
  by (intro qinv_put [OF assms(1)] queue_inv_put) (auto simp: place_def)

lemma qinv_enter_wq:
  assumes "qinv Hx (insert t X) G v" and "t \<notin> X" and "ep_active (v_ep v e)" and "ep_count (v_ep v e) = 0"
  shows "qinv Hx X (enq_wq e t G) (put t TS_blocked_message False False True (v_deadline v t) v)"
  using exempt_task [OF assms(1) insertI1] assms(2-) qinvD(3,4) [OF assms(1)]
  by (intro qinv_put [OF assms(1)] queue_inv_put)
    (auto simp: place_def enq_wq_def ep_inv_def ep_wf_def)

lemma sorted_insert_after:
  fixes d :: "'a::linorder"
  assumes "sorted (map f xs)"
  shows "sorted (map f (takeWhile (\<lambda>u. f u \<le> d) xs) @ d # map f (dropWhile (\<lambda>u. f u \<le> d) xs))"
  using assms
proof (induction xs)
  case (Cons x xs)
  show ?case
  proof (cases "f x \<le> d")
    case True
    have "\<forall>y \<in> set (map f (takeWhile (\<lambda>u. f u \<le> d) xs) @ d # map f (dropWhile (\<lambda>u. f u \<le> d) xs)). f x \<le> y"
      using Cons.prems True by (auto dest: set_takeWhileD set_dropWhileD)
    with True Cons show ?thesis by simp
  qed (use Cons.prems in auto)
qed simp

lemma qinv_enter_dq:
  assumes Q: "qinv Hx (insert t X) G v" and "t \<notin> X"
    and "\<And>h. t \<notin> set (g_dq G h)" and "h < v_n v" and "v_deadline v = deadline_of c"
  shows "qinv Hx X (enq_dq h t d c G) (put t TS_blocked_sleep False True False d v)"
proof (rule qinv_put [OF Q])
  have nin: "t \<notin> set (takeWhile P (g_dq G h))" "t \<notin> set (dropWhile P (g_dq G h))" for P
    using assms(3) [of h] by (auto dest: set_takeWhileD set_dropWhileD)
  have same: "map ((deadline_of c)(t := d)) us = map (deadline_of c) us" if "t \<notin> set us" for us
    using that by auto
  have "sorted (map ((deadline_of c)(t := d)) (g_dq (enq_dq h t d c G) i))" for i
    using qinvD(3) [OF Q] sorted_insert_after [of "deadline_of c" "g_dq G h" d] same [OF assms(3) [of i]]
    by (auto simp: queue_inv_def enq_dq_def assms(5) same nin simp del: map_eq_conv)
  then show "queue_inv (enq_dq h t d c G) (put t TS_blocked_sleep False True False d v)"
    using qinvD(3) [OF Q] assms(4) by (auto simp: queue_inv_def assms(5) enq_dq_def)
qed (use exempt_task [OF Q insertI1] assms(2) qinvD(4) [OF Q] in
    \<open>auto simp: place_def enq_dq_def ep_inv_def\<close>)

text \<open>A waiting task is taken out of its queue.\<close>

lemma placed_flags:
  assumes "qinv Hx X G v" and "v_q v t \<or> v_d v t \<or> v_m v t"
  shows "v_used v t" "\<not> v_idle v t" "t \<notin> X" "placed Hx v t" "v_cur v h = Some t \<Longrightarrow> h \<in> Hx"
    "v_q v t \<Longrightarrow> v_state v t = TS_ready \<and> \<not> v_d v t \<and> \<not> v_m v t"
    "v_d v t \<Longrightarrow> v_state v t = TS_blocked_sleep \<and> \<not> v_q v t \<and> \<not> v_m v t"
    "v_m v t \<Longrightarrow> v_state v t = TS_blocked_message \<and> \<not> v_q v t \<and> \<not> v_d v t"
proof -
  note T = task_invD [OF qinvD(1) [OF assms(1)], of t]
  show u: "v_used v t" "\<not> v_idle v t" "t \<notin> X" using T(4,5,7) assms(2) by blast+
  show p: "placed Hx v t" by (rule T(6) [OF u])
  show "v_q v t \<Longrightarrow> v_state v t = TS_ready \<and> \<not> v_d v t \<and> \<not> v_m v t"
    "v_d v t \<Longrightarrow> v_state v t = TS_blocked_sleep \<and> \<not> v_q v t \<and> \<not> v_m v t"
    "v_m v t \<Longrightarrow> v_state v t = TS_blocked_message \<and> \<not> v_q v t \<and> \<not> v_d v t"
    using p by (auto simp: placed_def place_def)
  have "v_state v t \<noteq> TS_running" using p assms(2) by (auto simp: placed_def place_def)
  then show "v_cur v h = Some t \<Longrightarrow> h \<in> Hx"
    using hart_invD(6) [OF qinvD(2) [OF assms(1)], of h t] by blast
qed

lemma queued_facts:
  assumes "qinv Hx X G v" and "v_q v t \<or> v_d v t \<or> v_m v t"
  shows "v_used v t" "\<not> v_idle v t" "t \<notin> X" "\<And>h. v_cur v h = Some t \<Longrightarrow> h \<in> Hx"
  using placed_flags(1,2,3,5) [OF assms] by blast+

lemma qinv_leave_rq:
  assumes "qinv Hx X G v" and "v_q v t"
  shows "qinv Hx (insert t X) (deq_rq Global_rq G) (put t TS_ready False False False (v_deadline v t) v)"
proof (rule qinv_put [OF assms(1) queued_facts(1,2,4) [OF assms(1)]])
  show "queue_inv (deq_rq Global_rq G) (put t TS_ready False False False (v_deadline v t) v)"
    by (rule queue_inv_put [OF qinvD(3) [OF assms(1)]]) (simp_all add: deq_rq_def)
qed (use assms(2) qinvD(4) [OF assms(1)] in \<open>auto simp: deq_rq_def ep_inv_def\<close>)

lemma qinv_leave_wq:
  assumes "qinv Hx X G v" and "v_m v t" and "ep_inv (deq_wq e G) v"
  shows "qinv Hx (insert t X) (deq_wq e G) (put t TS_blocked_message False False False (v_deadline v t) v)"
proof (rule qinv_put [OF assms(1) queued_facts(1,2,4) [OF assms(1)]])
  show "queue_inv (deq_wq e G) (put t TS_blocked_message False False False (v_deadline v t) v)"
    by (rule queue_inv_put [OF qinvD(3) [OF assms(1)]]) (simp_all add: deq_wq_def)
qed (use assms(2,3) in auto)

lemma qinv_leave_dq:
  assumes "qinv Hx X G v" and "v_d v t" and "g_dq G h = t # ts"
  shows "qinv Hx (insert t X) (deq_dq h G) (put t TS_blocked_sleep False False False (v_deadline v t) v)"
proof (rule qinv_put [OF assms(1) queued_facts(1,2,4) [OF assms(1)]])
  have "queue_inv (deq_dq h G) v"
    using qinvD(3) [OF assms(1)] assms(3)
    by (auto simp: queue_inv_def deq_dq_def dest: spec [of _ h])
  then show "queue_inv (deq_dq h G) (put t TS_blocked_sleep False False False (v_deadline v t) v)"
    by (rule queue_inv_put) (simp_all add: deq_dq_def)
qed (use assms(2) qinvD(4) [OF assms(1)] in \<open>auto simp: deq_dq_def ep_inv_def\<close>)

section \<open>Switching a hart\<close>

definition run_on :: "nat \<Rightarrow> nat \<Rightarrow> kview \<Rightarrow> kview" where
  "run_on h t v = (put t TS_running False False False (v_deadline v t) v)
     \<lparr>v_cur := (v_cur v)(h := Some t), v_cpu := (v_cpu v)(t := Some h)\<rparr>"

lemma run_on_simps [simp]:
  "v_state (run_on h t v) = (v_state v)(t := TS_running)" "v_q (run_on h t v) = (v_q v)(t := False)"
  "v_d (run_on h t v) = (v_d v)(t := False)" "v_m (run_on h t v) = (v_m v)(t := False)"
  "v_deadline (run_on h t v) = v_deadline v" "v_used (run_on h t v) = v_used v"
  "v_idle (run_on h t v) = v_idle v" "v_cpu (run_on h t v) = (v_cpu v)(t := Some h)"
  "v_pin (run_on h t v) = v_pin v" "v_trk (run_on h t v) = v_trk v"
  "v_tid (run_on h t v) = v_tid v" "v_tused (run_on h t v) = v_tused v"
  "v_parent (run_on h t v) = v_parent v" "v_key (run_on h t v) = v_key v"
  "v_task (run_on h t v) = v_task v" "v_status (run_on h t v) = v_status v"
  "v_active (run_on h t v) = v_active v" "v_cur (run_on h t v) = (v_cur v)(h := Some t)"
  "v_bound (run_on h t v) = v_bound v" "v_idlet (run_on h t v) = v_idlet v"
  "v_n (run_on h t v) = v_n v" "v_next (run_on h t v) = v_next v"
  "v_init (run_on h t v) = v_init v" "v_ep (run_on h t v) = v_ep v"
  "v_slot (run_on h t v) = v_slot v"
  by (simp_all add: run_on_def)

lemma qinv_run_on:
  assumes Q: "qinv {h} (X \<union> Y) G v" and h: "h < v_n v"
    and t: "v_used v t" "free v t" "t \<notin> X" "Y \<subseteq> {t}" "\<not> v_idle v t \<Longrightarrow> t \<in> Y" "v_idle v t \<Longrightarrow> v_idlet v h = Some t"
    and cur: "\<And>h'. v_cur v h' = Some t \<Longrightarrow> h' = h"
  shows "qinv {} X G (run_on h t v)"
proof (rule qinvI)
  note T = task_invD [OF qinvD(1) [OF Q]] and H = hart_invD [OF qinvD(2) [OF Q]]
  show "task_inv {} X (run_on h t v)"
  proof (rule task_invI)
    show "u < kMaxTasks \<and> v_pin (run_on h t v) u = 0 \<and> (\<exists>h'<v_n (run_on h t v). v_cpu (run_on h t v) u = Some h')"
      if "v_used (run_on h t v) u" for u
      using T(1-3) [of u] that h by auto
    show "free (run_on h t v) u" if "\<not> v_used (run_on h t v) u" for u
      using T(4) [of u] that by simp
    show "u \<notin> X \<and> free (run_on h t v) u \<and> v_state (run_on h t v) u \<in> {TS_ready, TS_running} \<and>
        (\<exists>h' < v_n (run_on h t v). v_idlet (run_on h t v) h' = Some u)"
      if "v_used (run_on h t v) u" "v_idle (run_on h t v) u" for u
      using T(5) [of u] that by auto
    show "placed {} (run_on h t v) u" if "v_used (run_on h t v) u" "\<not> v_idle (run_on h t v) u" "u \<notin> X" for u
    proof (cases "u = t")
      case False
      then have "placed {h} v u" using T(6) [of u] that t(4) by auto
      then show ?thesis
        unfolding placed_def using False by (auto elim!: place_mono)
    qed (auto simp: placed_def place_def intro: exI [of _ h])
    show "v_used (run_on h t v) u \<and> free (run_on h t v) u" if "u \<in> X" for u
      using T(7) [of u] that t(3) by auto
  qed
  show "hart_inv {} X (run_on h t v)"
  proof (rule hart_invI)
    show "\<exists>u. v_idlet (run_on h t v) h' = Some u \<and> v_used (run_on h t v) u \<and> v_idle (run_on h t v) u \<and>
        v_cpu (run_on h t v) u = Some h'" if "h' < v_n (run_on h t v)" for h'
      using H(4) [of h'] H(4) [OF h] t(5,6) that T(7) [of t] T(5) [of t] t(1) by auto
    show "v_used (run_on h t v) u \<and> u \<notin> X \<and> v_state (run_on h t v) u = TS_running \<and> v_cpu (run_on h t v) u = Some h'"
      if "v_cur (run_on h t v) h' = Some u" for h' u
      using H(6) [of h' u] that t(1,3) cur [of h'] by (auto split: if_splits)
  qed (use H h in \<open>auto split: if_splits\<close>)
qed (use qinvD(3,4) [OF Q] in \<open>simp_all add: queue_inv_def ep_inv_def\<close>)

lemma qinv_congs [simp]:
  "tree_inv (put t st q d m dl v) = tree_inv v" "tree_inv (run_on h t v) = tree_inv v"
  by (simp_all add: tree_inv_def)

lemma join_inv_put:
  assumes "join_inv v" and "v_state v t \<noteq> TS_blocked_join" and "st \<noteq> TS_blocked_join"
  shows "join_inv (put t st q d m dl v)"
  using assms unfolding join_inv_def by simp

lemma join_inv_run_on:
  assumes "join_inv v" and "v_state v t \<noteq> TS_blocked_join"
  shows "join_inv (run_on h t v)"
  using assms unfolding join_inv_def by simp

lemma view_upd_task:
  assumes "\<And>x. t_idle (f x) = t_idle x \<and> t_cpu (f x) = t_cpu x \<and> t_affinity_pinned (f x) = t_affinity_pinned x \<and>
    t_tracker (f x) = t_tracker x \<and> t_tid (f x) = t_tid x"
  shows "view (upd_task t f c) = put t (t_state (f (k_tasks c t))) (t_queued (f (k_tasks c t)))
    (dn_queued (t_delay (f (k_tasks c t)))) (mw_queued (t_message_wait (f (k_tasks c t))))
    (dn_deadline (t_delay (f (k_tasks c t)))) (view c)"
  using assms by (intro kview.equality) (simp_all add: view_def put_def fun_eq_iff)

lemma view_moves:
  "view (upd_task t make_ready c) = put t TS_ready True (v_d (view c) t) (v_m (view c) t) (v_deadline (view c) t) (view c)"
  "view (upd_task t unqueue c) = put t (v_state (view c) t) False (v_d (view c) t) (v_m (view c) t) (v_deadline (view c) t) (view c)"
  "view (upd_task t (make_delayed d) c) = put t (v_state (view c) t) (v_q (view c) t) True (v_m (view c) t) d (view c)"
  "view (upd_task t undelay c) = put t (v_state (view c) t) (v_q (view c) t) False (v_m (view c) t) (v_deadline (view c) t) (view c)"
  "view (upd_task t (set_waiting b) c) = put t (v_state (view c) t) (v_q (view c) t) (v_d (view c) t) b (v_deadline (view c) t) (view c)"
  by (subst view_upd_task; simp add: make_ready_def unqueue_def make_delayed_def undelay_def set_waiting_def)+

end
