(* ===== verification/Scheduler_Steps.thy ===== *)
theory Scheduler_Steps
  imports Kernel_Invariant
begin

text \<open>
  The scheduler operations on states that satisfy the kernel invariant: none of them parks, and
  each is the list operation one expects.  A hart that switches takes the head of the global
  queue, or its idle task when the queue is empty.
\<close>

section \<open>The scheduler under the invariant\<close>

text \<open>What \<^verbatim>\<open>set_next_runnable\<close> does: the head of the global queue, or else the idle task, runs.\<close>

definition next_task :: "nat \<Rightarrow> ghost \<Rightarrow> kst \<Rightarrow> nat" where
  "next_task h G c = (case g_rq G Global_rq of [] \<Rightarrow> the (hl_idle_task (k_harts c h)) | t # _ \<Rightarrow> t)"

definition switch_to :: "nat \<Rightarrow> nat \<Rightarrow> u64 \<Rightarrow> nat \<Rightarrow> kst \<Rightarrow> kst" where
  "switch_to h t ticks r c =
     upd_hart h (\<lambda>l. l\<lparr>hl_timeslice_ticks := ticks, hl_current_task := Some t\<rparr>)
       (upd_task t (\<lambda>x. x\<lparr>t_queued := False, t_cpu := Some h, t_state := TS_running\<rparr>) (c\<lparr>k_reads := r\<rparr>))"

lemma view_switch_to:
  assumes "\<not> v_d (view c) t" "\<not> v_m (view c) t"
  shows "view (switch_to h t ticks r c) = run_on h t (view c)"
  using assms
  by (intro kview.equality) (auto simp: view_def run_on_def put_def switch_to_def fun_eq_iff hart_bound_def)

lemma next_task_facts:
  assumes S: "sim G c s" and Q: "qinv {h} X G (view c)" and h: "h < k_present_count c"
  defines "t \<equiv> next_task h G c"
  shows "v_used (view c) t" "t \<notin> X" "\<not> v_d (view c) t" "\<not> v_m (view c) t"
    "v_state (view c) t \<in> {TS_ready, TS_running}"
    "qinv {} X (deq_rq Global_rq G) (run_on h t (view c))"
proof -
  note T = task_invD [OF qinvD(1) [OF Q]] and H = hart_invD [OF qinvD(2) [OF Q]]
  let ?v = "view c"
  have "v_used ?v t \<and> t \<notin> X \<and> \<not> v_d ?v t \<and> \<not> v_m ?v t \<and> v_state ?v t \<in> {TS_ready, TS_running} \<and>
    qinv {} X (deq_rq Global_rq G) (run_on h t ?v)"
  proof (cases "g_rq G Global_rq")
    case Nil
    obtain i where i: "v_idlet ?v h = Some i" "v_used ?v i" "v_idle ?v i" "v_cpu ?v i = Some h"
      using H(4) [of h] h by auto
    then have t: "t = i" using Nil by (simp add: t_def next_task_def)
    have cur: "h' = h" if "v_cur ?v h' = Some i" for h'
      using H(6) [of h' i] that i by (cases "h' = h") auto
    have "deq_rq Global_rq G = G" using Nil by (simp add: deq_rq_def fun_upd_idem)
    moreover have "qinv {} X G (run_on h i ?v)"
      using qinv_run_on [of h X "{}" G ?v i] Q h i T(5) [of i] cur by auto
    ultimately show ?thesis using T(5) [of i] i t by auto
  next
    case (Cons u us)
    then have t: "t = u" by (simp add: t_def next_task_def)
    have q: "v_q ?v u" using sim_queued [OF S, of u] Cons by (metis list.set_intros(1) view_simps(4))
    note f = placed_flags(6) [OF Q disjI1 [OF q] q] queued_facts [OF Q disjI1 [OF q]]
    have run: "run_on h u (put u TS_ready False False False (v_deadline ?v u) ?v) = run_on h u ?v"
      by (simp add: run_on_def put_def)
    have "qinv {h} (X \<union> {u}) (deq_rq Global_rq G) (put u TS_ready False False False (v_deadline ?v u) ?v)"
      using qinv_leave_rq [OF Q q] by simp
    then have "qinv {} X (deq_rq Global_rq G) (run_on h u ?v)"
      using f q h by (subst run [symmetric], intro qinv_run_on [of h X "{u}"]) auto
    with f q t show ?thesis by auto
  qed
  then show "v_used (view c) t" "t \<notin> X" "\<not> v_d (view c) t" "\<not> v_m (view c) t"
    "v_state (view c) t \<in> {TS_ready, TS_running}"
    "qinv {} X (deq_rq Global_rq G) (run_on h t (view c))" by blast+
qed


lemma set_current_sim:
  assumes S: "sim G (upd_task t unqueue c) s"
    and t: "t_state (k_tasks c t) \<noteq> TS_ended" "\<not> v_d (view c) t" "\<not> v_m (view c) t"
  shows "\<exists>s'. set_current_task h t (upd_hart h (\<lambda>l. l\<lparr>hl_timeslice_ticks := ticks\<rparr>) (s\<lparr>k_reads := r\<rparr>)) = Some s' \<and>
    sim G (switch_to h t ticks r c) s'"
proof -
  let ?f = "\<lambda>x. x\<lparr>t_cpu := Some h, t_state := TS_running\<rparr>" and ?g = "\<lambda>l. l\<lparr>hl_timeslice_ticks := ticks\<rparr>"
    and ?k = "\<lambda>l. l\<lparr>hl_current_task := Some t\<rparr>"
  let ?s = "upd_hart h ?k (upd_task t ?f (upd_hart h ?g (s\<lparr>k_reads := r\<rparr>)))"
  have "task_safe ?f" by (simp add: task_safe_def erase_task_def)
  then have "sim G (upd_hart h ?k (upd_task t ?f (upd_hart h ?g ((upd_task t unqueue c)\<lparr>k_reads := r\<rparr>)))) ?s"
    by (intro sim_other(1,3) sim_upd_task S)
  moreover have "upd_hart h ?k (upd_task t ?f (upd_hart h ?g ((upd_task t unqueue c)\<lparr>k_reads := r\<rparr>))) = switch_to h t ticks r c"
    by (intro kst.equality) (simp_all add: switch_to_def unqueue_def fun_eq_iff)
  moreover have "set_current_task h t (upd_hart h ?g (s\<lparr>k_reads := r\<rparr>)) = Some ?s"
    using t by (simp add: set_current_task_def sim_reads [OF S] unqueue_def)
  ultimately show ?thesis by simp
qed

lemma set_next_sim:
  assumes S: "sim G c s" and Q: "qinv {h} X G (view c)" and h: "h < k_present_count c"
  shows "\<exists>ticks r s'. Scheduler_set_next_runnable h s = Some (next_task h G c, s') \<and>
    sim (deq_rq Global_rq G) (switch_to h (next_task h G c) ticks r c) s'"
proof -
  note T = task_invD [OF qinvD(1) [OF Q]] and H = hart_invD [OF qinvD(2) [OF Q]] and R = sim_reads [OF S]
    and N = next_task_facts [OF S Q h]
  let ?t = "next_task h G c"
  have hart: "hl_scheduler_extra (k_harts c h) = Some (Local_rq h)" "hl_delay_list (k_harts c h) = Some h"
    using H(3) [of h] h by (auto simp: hart_bound_def)
  have loc: "RunQueue_remove (Local_rq h) s = Some (None, s)"
    using qinvD(3) [OF Q] by (intro RunQueue_remove_empty [OF S]) (simp add: queue_inv_def)
  have ended: "t_state (k_tasks c ?t) \<noteq> TS_ended" using N(5) by auto
  show ?thesis
  proof (cases "g_rq G Global_rq")
    case Nil
    obtain i where i: "hl_idle_task (k_harts c h) = Some i" "v_used (view c) i" "v_idle (view c) i"
      using H(4) [of h] h by auto
    have ti: "?t = i" using Nil i by (simp add: next_task_def)
    have "upd_task i unqueue c = c"
      using T(5) [of i] i by (intro kst.equality) (auto simp: unqueue_def fun_eq_iff)
    then have S': "sim G (upd_task ?t unqueue c) s" using S ti by simp
    have deq: "deq_rq Global_rq G = G" using Nil by (simp add: deq_rq_def fun_upd_idem)
    obtain ticks where ticks: "idle_timeslice_ticks h s = (ticks, s\<lparr>k_reads := Suc (k_reads s)\<rparr>)"
      using hart by (simp add: idle_timeslice_ticks_def read_time_def R)
    have "Scheduler_set_next_runnable h s = set_current_task h ?t
        (upd_hart h (\<lambda>l. l\<lparr>hl_timeslice_ticks := ticks\<rparr>) (s\<lparr>k_reads := Suc (k_reads s)\<rparr>)) \<bind> (\<lambda>s4. Some (?t, s4))"
      using Nil i by (simp add: Scheduler_set_next_runnable_def hart loc RunQueue_size_def R ticks ti)
    with set_current_sim [OF S' ended N(3,4), of h ticks "Suc (k_reads s)"] show ?thesis
      unfolding deq by fastforce
  next
    case (Cons u us)
    then have tu: "?t = u" by (simp add: next_task_def)
    have q: "v_q (view c) u" using sim_queued [OF S, of u] Cons by (metis list.set_intros(1) view_simps(4))
    obtain s1 where s1: "RunQueue_remove Global_rq s = Some (Some u, s1)"
      "sim (deq_rq Global_rq G) (upd_task u unqueue c) s1"
      using RunQueue_remove_sim [OF S Cons] placed_flags(6) [OF Q disjI1 [OF q] q] by auto
    have "Scheduler_set_next_runnable h s = set_current_task h ?t
        (upd_hart h (\<lambda>l. l\<lparr>hl_timeslice_ticks := task_timeslice_ticks\<rparr>) (s1\<lparr>k_reads := k_reads s1\<rparr>)) \<bind> (\<lambda>s4. Some (?t, s4))"
      using Cons by (simp add: Scheduler_set_next_runnable_def hart loc RunQueue_size_def R s1(1) tu)
    with set_current_sim [OF s1(2) _ _ _, of h task_timeslice_ticks "k_reads s1"] ended N(3,4) tu show ?thesis
      by fastforce
  qed
qed

text \<open>
  The endpoint part of the view is irrelevant to the scheduler; the two lemmas below allow it to
  be replaced, for the use while an endpoint is being torn down.
\<close>

lemma put_ep: "(put t st q d m dl v)\<lparr>v_ep := E, v_slot := SL\<rparr> = put t st q d m dl (v\<lparr>v_ep := E, v_slot := SL\<rparr>)"
  by (simp add: put_def)

lemma view_ep: "(view c)\<lparr>v_ep := v_ep (view c), v_slot := v_slot (view c)\<rparr> = view c"
  by simp

lemma add_task_sim_ep:
  assumes S: "sim G c s" and Q: "qinv Hx (insert t X) G ((view c)\<lparr>v_ep := E, v_slot := SL\<rparr>)" "t \<notin> X"
    and st: "t_state (k_tasks c t) \<noteq> TS_ended"
  shows "\<exists>s'. Scheduler_add_task t s = (True, s') \<and> sim (enq_rq Global_rq t G) (upd_task t make_ready c) s'"
    "qinv Hx X (enq_rq Global_rq t G) ((view (upd_task t make_ready c))\<lparr>v_ep := E, v_slot := SL\<rparr>)"
proof -
  note x = exempt_task [OF Q(1) insertI1] and R = sim_reads [OF S]
  obtain h where h: "t_cpu (k_tasks c t) = Some h" "t_affinity_pinned (k_tasks c t) = 0"
    using task_invD(2,3) [OF qinvD(1) [OF Q(1)], of t] x by auto
  have "Scheduler_add_task t s = RunQueue_insert Global_rq t s"
    using x h st by (simp add: Scheduler_add_task_def R Let_def)
  then show "\<exists>s'. Scheduler_add_task t s = (True, s') \<and> sim (enq_rq Global_rq t G) (upd_task t make_ready c) s'"
    using RunQueue_insert_sim [OF S, of t Global_rq] x st by simp
  show "qinv Hx X (enq_rq Global_rq t G) ((view (upd_task t make_ready c))\<lparr>v_ep := E, v_slot := SL\<rparr>)"
    using qinv_enter_rq [OF Q] x by (simp add: view_moves put_ep)
qed

lemma deref_scheduler_ok_ep:
  assumes S: "sim G c s" and Q: "qinv Hx X G ((view c)\<lparr>v_ep := E, v_slot := SL\<rparr>)" and t: "k_task_slots_used c t"
  shows "deref_scheduler t s = Some ()"
proof -
  obtain h where h: "t_cpu (k_tasks c t) = Some h" "h < k_present_count c"
    using task_invD(3) [OF qinvD(1) [OF Q], of t] t by auto
  with hart_invD(3) [OF qinvD(2) [OF Q], of h] show ?thesis
    by (simp add: deref_scheduler_def sim_reads [OF S] hart_bound_def)
qed

lemma add_task_sim:
  assumes S: "sim G c s" and Q: "qinv Hx (insert t X) G (view c)" "t \<notin> X" and st: "t_state (k_tasks c t) \<noteq> TS_ended"
  shows "\<exists>s'. Scheduler_add_task t s = (True, s') \<and> sim (enq_rq Global_rq t G) (upd_task t make_ready c) s'"
    "qinv Hx X (enq_rq Global_rq t G) (view (upd_task t make_ready c))"
proof -
  have Q': "qinv Hx (insert t X) G ((view c)\<lparr>v_ep := v_ep (view c), v_slot := v_slot (view c)\<rparr>)"
    using Q(1) by (simp only: view_ep)
  note A = add_task_sim_ep [OF S Q' Q(2) st]
  show "\<exists>s'. Scheduler_add_task t s = (True, s') \<and> sim (enq_rq Global_rq t G) (upd_task t make_ready c) s'"
    by (rule A(1))
  show "qinv Hx X (enq_rq Global_rq t G) (view (upd_task t make_ready c))"
    using A(2) unfolding view_moves put_ep view_ep .
qed

lemmas deref_scheduler_ok = deref_scheduler_ok_ep [where E = "v_ep (view c)" and SL = "v_slot (view c)" and c = c for c,
    unfolded view_ep]

text \<open>The current task gives up its hart but stays runnable.\<close>

definition requeue :: "nat \<Rightarrow> kst \<Rightarrow> kst" where
  "requeue t c = (if t_idle (k_tasks c t) then c else upd_task t make_ready c)"

definition requeue_G :: "nat \<Rightarrow> kst \<Rightarrow> ghost \<Rightarrow> ghost" where
  "requeue_G t c G = (if t_idle (k_tasks c t) then G else enq_rq Global_rq t G)"

lemma return_runnable_sim:
  assumes S: "sim G c s" and K: "kinv {} G (view c)" and cur: "hl_current_task (k_harts c h) = Some t"
  shows "\<exists>s'. Scheduler_return_runnable h s = Some s' \<and> sim (requeue_G t c G) (requeue t c) s'"
    "kinv {h} (requeue_G t c G) (view (requeue t c))"
proof -
  note Q = kinvD(1) [OF K] and R = sim_reads [OF S]
  have t: "v_state (view c) t = TS_running" using hart_invD(6) [OF qinvD(2) [OF Q], of h t] cur by simp
  have "(\<exists>s'. Scheduler_return_runnable h s = Some s' \<and> sim (requeue_G t c G) (requeue t c) s') \<and>
    kinv {h} (requeue_G t c G) (view (requeue t c))"
  proof (cases "t_idle (k_tasks c t)")
    case True
    have "qinv {h} {} G (view c)"
      using qinv_leave_idle [OF Q, of h t] cur True by simp
    with True S K cur show ?thesis
      by (simp add: requeue_def requeue_G_def Scheduler_return_runnable_def get_current_task_def R kinv_def)
  next
    case False
    have Q': "qinv {h} (insert t {}) G (view c)"
      using qinv_leave [OF Q, of h t] cur False by simp
    have "join_inv (view (upd_task t make_ready c))"
      using join_inv_put [OF kinvD(3) [OF K], of t] t by (simp add: view_moves)
    with add_task_sim [OF S Q'] t cur False K show ?thesis
      by (auto simp: requeue_def requeue_G_def Scheduler_return_runnable_def get_current_task_def R kinv_def view_moves)
  qed
  then show "\<exists>s'. Scheduler_return_runnable h s = Some s' \<and> sim (requeue_G t c G) (requeue t c) s'"
    "kinv {h} (requeue_G t c G) (view (requeue t c))" by blast+
qed

lemma kinv_switch:
  assumes S: "sim G c s" and K: "kinv {h} G (view c)" and h: "h < k_present_count c"
  shows "kinv {} (deq_rq Global_rq G) (view (switch_to h (next_task h G c) ticks r c))"
proof -
  note N = next_task_facts [OF S kinvD(1) [OF K] h]
  have "v_state (view c) (next_task h G c) \<noteq> TS_blocked_join" using N(5) by auto
  with N(6) K show ?thesis
    by (simp add: view_switch_to [OF N(3,4)] kinv_def join_inv_run_on)
qed

text \<open>A hart that has given up its task picks the next one.\<close>

lemma reschedule:
  assumes S: "sim G c s" and K: "kinv {h} G (view c)" and h: "h < k_present_count c"
  shows "\<exists>c' s'. Scheduler_set_next_runnable h s = Some (next_task h G c, s') \<and>
    sim (deq_rq Global_rq G) c' s' \<and> kinv {} (deq_rq Global_rq G) (view c') \<and>
    hl_current_task (k_harts c' h) = Some (next_task h G c) \<and> (\<exists>ticks r. c' = switch_to h (next_task h G c) ticks r c)"
proof -
  obtain ticks r s' where n: "Scheduler_set_next_runnable h s = Some (next_task h G c, s')"
    "sim (deq_rq Global_rq G) (switch_to h (next_task h G c) ticks r c) s'"
    using set_next_sim [OF S kinvD(1) [OF K] h] by blast
  then show ?thesis
    using kinv_switch [OF S K h] by (intro exI conjI) (simp_all add: switch_to_def)
qed

end
