(* ===== verification/Task_Manager.thy ===== *)
theory Task_Manager
  imports Scheduler
begin

text \<open>
  Task creation, termination, joining and the tracker tree, class \<^verbatim>\<open>TaskManager\<close> of
  \<^verbatim>\<open>src/microkernel/core/task_manager.cpp\<close>.  Loops that follow tracker links, and the recursive
  removal of a tracker, are partial: \<open>None\<close> is a loop that does not end or a hart that parks.
\<close>

datatype wait_result = WR_completed | WR_blocked | WR_no_child

definition kTaskStackSize :: u64 where
  "kTaskStackSize = 4096"

definition clear_bytes :: "u64 \<Rightarrow> nat \<Rightarrow> kst \<Rightarrow> kst" where
  "clear_bytes address sz s =
     s\<lparr>k_ms := (k_ms s)\<lparr>ms_mem := memset_loop (ms_mem (k_ms s)) address 0 0 sz\<rparr>\<rparr>"

definition task_stack :: "image \<Rightarrow> nat \<Rightarrow> u64" where
  "task_stack im index = im_task_stacks im + kTaskStackSize * of_nat index"

definition vmm_map_stack :: "u64 \<Rightarrow> u64 \<Rightarrow> kst \<Rightarrow> bool \<times> kst" where
  "vmm_map_stack base sz s =
     (let (ok, v, ms) = map_boot_task_stack base sz (k_vmm s, k_ms s) in
      (ok, s\<lparr>k_vmm := v, k_ms := ms\<rparr>))"

section \<open>Initialisation\<close>

fun map_stacks :: "image \<Rightarrow> nat list \<Rightarrow> kst \<Rightarrow> bool \<times> kst" where
  "map_stacks im [] s = (True, s)"
| "map_stacks im (i # is) s =
     (let (ok, s1) = vmm_map_stack (task_stack im i) kTaskStackSize s in
      if ok then map_stacks im is s1 else (False, s1))"

definition TaskManager_initialize :: "image \<Rightarrow> kst \<Rightarrow> bool \<times> kst" where
  "TaskManager_initialize im s =
     (if k_tm_initialized s then (True, s)
      else let
        s1 = s\<lparr>
          k_tasks := (\<lambda>i. if i < kMaxTasks then zero_task else k_tasks s i),
          k_trackers := (\<lambda>i. if i < kMaxTasks then zero_tracker else k_trackers s i),
          k_task_slots_used := (\<lambda>i. if i < kMaxTasks then False else k_task_slots_used s i),
          k_tracker_slots_used := (\<lambda>i. if i < kMaxTasks then False else k_tracker_slots_used s i)\<rparr>;
        s2 = clear_bytes (im_task_stacks im) (kMaxTasks * unat kTaskStackSize) s1;
        (ok, s3) = map_stacks im [0..<kMaxTasks] s2
      in if \<not> ok then (False, s3)
         else (True, s3\<lparr>k_root_tasks := None, k_next_tid := 1, k_initial_task_id := 0,
                k_tm_initialized := True\<rparr>))"

section \<open>Slots\<close>

definition allocate_task_locked :: "kst \<Rightarrow> nat ptr \<times> kst" where
  "allocate_task_locked s =
     (case find (\<lambda>i. \<not> k_task_slots_used s i) [0..<kMaxTasks] of
        None \<Rightarrow> (None, s)
      | Some i \<Rightarrow> (Some i, s\<lparr>k_task_slots_used := (k_task_slots_used s)(i := True),
                     k_tasks := (k_tasks s)(i := zero_task)\<rparr>))"

definition allocate_tracker_locked :: "kst \<Rightarrow> nat ptr \<times> kst" where
  "allocate_tracker_locked s =
     (case find (\<lambda>i. \<not> k_tracker_slots_used s i) [0..<kMaxTasks] of
        None \<Rightarrow> (None, s)
      | Some i \<Rightarrow> (Some i, s\<lparr>k_tracker_slots_used := (k_tracker_slots_used s)(i := True),
                     k_trackers := (k_trackers s)(i := zero_tracker)\<rparr>))"

definition release_task_locked :: "nat \<Rightarrow> kst \<Rightarrow> kst option" where
  "release_task_locked t s =
     (let tk = k_tasks s t in
      if t \<ge> kMaxTasks then None
      else if t_queued tk \<or> dn_queued (t_delay tk) \<or> mw_queued (t_message_wait tk) then None
      else let s1 = (if t_stack_bottom tk \<noteq> 0
             then clear_bytes (t_stack_bottom tk) (unat kTaskStackSize) s else s)
        in Some (s1\<lparr>k_tasks := (k_tasks s1)(t := zero_task),
               k_task_slots_used := (k_task_slots_used s1)(t := False)\<rparr>))"

definition release_tracker_locked :: "nat \<Rightarrow> kst \<Rightarrow> kst option" where
  "release_tracker_locked x s =
     (if x \<ge> kMaxTasks then None
      else Some (s\<lparr>k_trackers := (k_trackers s)(x := zero_tracker),
             k_tracker_slots_used := (k_tracker_slots_used s)(x := False)\<rparr>))"

section \<open>The tracker tree\<close>

text \<open>The list head of the children of \<open>parent\<close>; the root list when there is no parent.\<close>

definition child_head :: "nat ptr \<Rightarrow> kst \<Rightarrow> nat ptr" where
  "child_head parent s =
     (case parent of None \<Rightarrow> k_root_tasks s | Some p \<Rightarrow> tt_first_child (k_trackers s p))"

definition set_child_head :: "nat ptr \<Rightarrow> nat ptr \<Rightarrow> kst \<Rightarrow> kst" where
  "set_child_head parent v s =
     (case parent of
        None \<Rightarrow> s\<lparr>k_root_tasks := v\<rparr>
      | Some p \<Rightarrow> upd_tracker p (\<lambda>x. x\<lparr>tt_first_child := v\<rparr>) s)"

definition link_tracker_locked :: "nat \<Rightarrow> nat ptr \<Rightarrow> kst \<Rightarrow> kst" where
  "link_tracker_locked x parent s =
     (let s1 = upd_tracker x (\<lambda>r. r\<lparr>tt_parent := parent, tt_previous_sibling := None\<rparr>) s;
          hd = child_head parent s1;
          s2 = upd_tracker x (\<lambda>r. r\<lparr>tt_next_sibling := hd\<rparr>) s1;
          s3 = (case hd of
                  None \<Rightarrow> s2
                | Some c \<Rightarrow> upd_tracker c (\<lambda>r. r\<lparr>tt_previous_sibling := Some x\<rparr>) s2)
      in set_child_head parent (Some x) s3)"

definition unlink_tracker_locked :: "nat \<Rightarrow> kst \<Rightarrow> kst" where
  "unlink_tracker_locked x s =
     (let tr = k_trackers s x;
          s1 = (case tt_previous_sibling tr of
                  Some p \<Rightarrow> upd_tracker p (\<lambda>r. r\<lparr>tt_next_sibling := tt_next_sibling tr\<rparr>) s
                | None \<Rightarrow> set_child_head (tt_parent tr) (tt_next_sibling tr) s);
          s2 = (case tt_next_sibling (k_trackers s1 x) of
                  Some n \<Rightarrow> upd_tracker n
                    (\<lambda>r. r\<lparr>tt_previous_sibling := tt_previous_sibling (k_trackers s1 x)\<rparr>) s1
                | None \<Rightarrow> s1)
      in upd_tracker x (\<lambda>r. r\<lparr>tt_previous_sibling := None, tt_next_sibling := None\<rparr>) s2)"

text \<open>
  The loop of \<^verbatim>\<open>remove_tracker_locked\<close> over the children of \<open>x\<close>, then the release of \<open>x\<close>.  The
  recursive call on a reaped child is its first two statements and the loop again.
\<close>

partial_function (option) remove_children :: "nat \<Rightarrow> nat ptr \<Rightarrow> kst \<Rightarrow> kst option" where
  "remove_children x new_parent s =
     (case tt_first_child (k_trackers s x) of
        None \<Rightarrow> release_tracker_locked x s
      | Some child \<Rightarrow>
          let s1 = link_tracker_locked child new_parent (unlink_tracker_locked child s);
              tr = k_trackers s1 child in
          if new_parent = None \<and> tt_task tr = None then
            (if tt_status tr = ES_crashed then None
             else do {
               s2 \<leftarrow> remove_children child (tt_parent tr) (unlink_tracker_locked child s1);
               remove_children x new_parent s2
             })
          else remove_children x new_parent s1)"

definition remove_tracker_locked :: "nat \<Rightarrow> kst \<Rightarrow> kst option" where
  "remove_tracker_locked x s =
     remove_children x (tt_parent (k_trackers s x)) (unlink_tracker_locked x s)"

text \<open>The two searches of \<^verbatim>\<open>find_child_locked\<close>, from a sibling on.\<close>

partial_function (option) find_by_key :: "u64 \<Rightarrow> nat ptr \<Rightarrow> kst \<Rightarrow> nat ptr option" where
  "find_by_key key cursor s =
     (case cursor of
        None \<Rightarrow> Some None
      | Some c \<Rightarrow> if tt_key (k_trackers s c) = key then Some (Some c)
          else find_by_key key (tt_next_sibling (k_trackers s c)) s)"

partial_function (option) find_completed :: "nat ptr \<Rightarrow> kst \<Rightarrow> nat ptr option" where
  "find_completed cursor s =
     (case cursor of
        None \<Rightarrow> Some None
      | Some c \<Rightarrow> if tt_task (k_trackers s c) = None then Some (Some c)
          else find_completed (tt_next_sibling (k_trackers s c)) s)"

definition find_child_locked :: "nat \<Rightarrow> u64 \<Rightarrow> kst \<Rightarrow> nat ptr option" where
  "find_child_locked parent tid s =
     (if 0 \<le>s tid then find_by_key tid (tt_first_child (k_trackers s parent)) s
      else do {
        completed \<leftarrow> find_completed (tt_first_child (k_trackers s parent)) s;
        (case completed of
           Some c \<Rightarrow> Some (Some c)
         | None \<Rightarrow> Some (tt_first_child (k_trackers s parent)))
      })"

section \<open>Creating tasks\<close>

text \<open>The assignments to the new task and its tracker.\<close>

definition setup_task ::
    "image \<Rightarrow> nat \<Rightarrow> u64 \<Rightarrow> u64 \<Rightarrow> address_space \<Rightarrow> nat \<Rightarrow> bool \<Rightarrow> u64 \<Rightarrow> u64 \<Rightarrow> nat \<Rightarrow> nat \<Rightarrow> kst \<Rightarrow> kst" where
  "setup_task im h entry argument sp owner idle stack_bottom stack_top t x s =
     (let tid = k_next_tid s;
          s1 = s\<lparr>k_next_tid := tid + 1\<rparr>;
          s2 = upd_task t (\<lambda>r. r\<lparr>t_cpu := Some owner, t_address_space := sp,
            t_tid := tid, t_affinity_pinned := 0, t_state := TS_ready,
            t_state_info := 0, t_tracker := Some x, t_stack_bottom := stack_bottom,
            t_stack_top := stack_top, t_detached := False, t_idle := idle,
            t_queued := False, t_previous := None, t_next := None,
            t_message_wait := zero_message_wait,
            t_context := initialize_user (csr_mstatus (k_csr s h)) entry argument
              stack_top (im_user_task_end_stub im) (satp_value sp) (t_context r)\<rparr>) s1
      in upd_tracker x (\<lambda>r. r\<lparr>tt_key := t_tid (k_tasks s2 t), tt_task := Some t,
           tt_status := ES_running, tt_return_value := 0, tt_wait := zero_wait,
           tt_entry_point := entry\<rparr>) s2)"

definition create_task_locked ::
    "image \<Rightarrow> nat \<Rightarrow> u64 \<Rightarrow> u64 \<Rightarrow> address_space \<Rightarrow> nat \<Rightarrow> bool \<Rightarrow> bool \<Rightarrow> bool \<Rightarrow> kst \<Rightarrow>
       (nat ptr \<times> kst) option" where
  "create_task_locked im h entry argument sp owner kernel_parent idle with_stack s =
     (if \<not> k_tm_initialized s \<or> \<not> address_space_valid sp \<or> \<not> is_boot_user_entry entry (k_vmm s)
        then Some (None, s)
      else let (tp, s1) = allocate_task_locked s; (xp, s2) = allocate_tracker_locked s1 in
        case (tp, xp) of
          (None, None) \<Rightarrow> Some (None, s2)
        | (Some t, None) \<Rightarrow> do { s3 \<leftarrow> release_task_locked t s2; Some (None, s3) }
        | (None, Some x) \<Rightarrow> do { s3 \<leftarrow> release_tracker_locked x s2; Some (None, s3) }
        | (Some t, Some x) \<Rightarrow>
            let stack_bottom = (if with_stack then task_stack im t else 0);
                stack_top = (if with_stack then stack_bottom + kTaskStackSize else 0);
                s3 = (if with_stack then clear_bytes stack_bottom (unat kTaskStackSize) s2 else s2);
                (ok, s4) = (if with_stack then vmm_map_stack stack_bottom kTaskStackSize s3
                            else (True, s3))
            in if \<not> ok then do {
                 s5 \<leftarrow> release_tracker_locked x s4;
                 s6 \<leftarrow> release_task_locked t s5;
                 Some (None, s6)
               }
               else let
                 s7 = setup_task im h entry argument sp owner idle stack_bottom stack_top t x s4;
                 parent_task = (if kernel_parent then None else get_current_task h s7);
                 parent = (case parent_task of None \<Rightarrow> None | Some p \<Rightarrow> t_tracker (k_tasks s7 p))
               in Some (Some t, link_tracker_locked x parent s7))"

definition create_idle_task :: "image \<Rightarrow> nat \<Rightarrow> nat \<Rightarrow> kst \<Rightarrow> (nat ptr \<times> kst) option" where
  "create_idle_task im h owner s =
     create_task_locked im h (im_user_idle_task im) 0 (vm_boot_address_space (k_vmm s)) owner
       True True False s"

definition create_task ::
    "image \<Rightarrow> nat \<Rightarrow> u64 \<Rightarrow> u64 \<Rightarrow> address_space \<Rightarrow> nat \<Rightarrow> bool \<Rightarrow> kst \<Rightarrow> (nat ptr \<times> kst) option" where
  "create_task im h entry argument sp owner kernel_parent s =
     create_task_locked im h entry argument sp owner kernel_parent False True s"

section \<open>Ending, waiting, detaching\<close>

text \<open>Waking a parent that waits for the ended child \<open>x\<close>, and the reaping of \<open>x\<close>.\<close>

definition end_task_notify :: "nat \<Rightarrow> nat \<Rightarrow> exit_status \<Rightarrow> kst \<Rightarrow> kst option" where
  "end_task_notify t x status s =
     (let tk = k_tasks s t in
      if t_detached tk then
        (if status = ES_crashed then None else remove_tracker_locked x s)
      else case tt_parent (k_trackers s x) of
        None \<Rightarrow> if status = ES_crashed then None else remove_tracker_locked x s
      | Some p \<Rightarrow>
          if wi_active (tt_wait (k_trackers s p)) then
            let w = wi_tid (tt_wait (k_trackers s p)) in
            if w <s 0 \<or> w = t_tid tk then do {
              pt \<leftarrow> tt_task (k_trackers s p);
              let s1 = upd_tracker p (\<lambda>r. r\<lparr>tt_wait := (tt_wait r)\<lparr>wi_active := False\<rparr>\<rparr>) s;
              let s2 = set_task_x pt 10 (t_tid tk) s1;
              s3 \<leftarrow> remove_tracker_locked x s2;
              pt' \<leftarrow> tt_task (k_trackers s3 p);
              deref_scheduler pt' s3;
              let (ok, s4) = Scheduler_add_task pt' s3;
              park_unless ok;
              Some s4
            } else Some s
          else Some s)"

definition end_task :: "nat \<Rightarrow> nat \<Rightarrow> u64 \<Rightarrow> exit_status \<Rightarrow> kst \<Rightarrow> kst option" where
  "end_task h t return_value status s = do {
     let ending_current = (get_current_task h s = Some t);
     park_unless (ending_current \<or>
       \<not> (t_queued (k_tasks s t) \<or> t_state (k_tasks s t) = TS_running));
     let s1 = upd_task t (\<lambda>r. r\<lparr>t_state := TS_ended\<rparr>) s;
     s2 \<leftarrow> (if ending_current then do {
              deref_scheduler t s1;
              (_, s') \<leftarrow> Scheduler_set_next_runnable h s1;
              Some s'
            } else Some s1);
     x \<leftarrow> t_tracker (k_tasks s2 t);
     let s3 = upd_tracker x (\<lambda>r. r\<lparr>tt_status := status, tt_return_value := return_value,
            tt_task := None\<rparr>) s2;
     s4 \<leftarrow> end_task_notify t x status s3;
     release_task_locked t s4
   }"

definition wait_task :: "nat \<Rightarrow> nat \<Rightarrow> u64 \<Rightarrow> kst \<Rightarrow> (wait_result \<times> kst) option" where
  "wait_task h t tid s = do {
     park_unless (get_current_task h s = Some t);
     x \<leftarrow> t_tracker (k_tasks s t);
     child \<leftarrow> find_child_locked x tid s;
     (case child of
        None \<Rightarrow> Some (WR_no_child, s)
      | Some c \<Rightarrow>
          if tt_task (k_trackers s c) = None then do {
            let s1 = set_task_x t 10 (tt_key (k_trackers s c)) s;
            s2 \<leftarrow> remove_tracker_locked c s1;
            Some (WR_completed, s2)
          } else do {
            let s1 = upd_tracker x (\<lambda>r. r\<lparr>tt_wait := \<lparr>wi_active = True, wi_tid = tid,
                   wi_status_address = 0, wi_return_value_address = 0\<rparr>\<rparr>) s;
            let s2 = upd_task t (\<lambda>r. r\<lparr>t_state := TS_blocked_join, t_state_info := tid\<rparr>) s1;
            deref_scheduler t s2;
            (_, s3) \<leftarrow> Scheduler_set_next_runnable h s2;
            Some (WR_blocked, s3)
          })
   }"

definition detach_task :: "nat \<Rightarrow> nat \<Rightarrow> kst \<Rightarrow> (bool \<times> kst) option" where
  "detach_task h t s = do {
     park_unless (get_current_task h s = Some t);
     Some (if t_state (k_tasks s t) = TS_ended then (False, s)
           else (True, upd_task t (\<lambda>r. r\<lparr>t_detached := True\<rparr>) s))
   }"

section \<open>Contexts of the current task\<close>

definition save_current_context :: "nat \<Rightarrow> trap_frame \<Rightarrow> kst \<Rightarrow> kst option" where
  "save_current_context h frame s = do {
     t \<leftarrow> get_current_task h s;
     Some (upd_task t
       (\<lambda>r. r\<lparr>t_context := save_from_trap (csr_satp (k_csr s h)) frame (t_context r)\<rparr>) s)
   }"

definition restore_current_context :: "nat \<Rightarrow> trap_frame \<Rightarrow> kst \<Rightarrow> (trap_frame \<times> kst) option" where
  "restore_current_context h frame s = do {
     t \<leftarrow> get_current_task h s;
     let c = t_context (k_tasks s t);
     Some (restore_to_trap c frame,
       s\<lparr>k_csr := (k_csr s)(h := (k_csr s h)\<lparr>csr_satp := ctx_satp c\<rparr>)\<rparr>)
   }"

definition set_initial_task :: "nat \<Rightarrow> kst \<Rightarrow> kst" where
  "set_initial_task t s = s\<lparr>k_initial_task_id := t_tid (k_tasks s t)\<rparr>"

definition initial_task_id :: "kst \<Rightarrow> u64" where
  "initial_task_id s = k_initial_task_id s"

section \<open>Refinement of the sibling lists\<close>

definition link_ch :: "nat \<Rightarrow> nat option \<Rightarrow> ghost \<Rightarrow> ghost" where
  "link_ch x p G = G\<lparr>g_ch := (g_ch G)(p := x # g_ch G p), g_out := g_out G - {x}\<rparr>"

definition unlink_ch :: "nat \<Rightarrow> nat option \<Rightarrow> ghost \<Rightarrow> ghost" where
  "unlink_ch x p G = G\<lparr>g_ch := (g_ch G)(p := remove1 x (g_ch G p)), g_out := insert x (g_out G)\<rparr>"

definition set_parent :: "nat option \<Rightarrow> task_tracker \<Rightarrow> task_tracker" where
  "set_parent p r = r\<lparr>tt_parent := p\<rparr>"

lemma sim_ch_family:
  "sim G c s \<Longrightarrow> family (\<lambda>x. tt_previous_sibling (k_trackers s x))
     (\<lambda>x. tt_next_sibling (k_trackers s x)) (\<lambda>x. k_tracker_slots_used s x \<and> x \<notin> g_out G) (g_ch G)"
  by (simp add: sim_def ch_rep_def)

lemma sim_parent: "sim G c s \<Longrightarrow> x \<in> set (g_ch G p) \<Longrightarrow> tt_parent (k_trackers c x) = p"
  by (auto simp: sim_def ch_rep_def)

lemma sim_linked:
  assumes "sim G c s" and "k_tracker_slots_used c x" and "x \<notin> g_out G"
  shows "x \<in> set (g_ch G (tt_parent (k_trackers c x)))"
proof -
  obtain p where "x \<in> set (g_ch G p)"
    using familyD(5) [OF sim_ch_family [OF assms(1)], of x] assms by (auto simp: sim_reads)
  with sim_parent [OF assms(1) this] show ?thesis by simp
qed

lemma sim_linked_used:
  assumes "sim G c s" and "x \<in> set (g_ch G p)"
  shows "k_tracker_slots_used c x" "x \<notin> g_out G"
  using familyD(3) [OF sim_ch_family [OF assms(1)] assms(2)] by (simp_all add: sim_reads [OF assms(1)])

lemma unlink_tracker_sim:
  assumes S: "sim G c s" and x: "x \<in> set (g_ch G p)"
  shows "sim (unlink_ch x p G) c (unlink_tracker_locked x s)"
proof -
  note R = sim_reads [OF S]
  obtain xs ys where ls: "g_ch G p = xs @ x # ys" and nin: "x \<notin> set xs"
    using x by (metis split_list_first)
  have par: "tt_parent (k_trackers s x) = p"
    using sim_parent [OF S x] by (simp add: R)
  have lk: "tt_previous_sibling (k_trackers s x) = lastp xs" "tt_next_sibling (k_trackers s x) = first ys"
    using family_links [OF sim_ch_family [OF S] ls] .
  have dis: "distinct (xs @ x # ys)"
    using familyD(2) [OF sim_ch_family [OF S], of p] ls by simp
  then have ends: "lastp xs \<noteq> Some x" "first ys \<noteq> Some x"
    by (auto dest: lastp_mem first_mem)
  let ?s = "unlink_tracker_locked x s"
  have f: "tt_previous_sibling (k_trackers ?s u) = (if u = x then None else if Some u = first ys then lastp xs
        else tt_previous_sibling (k_trackers s u))"
    "tt_next_sibling (k_trackers ?s u) = (if u = x then None else if Some u = lastp xs then first ys
        else tt_next_sibling (k_trackers s u))"
    "tt_first_child (k_trackers ?s u) = (if Some u = p \<and> xs = [] then first ys else tt_first_child (k_trackers s u))"
    "erase_tracker (k_trackers ?s u) = erase_tracker (k_trackers s u)"
    "k_root_tasks ?s = (if p = None \<and> xs = [] then first ys else k_root_tasks s)" for u
    using ends
    by (cases "lastp xs"; cases "first ys"; cases p;
        auto simp: unlink_tracker_locked_def Let_def par lk set_child_head_def erase_tracker_def)+
  have s': "?s = s\<lparr>k_trackers := k_trackers ?s, k_tracker_slots_used := k_tracker_slots_used s,
      k_root_tasks := k_root_tasks ?s\<rparr>"
    by (cases "lastp xs"; cases "first ys"; cases p; intro kst.equality)
      (auto simp: unlink_tracker_locked_def Let_def par lk set_child_head_def)
  have fam: "family (\<lambda>u. tt_previous_sibling (k_trackers ?s u)) (\<lambda>u. tt_next_sibling (k_trackers ?s u))
      (\<lambda>u. k_tracker_slots_used s u \<and> u \<notin> insert x (g_out G)) ((g_ch G)(p := xs @ ys))"
    by (rule family_remove [OF sim_ch_family [OF S] ls]) (auto simp: f)
  have par': "tt_parent (k_trackers ?s u) = tt_parent (k_trackers s u)" for u
    using f(4) [of u] by (metis erase_tracker_simps(1))
  have rem: "remove1 x (g_ch G p) = xs @ ys"
    using nin by (simp add: ls remove1_append)
  show ?thesis
    unfolding unlink_ch_def rem
  proof (rule sim_ch_change [OF S s' fam])
    show "k_root_tasks ?s = first (((g_ch G)(p := xs @ ys)) None)"
      using ls by (auto simp: f R)
    show "tt_first_child (k_trackers ?s u) = first (((g_ch G)(p := xs @ ys)) (Some u))" for u
      using ls by (auto simp: f R)
    show "tt_parent (k_trackers ?s u) = q" if "u \<in> set (((g_ch G)(p := xs @ ys)) q)" for q u
      using that ls sim_parent [OF S, of u q] by (auto simp: par' R split: if_splits)
    show "c = c\<lparr>k_trackers := \<lambda>u. erase_tracker (k_trackers ?s u), k_tracker_slots_used := k_tracker_slots_used s\<rparr>"
      by (simp add: f simD(1) [OF S] erase_def)
  qed
qed

lemma link_tracker_sim:
  assumes S: "sim G c s" and x: "k_tracker_slots_used c x" "x \<in> g_out G"
  shows "sim (link_ch x p G) (upd_tracker x (set_parent p) c) (link_tracker_locked x p s)"
proof -
  note R = sim_reads [OF S]
  define ys where "ys = g_ch G p"
  have nin: "x \<notin> set (g_ch G q)" for q
    using sim_linked_used(2) [OF S] x(2) by blast
  then have ends: "first ys \<noteq> Some x"
    unfolding ys_def by (blast dest: first_mem)
  have hd: "child_head p (upd_tracker x (\<lambda>r. r\<lparr>tt_parent := p, tt_previous_sibling := None\<rparr>) s) = first ys"
    by (cases p) (auto simp: child_head_def R ys_def)
  let ?s = "link_tracker_locked x p s"
  have f: "tt_previous_sibling (k_trackers ?s u) = (if u = x then None else if Some u = first ys then Some x
        else tt_previous_sibling (k_trackers s u))"
    "tt_next_sibling (k_trackers ?s u) = (if u = x then first ys else tt_next_sibling (k_trackers s u))"
    "tt_first_child (k_trackers ?s u) = (if Some u = p then Some x else tt_first_child (k_trackers s u))"
    "erase_tracker (k_trackers ?s u) = (if u = x then set_parent p (erase_tracker (k_trackers s x))
        else erase_tracker (k_trackers s u))"
    "k_root_tasks ?s = (if p = None then Some x else k_root_tasks s)" for u
    using ends unfolding link_tracker_locked_def Let_def hd
    by (cases "first ys"; cases p; auto simp: set_child_head_def erase_tracker_def set_parent_def)+
  have s': "?s = s\<lparr>k_trackers := k_trackers ?s, k_tracker_slots_used := k_tracker_slots_used s,
      k_root_tasks := k_root_tasks ?s\<rparr>"
    unfolding link_tracker_locked_def Let_def hd
    by (cases "first ys"; cases p; intro kst.equality) (auto simp: set_child_head_def)
  have fam: "family (\<lambda>u. tt_previous_sibling (k_trackers ?s u)) (\<lambda>u. tt_next_sibling (k_trackers ?s u))
      (\<lambda>u. k_tracker_slots_used s u \<and> u \<notin> g_out G - {x}) ((g_ch G)(p := x # g_ch G p))"
    by (rule family_push_front [OF sim_ch_family [OF S]]) (use x in \<open>auto simp: f ys_def R\<close>)
  have par': "tt_parent (k_trackers ?s u) = (if u = x then p else tt_parent (k_trackers s u))" for u
    using f(4) [of u] erase_tracker_simps(1) [of "k_trackers ?s u"]
    by (auto simp: set_parent_def split: if_splits)
  show ?thesis
    unfolding link_ch_def
  proof (rule sim_ch_change [OF S s' fam])
    show "k_root_tasks ?s = first (((g_ch G)(p := x # g_ch G p)) None)"
      by (auto simp: f R)
    show "tt_first_child (k_trackers ?s u) = first (((g_ch G)(p := x # g_ch G p)) (Some u))" for u
      by (auto simp: f R)
    show "tt_parent (k_trackers ?s u) = q" if "u \<in> set (((g_ch G)(p := x # g_ch G p)) q)" for q u
      using that nin sim_parent [OF S, of u q] by (auto simp: par' R split: if_splits)
    show "upd_tracker x (set_parent p) c = c\<lparr>k_trackers := \<lambda>u. erase_tracker (k_trackers ?s u),
        k_tracker_slots_used := k_tracker_slots_used s\<rparr>"
      by (simp add: f simD(1) [OF S] erase_def upd_tracker_def fun_eq_iff)
  qed
qed

text \<open>A tracker slot is taken and given back while it is linked nowhere.\<close>

definition take_tracker :: "nat \<Rightarrow> kst \<Rightarrow> kst" where
  "take_tracker x c = c\<lparr>k_tracker_slots_used := (k_tracker_slots_used c)(x := True),
     k_trackers := (k_trackers c)(x := zero_tracker)\<rparr>"

definition drop_tracker :: "nat \<Rightarrow> kst \<Rightarrow> kst" where
  "drop_tracker x c = c\<lparr>k_tracker_slots_used := (k_tracker_slots_used c)(x := False),
     k_trackers := (k_trackers c)(x := zero_tracker)\<rparr>"

lemma erase_zero [simp]: "erase_tracker zero_tracker = zero_tracker" "erase_task zero_task = zero_task"
  by (simp_all add: erase_tracker_def zero_tracker_def erase_task_def zero_task_def zero_delay_def
      zero_message_wait_def)

lemma zero_links [simp]:
  "tt_first_child zero_tracker = None" "tt_previous_sibling zero_tracker = None"
  "tt_next_sibling zero_tracker = None" "tt_parent zero_tracker = None"
  by (simp_all add: zero_tracker_def)

lemma take_tracker_sim:
  assumes S: "sim G c s" and x: "\<not> k_tracker_slots_used c x" and ch: "g_ch G (Some x) = []"
  shows "sim (G\<lparr>g_out := insert x (g_out G)\<rparr>) (take_tracker x c) (take_tracker x s)"
proof -
  note R = sim_reads [OF S]
  have nin: "x \<notin> set (g_ch G q)" for q
    using sim_linked_used(1) [OF S] x by blast
  let ?X = "(k_trackers s)(x := zero_tracker)" and ?U = "(k_tracker_slots_used s)(x := True)"
  have fam: "family (\<lambda>u. tt_previous_sibling (?X u)) (\<lambda>u. tt_next_sibling (?X u))
      (\<lambda>u. ?U u \<and> u \<notin> insert x (g_out G)) (g_ch G)"
    by (rule family_cong [OF sim_ch_family [OF S]]) (use x in \<open>auto simp: R\<close>)
  have "sim (G\<lparr>g_ch := g_ch G, g_out := insert x (g_out G)\<rparr>) (take_tracker x c) (take_tracker x s)"
  proof (rule sim_ch_change [OF S _ fam])
    show "take_tracker x s = s\<lparr>k_trackers := ?X, k_tracker_slots_used := ?U, k_root_tasks := k_root_tasks s\<rparr>"
      by (simp add: take_tracker_def)
    show "k_root_tasks s = first (g_ch G None)" by (rule R)
    show "tt_first_child (?X p) = first (g_ch G (Some p))" for p
      using ch by (simp add: R)
    show "tt_parent (?X u) = q" if "u \<in> set (g_ch G q)" for q u
      using that nin sim_parent [OF S that] by (auto simp: R)
    show "take_tracker x c = c\<lparr>k_trackers := \<lambda>u. erase_tracker (?X u), k_tracker_slots_used := ?U\<rparr>"
      by (simp add: take_tracker_def simD(1) [OF S] erase_def fun_eq_iff)
  qed
  then show ?thesis by simp
qed

lemma drop_tracker_sim:
  assumes S: "sim G c s" and x: "x \<in> g_out G" and ch: "g_ch G (Some x) = []"
  shows "sim (G\<lparr>g_out := g_out G - {x}\<rparr>) (drop_tracker x c) (drop_tracker x s)"
proof -
  note R = sim_reads [OF S]
  have nin: "x \<notin> set (g_ch G q)" for q
    using sim_linked_used(2) [OF S] x by blast
  let ?X = "(k_trackers s)(x := zero_tracker)" and ?U = "(k_tracker_slots_used s)(x := False)"
  have fam: "family (\<lambda>u. tt_previous_sibling (?X u)) (\<lambda>u. tt_next_sibling (?X u))
      (\<lambda>u. ?U u \<and> u \<notin> g_out G - {x}) (g_ch G)"
    by (rule family_cong [OF sim_ch_family [OF S]]) (use x in \<open>auto simp: R\<close>)
  have "sim (G\<lparr>g_ch := g_ch G, g_out := g_out G - {x}\<rparr>) (drop_tracker x c) (drop_tracker x s)"
  proof (rule sim_ch_change [OF S _ fam])
    show "drop_tracker x s = s\<lparr>k_trackers := ?X, k_tracker_slots_used := ?U, k_root_tasks := k_root_tasks s\<rparr>"
      by (simp add: drop_tracker_def)
    show "k_root_tasks s = first (g_ch G None)" by (rule R)
    show "tt_first_child (?X p) = first (g_ch G (Some p))" for p
      using ch by (simp add: R)
    show "tt_parent (?X u) = q" if "u \<in> set (g_ch G q)" for q u
      using that nin sim_parent [OF S that] by (auto simp: R)
    show "drop_tracker x c = c\<lparr>k_trackers := \<lambda>u. erase_tracker (?X u), k_tracker_slots_used := ?U\<rparr>"
      by (simp add: drop_tracker_def simD(1) [OF S] erase_def fun_eq_iff)
  qed
  then show ?thesis by simp
qed


end
