(* ===== verification/Time_Manager.thy ===== *)
theory Time_Manager
  imports Task_Manager
begin

text \<open>
  Sleeping, waking and preemption, class \<^verbatim>\<open>TimeManager\<close> of
  \<^verbatim>\<open>src/microkernel/core/time_manager.cpp\<close>, on top of the per-hart timer layer of
  \<^verbatim>\<open>src/microkernel/core/timer.cpp\<close> and \<^verbatim>\<open>src/platform/qemu_virt/timer.cpp\<close>.
\<close>

section \<open>The timer layer\<close>

definition set_compare :: "u64 \<Rightarrow> u64 \<Rightarrow> kst \<Rightarrow> kst" where
  "set_compare hart_id deadline s = s\<lparr>k_mtimecmp := (k_mtimecmp s)(hart_id := deadline)\<rparr>"

definition timer_disarm :: "u64 \<Rightarrow> kst \<Rightarrow> kst" where
  "timer_disarm hart_id s = set_compare hart_id UINT64_MAX s"

definition set_mtie :: "nat \<Rightarrow> bool \<Rightarrow> kst \<Rightarrow> kst" where
  "set_mtie h b s = s\<lparr>k_csr := (k_csr s)(h := (k_csr s h)\<lparr>csr_mtie := b\<rparr>)\<rparr>"

definition arm_task_deadline :: "nat \<Rightarrow> u64 \<Rightarrow> kst \<Rightarrow> kst" where
  "arm_task_deadline h deadline s = set_mtie h True (set_compare (hl_hart_id (k_harts s h)) deadline s)"

definition timer_handle_interrupt :: "nat \<Rightarrow> kst \<Rightarrow> kst" where
  "timer_handle_interrupt h s =
     (let s1 = set_mtie h False s;
          s2 = timer_disarm (hl_hart_id (k_harts s1 h)) s1
      in upd_hart h (\<lambda>l. l\<lparr>hl_machine_timer_interrupt_count :=
           hl_machine_timer_interrupt_count l + 1\<rparr>) s2)"

section \<open>Operations\<close>

definition TimeManager_initialize :: "kst \<Rightarrow> kst" where
  "TimeManager_initialize s =
     (if k_time_initialized s then s
      else (fold DelayQueue_reset [0..<kMaxHarts] s)\<lparr>k_time_initialized := True\<rparr>)"

definition TimeManager_initialize_hart :: "nat \<Rightarrow> kst \<Rightarrow> bool \<times> kst" where
  "TimeManager_initialize_hart h s =
     (let index = unat (hl_index (k_harts s h)) in
      if \<not> k_time_initialized s \<or> index \<ge> kMaxHarts then (False, s)
      else (True, upd_hart h (\<lambda>l. l\<lparr>hl_delay_list := Some index,
             hl_timeslice_ticks := task_timeslice_ticks, hl_scheduler_preemption_count := 0\<rparr>) s))"

definition delay_task :: "nat \<Rightarrow> nat \<Rightarrow> u64 \<Rightarrow> u64 \<Rightarrow> kst \<Rightarrow> (bool \<times> kst) option" where
  "delay_task h t seconds nanoseconds s =
     (if \<not> k_time_initialized s \<or> get_current_task h s \<noteq> Some t then Some (False, s)
      else case t_cpu (k_tasks s t) of
        None \<Rightarrow> Some (False, s)
      | Some c \<Rightarrow>
          let ticks = duration_to_ticks seconds nanoseconds in
          if ticks = 0 then Some (False, s)
          else case hl_delay_list (k_harts s c) of
            None \<Rightarrow> Some (False, s)
          | Some q \<Rightarrow>
              let (now, s1) = read_time s in
              if now > UINT64_MAX - ticks then Some (False, s1)
              else do {
                let deadline = now + ticks;
                let s2 = upd_task t (\<lambda>x. x\<lparr>t_state := TS_blocked_sleep,
                       t_state_info := deadline\<rparr>) s1;
                (ok, s3) \<leftarrow> DelayQueue_insert q t deadline s2;
                Some (if ok then (True, s3)
                      else (False, upd_task t
                        (\<lambda>x. x\<lparr>t_state := TS_running, t_state_info := 0\<rparr>) s3))
              })"

partial_function (option) release_expired :: "nat \<Rightarrow> u64 \<Rightarrow> kst \<Rightarrow> kst option" where
  "release_expired q now s =
     (case DelayQueue_remove_expired q now s of
        (None, s1) \<Rightarrow> Some s1
      | (Some t, s1) \<Rightarrow> do {
          let s2 = upd_task t (\<lambda>x. x\<lparr>t_state_info := 0\<rparr>) s1;
          let (ok, s3) = Scheduler_add_task t s2;
          park_unless ok;
          release_expired q now s3
        })"

definition check_release_tasks :: "nat \<Rightarrow> kst \<Rightarrow> kst option" where
  "check_release_tasks h s = do {
     q \<leftarrow> hl_delay_list (k_harts s h);
     let (now, s1) = read_time s;
     release_expired q now s1
   }"

definition arm_current_timeslice :: "nat \<Rightarrow> kst \<Rightarrow> kst option" where
  "arm_current_timeslice h s = do {
     let (now, s1) = read_time s;
     ticks \<leftarrow> (case get_current_task h s1 of
         None \<Rightarrow> Some (hl_timeslice_ticks (k_harts s h))
       | Some t \<Rightarrow>
           if t_idle (k_tasks s1 t) then do {
             q \<leftarrow> hl_delay_list (k_harts s1 h);
             Some (DelayQueue_ticks_until_next q now kIdleTimesliceTicks s1)
           } else Some (hl_timeslice_ticks (k_harts s h)));
     let ticks' = (if ticks = 0 then 1 else ticks);
     let deadline = (if now > UINT64_MAX - ticks' then UINT64_MAX else now + ticks');
     Some (arm_task_deadline h deadline s1)
   }"

definition handle_timer_interrupt :: "nat \<Rightarrow> trap_frame \<Rightarrow> kst \<Rightarrow> (trap_frame \<times> kst) option" where
  "handle_timer_interrupt h frame s = do {
     interrupted \<leftarrow> get_current_task h s;
     deref_scheduler interrupted s;
     s1 \<leftarrow> save_current_context h frame s;
     s2 \<leftarrow> check_release_tasks h s1;
     let interrupted_tid = t_tid (k_tasks s2 interrupted);
     let interrupted_idle = t_idle (k_tasks s2 interrupted);
     s3 \<leftarrow> Scheduler_return_runnable h s2;
     (selected, s4) \<leftarrow> Scheduler_set_next_runnable h s3;
     let s5 = (if \<not> interrupted_idle \<and> t_tid (k_tasks s4 selected) \<noteq> interrupted_tid
            then upd_hart h (\<lambda>l. l\<lparr>hl_scheduler_preemption_count :=
                   hl_scheduler_preemption_count l + 1\<rparr>) s4
            else s4);
     (frame', s6) \<leftarrow> restore_current_context h frame s5;
     s7 \<leftarrow> arm_current_timeslice h s6;
     Some (frame', s7)
   }"

end
