(* ===== verification/Task_Syscall.thy ===== *)
theory Task_Syscall
  imports Time_Manager Endpoint_Ipc
begin

text \<open>
  The system-call dispatcher \<^verbatim>\<open>try_handle\<close> of \<^verbatim>\<open>src/microkernel/core/task_syscall.cpp\<close> in the
  default build configuration (no probe workload), one definition per case of its switch, and
  the trap dispatcher of \<^verbatim>\<open>src/microkernel/core/trap.cpp\<close> as far as user tasks reach it.  A case
  returns whether the hart has been rescheduled and the new state.
\<close>

definition kErrorNoMemory :: int where "kErrorNoMemory = -12"

definition kErrorDeadlock :: int where "kErrorDeadlock = -35"

definition kErrorNoSyscall :: int where "kErrorNoSyscall = -38"

definition kErrorNotSupported :: int where "kErrorNotSupported = -95"

definition error_value :: "int \<Rightarrow> u64" where
  "error_value e = of_int e"

definition JIXIA_M00_08_CHILD_ARGUMENT :: u64 where
  "JIXIA_M00_08_CHILD_ARGUMENT = 0x08010001"

definition JIXIA_M00_08_INIT_RESULT :: u64 where
  "JIXIA_M00_08_INIT_RESULT = 0x0801CAFE"

definition task_x :: "nat \<Rightarrow> nat \<Rightarrow> kst \<Rightarrow> u64" where
  "task_x t i s = ctx_x (t_context (k_tasks s t)) i"

definition upd_reported :: "(reported_flags \<Rightarrow> reported_flags) \<Rightarrow> kst \<Rightarrow> kst" where
  "upd_reported f s = s\<lparr>k_reported := f (k_reported s)\<rparr>"

section \<open>The cases of the switch\<close>

definition sys_yield :: "nat \<Rightarrow> nat \<Rightarrow> kst \<Rightarrow> (bool \<times> kst) option" where
  "sys_yield h caller s = do {
     let caller_tid = t_tid (k_tasks s caller);
     let s1 = set_task_x caller 10 0 s;
     deref_scheduler caller s1;
     s2 \<leftarrow> Scheduler_return_runnable h s1;
     deref_scheduler caller s2;
     (selected, s3) \<leftarrow> Scheduler_set_next_runnable h s2;
     Some (True,
       if t_idle (k_tasks s3 caller) \<and> \<not> g_idle_reported (k_reported s3) then
         upd_reported (\<lambda>f. f\<lparr>g_idle_reported := True\<rparr>) (printk (''M00_08_IDLE_TASK: PASS'' @ nl) [] s3)
       else if t_tid (k_tasks s3 selected) \<noteq> caller_tid \<and>
               \<not> g_context_switch_reported (k_reported s3) then
         upd_reported (\<lambda>f. f\<lparr>g_context_switch_reported := True\<rparr>)
           (printk (''M00_08_TASK_YIELD: PASS'' @ nl @ ''M00_08_CONTEXT_SWITCH: PASS'' @ nl) [] s3)
       else s3)
   }"

definition sys_create :: "image \<Rightarrow> nat \<Rightarrow> nat \<Rightarrow> kst \<Rightarrow> (bool \<times> kst) option" where
  "sys_create im h caller s = do {
     let entry = task_x caller 10 s;
     let argument = task_x caller 11 s;
     if \<not> is_boot_user_entry entry (k_vmm s)
       then Some (False, set_task_x caller 10 (error_value kErrorNotSupported) s)
     else do {
       owner \<leftarrow> t_cpu (k_tasks s caller);
       (child, s1) \<leftarrow> create_task im h entry argument (t_address_space (k_tasks s caller)) owner False s;
       (case child of
          None \<Rightarrow> Some (False, set_task_x caller 10 (error_value kErrorNoMemory) s1)
        | Some c \<Rightarrow> do {
            deref_scheduler caller s1;
            let (ok, s2) = Scheduler_add_task c s1;
            park_unless ok;
            let s3 = set_task_x caller 10 (t_tid (k_tasks s2 c)) s2;
            Some (False,
              if \<not> g_create_reported (k_reported s3) then
                upd_reported (\<lambda>f. f\<lparr>g_create_reported := True\<rparr>)
                  (printk (''M00_08_TASK_CREATE: PASS'' @ nl) [] s3)
              else s3)
          })
     }
   }"

definition sys_end :: "nat \<Rightarrow> nat \<Rightarrow> kst \<Rightarrow> (bool \<times> kst) option" where
  "sys_end h caller s = do {
     let ending_tid = t_tid (k_tasks s caller);
     let return_value = task_x caller 10 s;
     let initial_task = (ending_tid = initial_task_id s);
     let detached = t_detached (k_tasks s caller);
     let s1 = (if \<not> initial_task \<and> return_value = JIXIA_M00_08_CHILD_ARGUMENT \<and>
            \<not> g_end_reported (k_reported s) then
              upd_reported (\<lambda>f. f\<lparr>g_end_reported := True\<rparr>) (printk (''M00_08_TASK_END: PASS'' @ nl) [] s)
            else s);
     s2 \<leftarrow> end_task h caller return_value ES_exited_clean s1;
     Some (True,
       if initial_task \<and> detached \<and> return_value = JIXIA_M00_08_INIT_RESULT
       then printk (''M00_08_TASK_LIFECYCLE: PASS'' @ nl) [] s2 else s2)
   }"

definition sys_wait :: "nat \<Rightarrow> nat \<Rightarrow> kst \<Rightarrow> (bool \<times> kst) option" where
  "sys_wait h caller s = do {
     let tid = task_x caller 10 s;
     let status_address = task_x caller 11 s;
     let return_value_address = task_x caller 12 s;
     if status_address \<noteq> 0 \<or> return_value_address \<noteq> 0
       then Some (False, set_task_x caller 10 (error_value kErrorNotSupported) s)
     else do {
       (result, s1) \<leftarrow> wait_task h caller tid s;
       let s2 = (if result = WR_no_child
              then set_task_x caller 10 (error_value kErrorDeadlock) s1
            else if result = WR_completed \<and> \<not> g_wait_reported (k_reported s1) then
              upd_reported (\<lambda>f. f\<lparr>g_wait_reported := True\<rparr>) (printk (''M00_08_TASK_WAIT: PASS'' @ nl) [] s1)
            else if result = WR_blocked \<and> \<not> g_wait_block_reported (k_reported s1) then
              upd_reported (\<lambda>f. f\<lparr>g_wait_block_reported := True\<rparr>)
                (printk (''M00_08_TASK_WAIT_BLOCK: PASS'' @ nl) [] s1)
            else s1);
       Some (result = WR_blocked, s2)
     }
   }"

definition sys_detach :: "nat \<Rightarrow> nat \<Rightarrow> kst \<Rightarrow> (bool \<times> kst) option" where
  "sys_detach h caller s = do {
     (ok, s1) \<leftarrow> detach_task h caller s;
     let s2 = set_task_x caller 10 (if ok then 0 else 1) s1;
     Some (False,
       if task_x caller 10 s2 = 0 \<and> \<not> g_detach_reported (k_reported s2) then
         upd_reported (\<lambda>f. f\<lparr>g_detach_reported := True\<rparr>) (printk (''M00_08_TASK_DETACH: PASS'' @ nl) [] s2)
       else s2)
   }"

definition sys_sleep :: "nat \<Rightarrow> nat \<Rightarrow> kst \<Rightarrow> (bool \<times> kst) option" where
  "sys_sleep h caller s = do {
     let seconds = task_x caller 10 s;
     let nanoseconds = task_x caller 11 s;
     let s1 = set_task_x caller 10 0 s;
     (ok, s2) \<leftarrow> delay_task h caller seconds nanoseconds s1;
     if \<not> ok then Some (False, set_task_x caller 10 (error_value kErrorInvalidArgument) s2)
     else do {
       deref_scheduler caller s2;
       (_, s3) \<leftarrow> Scheduler_set_next_runnable h s2;
       Some (True, s3)
     }
   }"

definition sys_endpoint_create :: "nat \<Rightarrow> kst \<Rightarrow> bool \<times> kst" where
  "sys_endpoint_create caller s =
     (let (result, handle, s1) = create_endpoint (t_tid (k_tasks s caller)) True s in
      (False, set_task_x caller 10
         (if result < 0 then error_value result else (case handle of Some v \<Rightarrow> v | None \<Rightarrow> 0)) s1))"

definition sys_endpoint_destroy :: "nat \<Rightarrow> kst \<Rightarrow> (bool \<times> kst) option" where
  "sys_endpoint_destroy caller s = do {
     (result, s1) \<leftarrow> destroy_endpoint (t_tid (k_tasks s caller)) (task_x caller 10 s) s;
     Some (False, set_task_x caller 10 (if result < 0 then error_value result else 0) s1)
   }"

definition sys_send :: "nat \<Rightarrow> kst \<Rightarrow> (bool \<times> kst) option" where
  "sys_send caller s = do {
     (result, s1) \<leftarrow> send (t_tid (k_tasks s caller)) (task_x caller 10 s)
       \<lparr>msg_sender = 0, msg_word0 = task_x caller 11 s, msg_word1 = task_x caller 12 s,
        msg_word2 = task_x caller 13 s, msg_word3 = task_x caller 14 s\<rparr> s;
     Some (False, set_task_x caller 10 (if result < 0 then error_value result else 0) s1)
   }"

definition sys_try_recv :: "nat \<Rightarrow> kst \<Rightarrow> bool \<times> kst" where
  "sys_try_recv caller s =
     (let (result, m, s1) = try_recv (task_x caller 10 s) True s;
          msg = (case m of Some v \<Rightarrow> v | None \<Rightarrow> zero_message) in
      (False,
       if result < 0 then set_task_x caller 10 (error_value result) s1
       else write_recv_registers caller 0 msg s1))"

definition sys_recv :: "nat \<Rightarrow> nat \<Rightarrow> kst \<Rightarrow> (bool \<times> kst) option" where
  "sys_recv h caller s = do {
     (result, s1) \<leftarrow> recv h caller (task_x caller 10 s) s;
     Some (rr_status result = RS_blocked, s1)
   }"

definition sys_reserved :: "nat \<Rightarrow> kst \<Rightarrow> bool \<times> kst" where
  "sys_reserved caller s = (False, set_task_x caller 10 (error_value kErrorNoSyscall) s)"

definition sys_invalid :: "nat \<Rightarrow> nat \<Rightarrow> u64 \<Rightarrow> kst \<Rightarrow> (bool \<times> kst) option" where
  "sys_invalid h caller number s = do {
     s1 \<leftarrow> end_task h caller 0 ES_crashed (printk (''Invalid task syscall: %lu'' @ nl) [Arg_word number] s);
     Some (True, s1)
   }"

definition sys_dispatch :: "image \<Rightarrow> nat \<Rightarrow> nat \<Rightarrow> u64 \<Rightarrow> kst \<Rightarrow> (bool \<times> kst) option" where
  "sys_dispatch im h caller number s =
     (if number = 0 then sys_yield h caller s
      else if number = 1 then sys_create im h caller s
      else if number = 2 then sys_end h caller s
      else if number = 3 then sys_wait h caller s
      else if number = 4 then sys_detach h caller s
      else if number = 5 then sys_sleep h caller s
      else if number = 6 then Some (sys_endpoint_create caller s)
      else if number = 7 then sys_endpoint_destroy caller s
      else if number = 8 then sys_send caller s
      else if number = 11 then Some (sys_try_recv caller s)
      else if number = 10 then sys_recv h caller s
      else if number = 9 \<or> number = 12 then Some (sys_reserved caller s)
      else sys_invalid h caller number s)"

section \<open>Traps\<close>

definition mcause_interrupt_mask :: u64 where
  "mcause_interrupt_mask = push_bit 63 1"

definition mcause_code_mask :: u64 where
  "mcause_code_mask = mcause_interrupt_mask - 1"

definition cause_is_interrupt :: "u64 \<Rightarrow> bool" where
  "cause_is_interrupt raw \<longleftrightarrow> raw AND mcause_interrupt_mask \<noteq> 0"

definition cause_code :: "u64 \<Rightarrow> u64" where
  "cause_code raw = raw AND mcause_code_mask"

definition is_exception_code :: "u64 \<Rightarrow> u64 \<Rightarrow> bool" where
  "is_exception_code raw expected \<longleftrightarrow> \<not> cause_is_interrupt raw \<and> cause_code raw = expected"

definition is_interrupt_code :: "u64 \<Rightarrow> u64 \<Rightarrow> bool" where
  "is_interrupt_code raw expected \<longleftrightarrow> cause_is_interrupt raw \<and> cause_code raw = expected"

text \<open>The common end of a handled system call.\<close>

definition leave_syscall :: "nat \<Rightarrow> trap_frame \<Rightarrow> bool \<Rightarrow> kst \<Rightarrow> (trap_frame \<times> kst) option" where
  "leave_syscall h frame rescheduled s = do {
     (frame', s1) \<leftarrow> restore_current_context h frame s;
     s2 \<leftarrow> (if rescheduled then arm_current_timeslice h s1 else Some s1);
     Some (frame', s2)
   }"

definition try_handle :: "image \<Rightarrow> nat \<Rightarrow> trap_frame \<Rightarrow> kst \<Rightarrow> (bool \<times> trap_frame \<times> kst) option" where
  "try_handle im h frame s =
     (if \<not> is_exception_code (tf_mcause frame) 8 \<or> tf_mstatus frame AND kMstatusMppMask \<noteq> 0
        then Some (False, frame, s)
      else case get_current_task h s of
        None \<Rightarrow> Some (False, frame, s)
      | Some caller \<Rightarrow> do {
          s1 \<leftarrow> save_current_context h frame s;
          let s2 = upd_task caller (\<lambda>x. x\<lparr>t_context :=
                 (t_context x)\<lparr>ctx_mepc := ctx_mepc (t_context x) + 4\<rparr>\<rparr>) s1;
          (rescheduled, s3) \<leftarrow> sys_dispatch im h caller (task_x caller 17 s2) s2;
          (frame', s4) \<leftarrow> leave_syscall h frame rescheduled s3;
          Some (True, frame', s4)
        })"

definition try_handle_machine_timer_interrupt ::
    "nat \<Rightarrow> trap_frame \<Rightarrow> kst \<Rightarrow> (bool \<times> trap_frame \<times> kst) option" where
  "try_handle_machine_timer_interrupt h frame s =
     (if \<not> is_interrupt_code (tf_mcause frame) 7 then Some (False, frame, s)
      else do {
        let s1 = timer_handle_interrupt h s;
        (frame', s2) \<leftarrow> (if tf_mstatus frame AND kMstatusMppMask = 0
          then handle_timer_interrupt h frame s1 else Some (frame, s1));
        Some (True, frame', s2)
      })"

lemma task_x_set: "task_x t i (set_task_x u j v s) = (if t = u \<and> i = j then v else task_x t i s)"
  by (simp add: task_x_def set_task_x_def upd_task_def)

end
