(* ===== verification/Time_Steps.thy ===== *)
theory Time_Steps
  imports Scheduler_Steps Task_Syscall
begin

text \<open>
  Entering and leaving the kernel, yielding, sleeping and the timer interrupt, on states that
  satisfy the kernel invariant: no path parks, and each leads to a state that satisfies the
  invariant again.
\<close>

text \<open>A state that satisfies the invariant, seen from a hart that runs a task.\<close>

definition ok_at :: "nat \<Rightarrow> kst \<Rightarrow> bool" where
  "ok_at h s \<longleftrightarrow> (\<exists>G c. sim G c s \<and> kinv {} G (view c) \<and> v_cur (view c) h \<noteq> None)"

lemma ok_atI: "sim G c s \<Longrightarrow> kinv {} G (view c) \<Longrightarrow> hl_current_task (k_harts c h) = Some t \<Longrightarrow> ok_at h s"
  by (auto simp: ok_at_def)

lemma quiet_set_x: "quiet_task (\<lambda>x. x\<lparr>t_context := set_x i w (t_context x)\<rparr>)"
  "task_safe (\<lambda>x. x\<lparr>t_context := set_x i w (t_context x)\<rparr>)"
  by (simp_all add: quiet_task_def task_safe_def erase_task_def)

lemma set_task_x_simps [simp]:
  "view (set_task_x t i w c) = view c" "k_harts (set_task_x t i w c) = k_harts c"
  "k_present_count (set_task_x t i w c) = k_present_count c" "k_trackers (set_task_x t i w c) = k_trackers c"
  "k_tracker_slots_used (set_task_x t i w c) = k_tracker_slots_used c"
  "k_task_slots_used (set_task_x t i w c) = k_task_slots_used c"
  "k_endpoints (set_task_x t i w c) = k_endpoints c"
  by (simp_all add: set_task_x_def view_quiet(1) quiet_set_x)

lemma set_task_x_sim: "sim G c s \<Longrightarrow> sim G (set_task_x t i w c) (set_task_x t i w s)"
  unfolding set_task_x_def by (rule sim_upd_task [OF _ quiet_set_x(2)])

text \<open>A concrete update that keeps the links and the view.\<close>

definition invisible :: "(kst \<Rightarrow> kst) \<Rightarrow> bool" where
  "invisible f \<longleftrightarrow> (\<forall>G c s. sim G c s \<longrightarrow> sim G (f c) (f s)) \<and> (\<forall>c. view (f c) = view c)"

lemma invisible_updates [intro]:
  "invisible (set_task_x t i w)" "invisible (printk fmt args)" "invisible (\<lambda>s. s\<lparr>k_reads := r\<rparr>)"
  "invisible (\<lambda>s. s\<lparr>k_csr := cs\<rparr>)" "invisible (\<lambda>s. s\<lparr>k_mtimecmp := mt\<rparr>)" "invisible (\<lambda>s. s\<lparr>k_reported := z\<rparr>)"
  "quiet_task f \<Longrightarrow> task_safe f \<Longrightarrow> invisible (upd_task t f)" "quiet_hart g \<Longrightarrow> invisible (upd_hart h g)"
  by (simp_all add: invisible_def set_task_x_sim sim_other sim_upd_task view_quiet)

lemma ok_at_invisible:
  assumes "invisible f" and "ok_at h s"
  shows "ok_at h (f s)"
proof -
  obtain G c where "sim G c s" "kinv {} G (view c)" "v_cur (view c) h \<noteq> None"
    using assms(2) by (auto simp: ok_at_def)
  with assms(1) show ?thesis
    unfolding ok_at_def invisible_def by (intro exI [of _ G] exI [of _ "f c"]) (metis view_simps(18))
qed

lemma ok_at_quiet:
  assumes "ok_at h s"
  shows "ok_at h (set_task_x t i w s)" "ok_at h (printk fmt args s)" "ok_at h (upd_reported f s)"
  using ok_at_invisible [OF _ assms] invisible_updates unfolding upd_reported_def by blast+

text \<open>The outcome of a system call: the hart returns, in a state that satisfies the invariant.\<close>

definition lands :: "nat \<Rightarrow> (bool \<times> kst) option \<Rightarrow> bool" where
  "lands h r \<longleftrightarrow> (case r of None \<Rightarrow> False | Some (_, s) \<Rightarrow> ok_at h s)"

lemma lands_simps [simp]: "lands h (Some (b, s)) = ok_at h s" "\<not> lands h None"
  by (simp_all add: lands_def)

section \<open>Yielding\<close>

lemma current_facts:
  assumes K: "kinv {} G (view c)" and cur: "hl_current_task (k_harts c h) = Some t"
  shows "k_task_slots_used c t" "t_state (k_tasks c t) = TS_running" "t_cpu (k_tasks c t) = Some h"
    "h < k_present_count c" "\<not> t_queued (k_tasks c t)" "\<not> dn_queued (t_delay (k_tasks c t))"
    "\<not> mw_queued (t_message_wait (k_tasks c t))"
proof -
  note Q = kinvD(1) [OF K]
  have f: "v_used (view c) t \<and> t \<notin> {} \<and> v_state (view c) t = TS_running \<and> v_cpu (view c) t = Some h"
    by (rule hart_invD(6) [OF qinvD(2) [OF Q]]) (simp_all add: cur)
  then show "k_task_slots_used c t" "t_state (k_tasks c t) = TS_running" "t_cpu (k_tasks c t) = Some h"
    by simp_all
  show "h < k_present_count c" using hart_invD(5) [OF qinvD(2) [OF Q], of h t] cur by simp
  have "v_q (view c) t \<or> v_d (view c) t \<or> v_m (view c) t \<Longrightarrow> False"
    using placed_flags(5) [OF Q, of t h] cur by auto
  then show "\<not> t_queued (k_tasks c t)" "\<not> dn_queued (t_delay (k_tasks c t))"
    "\<not> mw_queued (t_message_wait (k_tasks c t))" by auto
qed

lemma requeue_simps [simp]:
  "k_task_slots_used (requeue t c) = k_task_slots_used c" "k_present_count (requeue t c) = k_present_count c"
  "k_harts (requeue t c) = k_harts c"
  by (simp_all add: requeue_def)

lemma sys_yield_ok:
  assumes S: "sim G c s" and K: "kinv {} G (view c)" and cur: "hl_current_task (k_harts c h) = Some t"
  shows "lands h (sys_yield h t s)"
proof -
  let ?c = "set_task_x t 10 0 c"
  note cf = current_facts [OF K cur]
  have S1: "sim G ?c (set_task_x t 10 0 s)" by (rule set_task_x_sim [OF S])
  have K1: "kinv {} G (view ?c)" and cur1: "hl_current_task (k_harts ?c h) = Some t"
    using K cur by simp_all
  obtain s2 where r: "Scheduler_return_runnable h (set_task_x t 10 0 s) = Some s2"
    "sim (requeue_G t ?c G) (requeue t ?c) s2" "kinv {h} (requeue_G t ?c G) (view (requeue t ?c))"
    using return_runnable_sim [OF S1 K1 cur1] by blast
  obtain u c' s3 where n: "Scheduler_set_next_runnable h s2 = Some (u, s3)"
    "sim (deq_rq Global_rq (requeue_G t ?c G)) c' s3" "kinv {} (deq_rq Global_rq (requeue_G t ?c G)) (view c')"
    "hl_current_task (k_harts c' h) = Some u"
    using reschedule [OF r(2,3)] cf(4) by auto
  have d: "deref_scheduler t (set_task_x t 10 0 s) = Some ()" "deref_scheduler t s2 = Some ()"
    by (rule deref_scheduler_ok [OF S1 kinvD(1) [OF K1]], simp add: cf,
        rule deref_scheduler_ok [OF r(2) kinvD(1) [OF r(3)]], simp add: cf)
  have "ok_at h s3" using n(2-4) by (rule ok_atI)
  then show ?thesis
    by (simp add: sys_yield_def d r(1) n(1) Let_def ok_at_quiet)
qed


section \<open>Waking sleepers\<close>

lemma invisible_state_info: "invisible (upd_task t (\<lambda>x. x\<lparr>t_state_info := w\<rparr>))"
  by (rule invisible_updates(7)) (simp_all add: quiet_task_def task_safe_def erase_task_def)

lemma invisibleD:
  assumes "invisible f"
  shows "sim G c s \<Longrightarrow> sim G (f c) (f s)" "view (f c) = view c"
  using assms by (simp_all add: invisible_def)

text \<open>A task in transit whose state is not the join state becomes runnable.\<close>

lemma wake_kinv:
  assumes S: "sim G c s" and Q: "qinv Hx {t} G (view c)" and TJ: "tree_inv (view c)" "join_inv (view c)"
    and st: "t_state (k_tasks c t) \<notin> {TS_ended, TS_blocked_join}"
  shows "\<exists>s'. Scheduler_add_task t s = (True, s') \<and> sim (enq_rq Global_rq t G) (upd_task t make_ready c) s'"
    "kinv Hx (enq_rq Global_rq t G) (view (upd_task t make_ready c))"
  using add_task_sim [OF S Q] TJ st join_inv_put [OF TJ(2), of t TS_ready]
  by (auto simp: kinv_def view_moves)

lemma release_one:
  assumes S: "sim G c s" and K: "kinv Hx G (view c)" and ls: "g_dq G q = t # ts" "deadline_of c t \<le> now"
  defines "c' \<equiv> upd_task t make_ready (upd_task t (\<lambda>x. x\<lparr>t_state_info := 0\<rparr>) (upd_task t undelay c))"
    and "G' \<equiv> enq_rq Global_rq t (deq_dq q G)"
  shows "\<exists>s'. release_expired q now s = release_expired q now s' \<and> sim G' c' s'" "kinv Hx G' (view c')"
proof -
  note Q = kinvD(1) [OF K]
  have d: "v_d (view c) t" using sim_delayed [OF S, of t] ls(1) by (metis list.set_intros(1) view_simps(5))
  note f = placed_flags(7) [OF Q disjI2 [OF disjI1 [OF d]] d]
  obtain s1 where s1: "DelayQueue_remove_expired q now s = (Some t, s1)" "sim (deq_dq q G) (upd_task t undelay c) s1"
    using DelayQueue_remove_sim [OF S ls] by blast
  let ?u = "upd_task t (\<lambda>x. x\<lparr>t_state_info := 0\<rparr>)"
  note i = invisibleD [OF invisible_state_info [of t 0]]
  have Q1: "qinv Hx {t} (deq_dq q G) (view (?u (upd_task t undelay c)))"
    using qinv_leave_dq [OF Q d ls(1)] f unfolding i(2) by (simp add: view_moves)
  have TJ: "tree_inv (view (?u (upd_task t undelay c)))" "join_inv (view (?u (upd_task t undelay c)))"
    using K join_inv_put [OF kinvD(3) [OF K], of t TS_blocked_sleep] f unfolding i(2)
    by (simp_all add: view_moves kinv_def)
  have st: "t_state (k_tasks (?u (upd_task t undelay c)) t) \<notin> {TS_ended, TS_blocked_join}"
    using f by (simp add: undelay_def)
  note w = wake_kinv [OF i(1) [OF s1(2)] Q1 TJ st]
  then obtain s2 where s2: "Scheduler_add_task t (?u s1) = (True, s2)" "sim G' c' s2"
    unfolding c'_def G'_def by blast
  have "release_expired q now s = release_expired q now s2"
    by (subst release_expired.simps) (simp add: s1(1) s2(1) Let_def)
  with s2(2) show "\<exists>s'. release_expired q now s = release_expired q now s' \<and> sim G' c' s'" by blast
  show "kinv Hx G' (view c')" unfolding c'_def G'_def by (rule w(2))
qed

text \<open>
  The whole loop: exactly the expired sleepers of the hart become runnable, in deadline order,
  behind the tasks that already were.
\<close>

lemma release_expired_sim:
  assumes "sim G c s" and "kinv Hx G (view c)" and "g_dq G q = due @ rest"
    and "\<forall>t \<in> set due. deadline_of c t \<le> now" and "rest = [] \<or> now < deadline_of c (hd rest)"
  shows "\<exists>G' c' s'. release_expired q now s = Some s' \<and> sim G' c' s' \<and> kinv Hx G' (view c') \<and>
    k_harts c' = k_harts c \<and> g_rq G' Global_rq = g_rq G Global_rq @ due \<and> g_dq G' = (g_dq G)(q := rest) \<and>
    g_wq G' = g_wq G \<and> k_endpoints c' = k_endpoints c \<and> k_present_count c' = k_present_count c"
  using assms
proof (induction due arbitrary: G c s)
  case Nil
  then have "DelayQueue_remove_expired q now s = (None, s)"
    by (intro DelayQueue_remove_none) auto
  then have "release_expired q now s = Some s"
    by (subst release_expired.simps) simp
  with Nil show ?case by (auto simp: fun_upd_idem)
next
  case (Cons t due)
  let ?c = "upd_task t make_ready (upd_task t (\<lambda>x. x\<lparr>t_state_info := 0\<rparr>) (upd_task t undelay c))"
  let ?G = "enq_rq Global_rq t (deq_dq q G)"
  have ls: "g_dq G q = t # due @ rest" using Cons.prems(3) by simp
  obtain s1 where s1: "release_expired q now s = release_expired q now s1" "sim ?G ?c s1"
    "kinv Hx ?G (view ?c)"
    using release_one [OF Cons.prems(1,2) ls, of now] Cons.prems(4) by (meson list.set_intros(1))
  have "\<exists>G' c' s'. release_expired q now s1 = Some s' \<and> sim G' c' s' \<and> kinv Hx G' (view c') \<and>
    k_harts c' = k_harts ?c \<and> g_rq G' Global_rq = g_rq ?G Global_rq @ due \<and> g_dq G' = (g_dq ?G)(q := rest) \<and>
    g_wq G' = g_wq ?G \<and> k_endpoints c' = k_endpoints ?c \<and> k_present_count c' = k_present_count ?c"
    by (rule Cons.IH [OF s1(2,3)])
      (use ls Cons.prems(4,5) in \<open>auto simp: enq_rq_def deq_dq_def make_ready_def undelay_def\<close>)
  then show ?case
    by (simp add: s1(1) enq_rq_def deq_dq_def fun_eq_iff)
qed


section \<open>Entering and leaving the kernel\<close>

lemma invisible_context: "invisible (upd_task t (\<lambda>x. x\<lparr>t_context := f (t_context x)\<rparr>))"
  by (rule invisible_updates(7)) (simp_all add: quiet_task_def task_safe_def erase_task_def)

lemma ok_atE:
  assumes "ok_at h s"
  obtains G c t where "sim G c s" "kinv {} G (view c)" "hl_current_task (k_harts c h) = Some t"
  using assms by (auto simp: ok_at_def)

lemma ok_at_current:
  assumes "ok_at h s"
  obtains t where "hl_current_task (k_harts s h) = Some t" "hl_delay_list (k_harts s h) = Some h"
proof -
  from assms obtain G c t where g: "sim G c s" "kinv {} G (view c)" "hl_current_task (k_harts c h) = Some t"
    by (rule ok_atE)
  have "v_bound (view c) h"
    using current_facts(4) [OF g(2,3)] by (intro hart_invD(3) [OF qinvD(2) [OF kinvD(1) [OF g(2)]]]) simp
  with g that show thesis by (simp add: sim_reads [OF g(1)] hart_bound_def)
qed

lemma save_current_ok:
  assumes "ok_at h s"
  shows "\<exists>s'. save_current_context h frame s = Some s' \<and> ok_at h s' \<and> k_harts s' = k_harts s"
proof -
  obtain t where t: "hl_current_task (k_harts s h) = Some t"
    by (rule ok_at_current [OF assms])
  then show ?thesis
    using ok_at_invisible [OF invisible_context assms]
    by (simp add: save_current_context_def get_current_task_def)
qed

lemma restore_current_ok:
  assumes "ok_at h s"
  shows "\<exists>frame' s'. restore_current_context h frame s = Some (frame', s') \<and> ok_at h s'"
proof -
  obtain t where t: "hl_current_task (k_harts s h) = Some t"
    by (rule ok_at_current [OF assms])
  then show ?thesis
    using ok_at_invisible [OF invisible_updates(4) assms]
    by (simp add: restore_current_context_def get_current_task_def Let_def)
qed

lemma arm_ok:
  assumes "ok_at h s"
  shows "\<exists>s'. arm_current_timeslice h s = Some s' \<and> ok_at h s'"
proof -
  have "ok_at h (arm_task_deadline h d (s\<lparr>k_reads := r\<rparr>))" for d r
    unfolding arm_task_deadline_def set_mtie_def set_compare_def
    by (intro ok_at_invisible [OF invisible_updates(4)] ok_at_invisible [OF invisible_updates(5)]
        ok_at_invisible [OF invisible_updates(3)] assms)
  moreover obtain t where "hl_current_task (k_harts s h) = Some t" "hl_delay_list (k_harts s h) = Some h"
    by (rule ok_at_current [OF assms])
  ultimately show ?thesis
    by (simp add: arm_current_timeslice_def read_time_def get_current_task_def Let_def)
qed

lemma leave_syscall_ok:
  assumes "ok_at h s"
  shows "\<exists>frame' s'. leave_syscall h frame b s = Some (frame', s') \<and> ok_at h s'"
proof -
  obtain frame1 s1 where "restore_current_context h frame s = Some (frame1, s1)" "ok_at h s1"
    using restore_current_ok [OF assms] by blast
  with arm_ok [of h s1] show ?thesis by (auto simp: leave_syscall_def)
qed

section \<open>The timer interrupt\<close>

lemma check_release_ok:
  assumes S: "sim G c s" and K: "kinv {} G (view c)" and cur: "hl_current_task (k_harts c h) = Some t"
  shows "\<exists>G' c' s'. check_release_tasks h s = Some s' \<and> sim G' c' s' \<and> kinv {} G' (view c') \<and> k_harts c' = k_harts c \<and>
    g_rq G' Global_rq = g_rq G Global_rq @ takeWhile (\<lambda>u. deadline_of c u \<le> k_clock s (k_reads s)) (g_dq G h) \<and>
    g_dq G' = (g_dq G)(h := dropWhile (\<lambda>u. deadline_of c u \<le> k_clock s (k_reads s)) (g_dq G h)) \<and> g_wq G' = g_wq G"
proof -
  let ?s = "s\<lparr>k_reads := Suc (k_reads s)\<rparr>" and ?c = "c\<lparr>k_reads := Suc (k_reads s)\<rparr>" and ?now = "k_clock s (k_reads s)"
  let ?P = "\<lambda>u. deadline_of c u \<le> ?now"
  have S1: "sim G ?c ?s" by (rule sim_other(3) [OF S])
  have K1: "kinv {} G (view ?c)" using K by (simp add: view_quiet)
  have "v_bound (view c) h"
    using current_facts(4) [OF K cur] by (intro hart_invD(3) [OF qinvD(2) [OF kinvD(1) [OF K]]]) simp
  then have dl: "hl_delay_list (k_harts s h) = Some h"
    by (simp add: hart_bound_def sim_reads [OF S])
  have "dropWhile ?P (g_dq G h) = [] \<or> ?now < deadline_of ?c (hd (dropWhile ?P (g_dq G h)))"
    using hd_dropWhile [of ?P "g_dq G h"] by (auto simp: not_le simp del: dropWhile_eq_Nil_conv)
  then have "\<exists>G' c' s'. release_expired h ?now ?s = Some s' \<and> sim G' c' s' \<and> kinv {} G' (view c') \<and>
    k_harts c' = k_harts ?c \<and> g_rq G' Global_rq = g_rq G Global_rq @ takeWhile ?P (g_dq G h) \<and>
    g_dq G' = (g_dq G)(h := dropWhile ?P (g_dq G h)) \<and>
    g_wq G' = g_wq G \<and> k_endpoints c' = k_endpoints ?c \<and> k_present_count c' = k_present_count ?c"
    by (intro release_expired_sim [OF S1 K1]) (auto dest: set_takeWhileD)
  moreover have "check_release_tasks h s = release_expired h ?now ?s"
    by (simp add: check_release_tasks_def dl read_time_def)
  moreover have "k_harts ?c = k_harts c" by simp
  ultimately show ?thesis by metis
qed

lemma handle_timer_ok:
  assumes "ok_at h s"
  shows "\<exists>frame' s'. handle_timer_interrupt h frame s = Some (frame', s') \<and> ok_at h s'"
proof -
  obtain s1 where s1: "save_current_context h frame s = Some s1" "ok_at h s1" "k_harts s1 = k_harts s"
    using save_current_ok [OF assms] by blast
  from s1(2) obtain G c t where g: "sim G c s1" "kinv {} G (view c)" "hl_current_task (k_harts c h) = Some t"
    by (rule ok_atE)
  have t: "get_current_task h s = Some t"
    using g(3) s1(3) by (simp add: get_current_task_def sim_reads [OF g(1), symmetric])
  from assms obtain G0 c0 t0 where g0: "sim G0 c0 s" "kinv {} G0 (view c0)" "hl_current_task (k_harts c0 h) = Some t0"
    by (rule ok_atE)
  have "t0 = t" using t g0(3) by (simp add: get_current_task_def sim_reads [OF g0(1)])
  then have d: "deref_scheduler t s = Some ()"
    using current_facts(1) [OF g0(2,3)] by (intro deref_scheduler_ok [OF g0(1) kinvD(1) [OF g0(2)]]) simp
  obtain G2 c2 s2 where r: "check_release_tasks h s1 = Some s2" "sim G2 c2 s2" "kinv {} G2 (view c2)" "k_harts c2 = k_harts c"
    using check_release_ok [OF g] by blast
  have cur2: "hl_current_task (k_harts c2 h) = Some t" using r(4) g(3) by simp
  obtain s3 where q: "Scheduler_return_runnable h s2 = Some s3" "sim (requeue_G t c2 G2) (requeue t c2) s3"
    "kinv {h} (requeue_G t c2 G2) (view (requeue t c2))"
    using return_runnable_sim [OF r(2,3) cur2] by blast
  obtain u c4 s4 where n: "Scheduler_set_next_runnable h s3 = Some (u, s4)"
    "sim (deq_rq Global_rq (requeue_G t c2 G2)) c4 s4" "kinv {} (deq_rq Global_rq (requeue_G t c2 G2)) (view c4)"
    "hl_current_task (k_harts c4 h) = Some u"
    using reschedule [OF q(2,3)] current_facts(4) [OF r(3) cur2] by auto
  let ?s5 = "if \<not> t_idle (k_tasks s2 t) \<and> t_tid (k_tasks s4 u) \<noteq> t_tid (k_tasks s2 t)
    then upd_hart h (\<lambda>l. l\<lparr>hl_scheduler_preemption_count := hl_scheduler_preemption_count l + 1\<rparr>) s4 else s4"
  have "invisible (upd_hart h (\<lambda>l. l\<lparr>hl_scheduler_preemption_count := hl_scheduler_preemption_count l + 1\<rparr>))"
    by (rule invisible_updates(8)) (simp add: quiet_hart_def)
  then have "ok_at h ?s5"
    using ok_atI [OF n(2-4)] by (simp add: ok_at_invisible)
  then obtain frame6 s6 where m: "restore_current_context h frame ?s5 = Some (frame6, s6)" "ok_at h s6"
    using restore_current_ok by blast
  obtain s7 where "arm_current_timeslice h s6 = Some s7" "ok_at h s7"
    using arm_ok [OF m(2)] by blast
  then show ?thesis
    by (simp add: handle_timer_interrupt_def t d s1(1) r(1) q(1) n(1) m(1) Let_def)
qed

section \<open>Sleeping and detaching\<close>

lemma delay_task_ok:
  fixes secs ns :: u64
  assumes S: "sim G c s" and K: "kinv {} G (view c)" and cur: "hl_current_task (k_harts c h) = Some t"
    and idle: "\<not> t_idle (k_tasks c t)"
  defines "now \<equiv> k_clock s (k_reads s)" and "ticks \<equiv> duration_to_ticks secs ns"
  shows "if ticks = 0 \<or> now > UINT64_MAX - ticks then \<exists>r. delay_task h t secs ns s = Some (False, s\<lparr>k_reads := r\<rparr>)
    else \<exists>c' s'. delay_task h t secs ns s = Some (True, s') \<and> sim (enq_dq h t (now + ticks) c G) c' s' \<and>
      kinv {h} (enq_dq h t (now + ticks) c G) (view c') \<and> k_present_count c' = k_present_count c \<and>
      k_task_slots_used c' = k_task_slots_used c \<and> k_harts c' = k_harts c \<and> deadline_of c' t = now + ticks"
proof -
  note R = sim_reads [OF S] and cf = current_facts [OF K cur] and Q = kinvD(1) [OF K]
  have b: "k_time_initialized c" "hl_delay_list (k_harts c h) = Some h"
    using hart_invD(2) [OF qinvD(2) [OF Q]] hart_invD(3) [OF qinvD(2) [OF Q], of h] cf(4)
    by (auto simp: hart_bound_def)
  show ?thesis
  proof (cases "ticks = 0 \<or> now > UINT64_MAX - ticks")
    case True
    have "delay_task h t secs ns s = Some (False, if ticks = 0 then s else s\<lparr>k_reads := Suc (k_reads s)\<rparr>)"
      using True cf(3) cur b
      by (auto simp: delay_task_def R get_current_task_def read_time_def Let_def ticks_def now_def)
    moreover have "s = s\<lparr>k_reads := k_reads s\<rparr>" by simp
    ultimately have "\<exists>r. delay_task h t secs ns s = Some (False, s\<lparr>k_reads := r\<rparr>)" by metis
    with True show ?thesis by presburger
  next
    case False
    define d where "d = now + ticks"
    let ?f = "\<lambda>x. x\<lparr>t_state := TS_blocked_sleep, t_state_info := d\<rparr>"
    let ?c = "upd_task t ?f (c\<lparr>k_reads := Suc (k_reads s)\<rparr>)"
    let ?s = "upd_task t ?f (s\<lparr>k_reads := Suc (k_reads s)\<rparr>)"
    have S1: "sim G ?c ?s"
      by (intro sim_upd_task sim_other(3) S) (simp add: task_safe_def erase_task_def)
    have v: "view ?c = put t TS_blocked_sleep False False False (v_deadline (view c) t) (view c)"
      using cf by (subst view_upd_task) (simp_all add: view_quiet)
    have "deadline_of ?c = deadline_of c" by (simp add: fun_eq_iff)
    then have eq: "enq_dq h t d ?c G = enq_dq h t d c G"
      unfolding enq_dq_def by metis
    obtain s3 where s3: "DelayQueue_insert h t d ?s = Some (True, s3)"
      "sim (enq_dq h t d c G) (upd_task t (make_delayed d) ?c) s3"
      using DelayQueue_insert_sim [OF S1, of t h d] cf unfolding eq by auto
    have "qinv {h} {t} G (view c)"
      using qinv_leave [OF Q, of h t] cur idle by simp
    then have Q1: "qinv {h} {t} G (view ?c)"
      unfolding v by (rule qinv_set_state) simp
    have nin: "t \<notin> set (g_dq G i)" for i
      using sim_delayed [OF S, of t] cf(6) by blast
    have "qinv {h} {} (enq_dq h t d ?c G) (put t TS_blocked_sleep False True False d (view ?c))"
      by (rule qinv_enter_dq [OF Q1]) (use nin cf(4) in \<open>auto simp: fun_eq_iff\<close>)
    moreover have "view (upd_task t (make_delayed d) ?c) = put t TS_blocked_sleep False True False d (view ?c)"
      using cf by (simp add: view_moves)
    moreover have "join_inv (put t TS_blocked_sleep False True False d (view ?c))"
      unfolding v using kinvD(3) [OF K] cf(2) by (intro join_inv_put) simp_all
    ultimately have "kinv {h} (enq_dq h t d c G) (view (upd_task t (make_delayed d) ?c))"
      using kinvD(2) [OF K] by (simp add: kinv_def v eq)
    moreover have "delay_task h t secs ns s = Some (True, s3)"
      using False cur b cf s3(1)
      by (simp add: delay_task_def R get_current_task_def read_time_def Let_def now_def ticks_def d_def)
    moreover have "deadline_of (upd_task t (make_delayed d) ?c) t = d" by (simp add: make_delayed_def)
    ultimately show ?thesis
      using s3(2) False unfolding d_def [symmetric] by (auto intro!: exI [of _ "upd_task t (make_delayed d) ?c"])
  qed
qed

lemma set_task_x_task [simp]:
  "t_idle (k_tasks (set_task_x t i w c) u) = t_idle (k_tasks c u)"
  "t_state (k_tasks (set_task_x t i w c) u) = t_state (k_tasks c u)"
  "t_tid (k_tasks (set_task_x t i w c) u) = t_tid (k_tasks c u)"
  "t_tracker (k_tasks (set_task_x t i w c) u) = t_tracker (k_tasks c u)"
  "t_detached (k_tasks (set_task_x t i w c) u) = t_detached (k_tasks c u)"
  by (simp_all add: set_task_x_def)

lemma sys_sleep_ok:
  assumes S: "sim G c s" and K: "kinv {} G (view c)" and cur: "hl_current_task (k_harts c h) = Some t"
    and idle: "\<not> t_idle (k_tasks c t)"
  shows "lands h (sys_sleep h t s)"
proof -
  let ?c = "set_task_x t 10 0 c" and ?s = "set_task_x t 10 0 s"
  note cf = current_facts [OF K cur]
  have S1: "sim G ?c ?s" by (rule set_task_x_sim [OF S])
  have K1: "kinv {} G (view ?c)" and cur1: "hl_current_task (k_harts ?c h) = Some t"
    and idle1: "\<not> t_idle (k_tasks ?c t)"
    using K cur idle by simp_all
  let ?ticks = "duration_to_ticks (task_x t 10 s) (task_x t 11 s)" and ?now = "k_clock ?s (k_reads ?s)"
  note d = delay_task_ok [OF S1 K1 cur1 idle1, where secs = "task_x t 10 s" and ns = "task_x t 11 s"]
  show ?thesis
  proof (cases "?ticks = 0 \<or> ?now > UINT64_MAX - ?ticks")
    case True
    then obtain r where r: "delay_task h t (task_x t 10 s) (task_x t 11 s) ?s = Some (False, ?s\<lparr>k_reads := r\<rparr>)"
      using d by auto
    have "ok_at h (?s\<lparr>k_reads := r\<rparr>)" by (rule ok_at_invisible [OF invisible_updates(3) ok_atI [OF S1 K1 cur1]])
    with r show ?thesis by (simp add: sys_sleep_def Let_def ok_at_quiet)
  next
    case False
    let ?G = "enq_dq h t (?now + ?ticks) ?c G"
    obtain c' s' where a: "delay_task h t (task_x t 10 s) (task_x t 11 s) ?s = Some (True, s')" "sim ?G c' s'"
      "kinv {h} ?G (view c')" "k_present_count c' = k_present_count ?c" "k_task_slots_used c' = k_task_slots_used ?c"
      using d unfolding if_not_P [OF False] by blast
    have "deref_scheduler t s' = Some ()"
      using cf(1) a(5) by (intro deref_scheduler_ok [OF a(2) kinvD(1) [OF a(3)]]) simp
    moreover obtain u c2 s2 where n: "Scheduler_set_next_runnable h s' = Some (u, s2)"
      "sim (deq_rq Global_rq ?G) c2 s2" "kinv {} (deq_rq Global_rq ?G) (view c2)" "hl_current_task (k_harts c2 h) = Some u"
      using reschedule [OF a(2,3)] a(4) cf(4) by auto
    ultimately show ?thesis
      using ok_atI [OF n(2-4)] by (simp add: sys_sleep_def a(1) n(1) Let_def)
  qed
qed

lemma sys_detach_ok:
  assumes "ok_at h s" and "hl_current_task (k_harts s h) = Some t"
  shows "lands h (sys_detach h t s)"
proof -
  have "invisible (upd_task t (\<lambda>r. r\<lparr>t_detached := True\<rparr>))"
    by (rule invisible_updates(7)) (simp_all add: quiet_task_def task_safe_def erase_task_def)
  with assms show ?thesis
    by (simp add: sys_detach_def detach_task_def get_current_task_def Let_def ok_at_quiet ok_at_invisible)
qed

end
