(* ===== verification/Ipc_Steps.thy ===== *)
theory Ipc_Steps
  imports Time_Steps
begin

text \<open>
  The message-passing operations on states that satisfy the kernel invariant: creating and
  destroying endpoints, sending, polling and blocking receives.  No path parks, and each leads
  to a state that satisfies the invariant again.
\<close>

section \<open>Endpoint updates\<close>

lemma view_upd_ep:
  "view (upd_ep e f c) = (view c)\<lparr>v_ep := (v_ep (view c))(e := erase_ep (f (k_endpoints c e)))\<rparr>"
  by (intro kview.equality) (simp_all add: view_def fun_eq_iff)

lemma view_slot: "view (c\<lparr>k_slot_allocated := u\<rparr>) = (view c)\<lparr>v_slot := u\<rparr>"
  by (intro kview.equality) (simp_all add: view_def fun_eq_iff)

lemma same_slot: "v\<lparr>v_ep := E, v_slot := v_slot v\<rparr> = v\<lparr>v_ep := E\<rparr>"
  by simp

lemma slot_ep: "v\<lparr>v_slot := SL, v_ep := E\<rparr> = v\<lparr>v_ep := E, v_slot := SL\<rparr>"
  by simp

lemma ep_wf_erase [simp]: "ep_wf sl w (erase_ep x) = ep_wf sl w x"
  by (simp add: ep_wf_def)

lemma kinv_ep:
  assumes "kinv Hx G v" and "ep_inv G (v\<lparr>v_ep := E, v_slot := SL\<rparr>)"
  shows "kinv Hx G (v\<lparr>v_ep := E, v_slot := SL\<rparr>)"
  using assms
  by (simp add: kinv_def qinv_def task_inv_def hart_inv_def queue_inv_def placed_def tree_inv_def join_inv_def)

lemma ep_wfD:
  assumes "kinv Hx G (view c)"
  shows "ep_wf (k_slot_allocated c e) (g_wq G e \<noteq> []) (k_endpoints c e)"
  using qinvD(4) [OF kinvD(1) [OF assms]] by (auto simp: ep_inv_def)

lemma upd_ep_kinv:
  assumes "sim G c s" and "kinv Hx G (view c)" and "ep_safe f"
    and "ep_wf (k_slot_allocated c e) (g_wq G e \<noteq> []) (f (k_endpoints c e))"
  shows "sim G (upd_ep e f c) (upd_ep e f s)" "kinv Hx G (view (upd_ep e f c))"
proof -
  show "sim G (upd_ep e f c) (upd_ep e f s)" by (rule sim_upd_ep [OF assms(1,3)])
  have "ep_inv G ((view c)\<lparr>v_ep := (v_ep (view c))(e := erase_ep (f (k_endpoints c e))), v_slot := v_slot (view c)\<rparr>)"
    using qinvD(4) [OF kinvD(1) [OF assms(2)]] assms(4) by (simp add: ep_inv_def)
  from kinv_ep [OF assms(2) this] show "kinv Hx G (view (upd_ep e f c))"
    unfolding view_upd_ep same_slot .
qed

text \<open>The ring-buffer operations keep an endpoint well formed.\<close>

lemma ep_wf_pop:
  assumes "ep_wf sl w ep"
  shows "ep_wf sl w (pop_message ep)"
  using assms by (auto simp: ep_wf_def pop_message_def kEndpointQueueDepth_def)

lemma ep_wf_push:
  assumes "ep_wf sl False ep" and "ep_active ep" and "ep_count ep < kEndpointQueueDepth"
  shows "ep_wf sl False (push_message m ep)"
  using assms by (simp add: ep_wf_def push_message_def)

lemma ep_safe_ops [simp]: "ep_safe pop_message" "ep_safe (push_message m)"
  by (simp_all add: ep_safe_def pop_message_def push_message_def erase_ep_def)

lemma write_recv_invisible: "invisible (write_recv_registers t a m)"
  unfolding write_recv_registers_def invisible_def by (simp add: set_task_x_sim)

lemma invisible_comp: "invisible f \<Longrightarrow> invisible g \<Longrightarrow> invisible (\<lambda>s. f (g s))"
  by (simp add: invisible_def)

section \<open>Creating an endpoint\<close>

lemma create_endpoint_ok:
  assumes "ok_at h s"
  shows "ok_at h (snd (snd (create_endpoint owner out s)))"
proof -
  from assms obtain G c t where g: "sim G c s" "kinv {} G (view c)" "hl_current_task (k_harts c h) = Some t"
    by (rule ok_atE)
  note R = sim_reads [OF g(1)]
  let ?P = "\<lambda>i. \<not> (k_slot_allocated s i \<or> ep_retired (k_endpoints s i))"
  define f where "f x = (let x' = clear_queue (x\<lparr>ep_active := True, ep_retired := False, ep_owner := owner,
    ep_head := 0, ep_count := 0\<rparr>) in if ep_generation x' = 0 then x'\<lparr>ep_generation := 1\<rparr> else x')" for x
  show ?thesis
  proof (cases "out \<and> find ?P [0..<kMaxEndpoints] \<noteq> None")
    case True
    then obtain i where i: "find ?P [0..<kMaxEndpoints] = Some i" and out by auto
    then have "?P i" by (auto simp: find_Some_iff)
    then have free: "\<not> k_slot_allocated c i" "g_wq G i = []"
      using ep_wfD [OF g(2), of i] by (auto simp: R ep_wf_def)
    let ?SL = "(k_slot_allocated s)(i := True)"
    let ?s = "upd_ep i f (s\<lparr>k_slot_allocated := ?SL\<rparr>)" and ?c = "upd_ep i f (c\<lparr>k_slot_allocated := ?SL\<rparr>)"
    have S: "sim G ?c ?s"
      by (intro sim_upd_ep sim_other(7) g(1))
        (auto simp: f_def Let_def ep_safe_def clear_queue_def erase_ep_def intro!: endpoint.equality)
    have "ep_wf True False (f (k_endpoints c i))"
      using ep_wfD [OF g(2), of i] by (auto simp: f_def Let_def ep_wf_def clear_queue_def kEndpointQueueDepth_def kMaxGeneration_def)
    then have "ep_inv G ((view c)\<lparr>v_ep := (v_ep (view c))(i := erase_ep (f (k_endpoints c i))), v_slot := ?SL\<rparr>)"
      using qinvD(4) [OF kinvD(1) [OF g(2)]] free by (simp add: ep_inv_def R)
    from kinv_ep [OF g(2) this] have "kinv {} G (view ?c)"
      by (simp add: view_upd_ep view_slot slot_ep)
    moreover have "snd (snd (create_endpoint owner out s)) = ?s"
      using i \<open>out\<close> free(2)
      by (simp add: create_endpoint_def Let_def, intro kst.equality)
        (auto simp: f_def Let_def clear_queue_def R(49-51) fun_eq_iff intro!: endpoint.equality)
    ultimately show ?thesis
      using ok_atI [OF S] g(3) by simp
  qed (use assms in \<open>auto simp: create_endpoint_def\<close>)
qed


section \<open>Waking a receiver\<close>

text \<open>
  Popping the oldest receiver, writing its registers and making it runnable.  The endpoint part
  of the view is a parameter, since a destroyed endpoint is already inactive at this point.
\<close>

lemma waiter_wake:
  assumes S: "sim G c s" and K: "kinv {} G ((view c)\<lparr>v_ep := E, v_slot := SL\<rparr>)" and ls: "g_wq G e = t # ts"
    and f: "invisible f"
  shows "\<exists>s1 s2 c'. waiter_pop e s = (Some t, s1) \<and> deref_scheduler t (f s1) = Some () \<and>
    Scheduler_add_task t (f s1) = (True, s2) \<and> sim (enq_rq Global_rq t (deq_wq e G)) c' s2 \<and>
    view c' = put t TS_ready True False False (v_deadline (view c) t) (view c) \<and>
    kinv {} (enq_rq Global_rq t (deq_wq e G)) ((view c')\<lparr>v_ep := E, v_slot := SL\<rparr>)"
proof -
  let ?v = "(view c)\<lparr>v_ep := E, v_slot := SL\<rparr>" and ?c = "f (upd_task t (set_waiting False) c)"
  note Q = kinvD(1) [OF K] and i = invisibleD [OF f]
  have m: "v_m ?v t" using sim_waiting [OF S, of t] ls by (auto intro!: exI [of _ e])
  note fl = placed_flags(8) [OF Q disjI2 [OF disjI2 [OF m]] m]
  obtain s1 where s1: "waiter_pop e s = (Some t, s1)" "sim (deq_wq e G) (upd_task t (set_waiting False) c) s1"
    using waiter_pop_sim [OF S ls] by blast
  have v: "view ?c = put t TS_blocked_message False False False (v_deadline (view c) t) (view c)"
    using fl unfolding i(2) by (simp add: view_moves)
  have "ep_inv (deq_wq e G) ?v"
    using qinvD(4) [OF Q] ls by (auto simp: ep_inv_def deq_wq_def ep_wf_def)
  from qinv_leave_wq [OF Q m this]
  have Q1: "qinv {} {t} (deq_wq e G) ((view ?c)\<lparr>v_ep := E, v_slot := SL\<rparr>)"
    unfolding v put_ep by simp
  have st: "t_state (k_tasks ?c t) = TS_blocked_message"
    using arg_cong [OF v, of "\<lambda>v. v_state v t"] by simp
  have S1: "sim (deq_wq e G) ?c (f s1)" by (rule i(1) [OF s1(2)])
  note a = add_task_sim_ep [OF S1 Q1 empty_iff [THEN iffD1, THEN notI]]
  obtain s2 where s2: "Scheduler_add_task t (f s1) = (True, s2)"
    "sim (enq_rq Global_rq t (deq_wq e G)) (upd_task t make_ready ?c) s2"
    "qinv {} {} (enq_rq Global_rq t (deq_wq e G)) ((view (upd_task t make_ready ?c))\<lparr>v_ep := E, v_slot := SL\<rparr>)"
    using a st by auto
  have v': "view (upd_task t make_ready ?c) = put t TS_ready True False False (v_deadline (view c) t) (view c)"
    unfolding view_moves v by (simp add: put_def)
  have "join_inv ((view (upd_task t make_ready ?c))\<lparr>v_ep := E, v_slot := SL\<rparr>)"
    unfolding v' put_ep using fl by (intro join_inv_put [OF kinvD(3) [OF K]]) simp_all
  moreover have "tree_inv ((view (upd_task t make_ready ?c))\<lparr>v_ep := E, v_slot := SL\<rparr>)"
    unfolding v' put_ep using kinvD(2) [OF K] by simp
  moreover have "deref_scheduler t (f s1) = Some ()"
    using exempt_task(1) [OF Q1] by (intro deref_scheduler_ok_ep [OF S1 Q1]) simp
  ultimately show ?thesis
    using s1(1) s2 v' unfolding kinv_def by blast
qed


section \<open>Destroying an endpoint\<close>

text \<open>The context of a receiver whose endpoint is destroyed.\<close>

definition told_removed :: "bool \<Rightarrow> task_context \<Rightarrow> task_context" where
  "told_removed b x = (if b then set_x 10 (of_int kErrorIdrm) x else x)"

text \<open>Every waiting receiver becomes runnable, in the order of arrival.\<close>

lemma destroy_wake_sim:
  assumes "sim G c s" and "kinv {} G ((view c)\<lparr>v_ep := E, v_slot := SL\<rparr>)" and "g_wq G e = ws"
  shows "\<exists>G' c' s'. destroy_wake e s = Some s' \<and> sim G' c' s' \<and> kinv {} G' ((view c')\<lparr>v_ep := E, v_slot := SL\<rparr>) \<and>
    v_cur (view c') = v_cur (view c) \<and> v_ep (view c') = v_ep (view c) \<and> v_slot (view c') = v_slot (view c) \<and>
    g_wq G' = (g_wq G)(e := []) \<and> g_dq G' = g_dq G \<and> g_rq G' Global_rq = g_rq G Global_rq @ ws \<and>
    (\<forall>u. t_context (k_tasks s' u) = told_removed (u \<in> set ws) (t_context (k_tasks s u)))"
  using assms
proof (induction ws arbitrary: G c s)
  case Nil
  then have "destroy_wake e s = Some s"
    by (subst destroy_wake.simps) (simp add: waiter_pop_none)
  with Nil show ?case
    by (intro exI [of _ G] exI [of _ c] exI [of _ s]) (simp add: fun_upd_idem told_removed_def del: view_simps)
next
  case (Cons t ws)
  let ?f = "\<lambda>s. set_task_x t 10 (of_int kErrorIdrm) (upd_task t (\<lambda>x. x\<lparr>t_state_info := 0\<rparr>) s)"
  let ?G = "enq_rq Global_rq t (deq_wq e G)"
  have "invisible ?f" by (rule invisible_comp [OF invisible_updates(1) invisible_state_info])
  from waiter_wake [OF Cons.prems this]
  obtain s1 s2 c' where w: "waiter_pop e s = (Some t, s1)" "deref_scheduler t (?f s1) = Some ()"
    "Scheduler_add_task t (?f s1) = (True, s2)" "sim ?G c' s2"
    "view c' = put t TS_ready True False False (v_deadline (view c) t) (view c)"
    "kinv {} ?G ((view c')\<lparr>v_ep := E, v_slot := SL\<rparr>)" by blast
  have ls: "g_wq ?G e = ws" using Cons.prems(3) by (simp add: enq_rq_def deq_wq_def)
  have "destroy_wake e s = destroy_wake e s2"
    by (subst destroy_wake.simps) (simp add: w(1-3) Let_def)
  moreover obtain G' c2 s' where "destroy_wake e s2 = Some s'" "sim G' c2 s'"
    "kinv {} G' ((view c2)\<lparr>v_ep := E, v_slot := SL\<rparr>)" "v_cur (view c2) = v_cur (view c')"
    "v_ep (view c2) = v_ep (view c')" "v_slot (view c2) = v_slot (view c')" "g_wq G' = (g_wq ?G)(e := [])"
    "g_dq G' = g_dq ?G" "g_rq G' Global_rq = g_rq ?G Global_rq @ ws"
    "\<forall>u. t_context (k_tasks s' u) = told_removed (u \<in> set ws) (t_context (k_tasks s2 u))"
    using Cons.IH [OF w(4,6) ls] by blast
  moreover have "t_context (k_tasks s2 u) = told_removed (u = t) (t_context (k_tasks s u))" for u
    using add_task_frame(1) [OF w(3)] waiter_pop_frame(1) [OF w(1)] by (simp add: set_task_x_def told_removed_def)
  moreover have "told_removed p (told_removed q x) = told_removed (q \<or> p) x" for p q x
    by (simp add: told_removed_def set_x_def)
  moreover have "v_cur (view c') = v_cur (view c)" "v_ep (view c') = v_ep (view c)" "v_slot (view c') = v_slot (view c)"
    unfolding w(5) by (rule put_simps)+
  moreover have "(g_wq ?G)(e := []) = (g_wq G)(e := [])" "g_dq ?G = g_dq G" "g_rq ?G Global_rq = g_rq G Global_rq @ [t]"
    by (simp_all add: enq_rq_def deq_wq_def)
  ultimately show ?case
    by (intro exI [of _ G'] exI [of _ c2] exI [of _ s']) (simp only: append.assoc append_Cons append_Nil set_simps insert_iff simp_thms)
qed

text \<open>The endpoint that is left, and whether its slot stays allocated.\<close>

definition torn_down :: "endpoint \<Rightarrow> endpoint" where
  "torn_down x = (let x' = (clear_queue x)\<lparr>ep_head := 0, ep_count := 0, ep_owner := 0, ep_active := False\<rparr> in
     if ep_generation x \<ge> kMaxGeneration then x'\<lparr>ep_retired := True\<rparr>
     else x'\<lparr>ep_generation := ep_generation x' + 1\<rparr>)"

definition destroyable :: "u64 \<Rightarrow> u64 \<Rightarrow> kst \<Rightarrow> bool" where
  "destroyable caller handle s \<longleftrightarrow> (let p = EndpointHandle_from_raw handle; ep = k_endpoints s (unat (eh_index p)) in
     handle_well_formed p \<and> k_slot_allocated s (unat (eh_index p)) \<and> ep_active ep \<and> ep_generation ep = eh_generation p \<and>
     ep_owner ep = caller)"

lemma ep_wf_torn_down:
  assumes "ep_wf sl w ep" and "ep_active ep"
  shows "ep_wf (if ep_generation ep \<ge> kMaxGeneration then sl else False) False (torn_down ep)"
proof -
  have "ep_generation ep < kMaxGeneration \<Longrightarrow> ep_generation ep + 1 \<le> kMaxGeneration" by (rule inc_le)
  then show ?thesis
    using assms by (auto simp: torn_down_def Let_def ep_wf_def clear_queue_def kEndpointQueueDepth_def not_le)
qed

lemma destroy_endpoint_steps:
  assumes S: "sim G c s" and K: "kinv {} G (view c)" and d: "destroyable caller handle s"
  defines "i \<equiv> unat (eh_index (EndpointHandle_from_raw handle))"
  shows "\<exists>G' c' s'. destroy_endpoint caller handle s = Some (0, s') \<and> sim G' c' s' \<and> kinv {} G' (view c') \<and>
    v_cur (view c') = v_cur (view c) \<and> v_ep (view c') = (v_ep (view c))(i := erase_ep (torn_down (k_endpoints c i))) \<and>
    g_wq G' = (g_wq G)(i := []) \<and> g_rq G' Global_rq = g_rq G Global_rq @ g_wq G i \<and>
    (\<forall>u. t_context (k_tasks s' u) = told_removed (u \<in> set (g_wq G i)) (t_context (k_tasks s u)))"
proof -
  note R = sim_reads [OF S]
  let ?ep = "k_endpoints s i"
  have act: "ep_active (k_endpoints c i)" using d by (simp add: destroyable_def Let_def i_def R)
  define SL where "SL = (if ep_generation ?ep \<ge> kMaxGeneration then k_slot_allocated s
    else (k_slot_allocated s)(i := False))"
  let ?s = "upd_ep i torn_down (s\<lparr>k_slot_allocated := SL\<rparr>)" and ?c = "upd_ep i torn_down (c\<lparr>k_slot_allocated := SL\<rparr>)"
  have teardown: "retire_or_free i s = ?s"
    by (auto simp: retire_or_free_def Let_def torn_down_def SL_def clear_queue_def intro!: kst.equality)
  have S1: "sim G ?c ?s"
    by (intro sim_upd_ep sim_other(7) S)
      (auto simp: torn_down_def Let_def ep_safe_def clear_queue_def erase_ep_def intro!: endpoint.equality)
  have V: "(view ?c)\<lparr>v_ep := v_ep (view c), v_slot := v_slot (view c)\<rparr> = view c"
    by (simp add: view_upd_ep view_slot del: view_simps)
  obtain G' c' s' where w: "destroy_wake i ?s = Some s'" "sim G' c' s'"
    "kinv {} G' ((view c')\<lparr>v_ep := v_ep (view c), v_slot := v_slot (view c)\<rparr>)"
    "v_cur (view c') = v_cur (view ?c)" "v_ep (view c') = v_ep (view ?c)" "v_slot (view c') = v_slot (view ?c)"
    "g_wq G' = (g_wq G)(i := [])" "g_rq G' Global_rq = g_rq G Global_rq @ g_wq G i"
    "\<forall>u. t_context (k_tasks s' u) = told_removed (u \<in> set (g_wq G i)) (t_context (k_tasks ?s u))"
    using destroy_wake_sim [where E = "v_ep (view c)" and SL = "v_slot (view c)", OF S1 _ refl, of i] K unfolding V by blast
  have v: "v_cur (view c') = v_cur (view c)" "v_ep (view c') = (v_ep (view c))(i := erase_ep (torn_down (k_endpoints c i)))"
    "v_slot (view c') = SL"
    using w(4-6) by (simp_all add: view_upd_ep view_slot del: view_simps)
  have "ep_inv G' (view c')"
    using qinvD(4) [OF kinvD(1) [OF K]] ep_wf_torn_down [OF ep_wfD [OF K] act] unfolding ep_inv_def v w(7)
    by (auto simp: SL_def R)
  then have "kinv {} G' (view c')"
    using kinv_ep [where E = "v_ep (view c')" and SL = "v_slot (view c')", OF w(3)] by (simp del: view_simps)
  moreover have "destroy_endpoint caller handle s = Some (0, s')"
    using d w(1) by (simp add: destroy_endpoint_def destroyable_def Let_def i_def [symmetric] teardown)
  ultimately show ?thesis
    using w(2,7,8,9) v(1,2) by (intro exI [of _ G'] exI [of _ c'] exI [of _ s']) simp
qed

lemma destroy_endpoint_ok:
  assumes "ok_at h s"
  shows "\<exists>r s'. destroy_endpoint caller handle s = Some (r, s') \<and> ok_at h s'"
proof (cases "destroyable caller handle s")
  case True
  from assms obtain G c t where g: "sim G c s" "kinv {} G (view c)" "hl_current_task (k_harts c h) = Some t"
    by (rule ok_atE)
  obtain G' c' s' where d: "destroy_endpoint caller handle s = Some (0, s')" "sim G' c' s'" "kinv {} G' (view c')"
    "v_cur (view c') = v_cur (view c)" using destroy_endpoint_steps [OF g(1,2) True] by blast
  have "v_cur (view c') h \<noteq> None" unfolding d(4) using g(3) by simp
  with d(2,3) have "ok_at h s'" unfolding ok_at_def by blast
  with d(1) show ?thesis by blast
next
  case False
  then show ?thesis using assms by (auto simp: destroy_endpoint_def destroyable_def Let_def)
qed


section \<open>Messages\<close>

lemma waiter_wake_ok:
  assumes S: "sim G c s" and K: "kinv {} G (view c)" and cur: "v_cur (view c) h \<noteq> None" and ls: "g_wq G e = t # ts"
    and f: "invisible f"
  shows "\<exists>s1 s2. waiter_pop e s = (Some t, s1) \<and> deref_scheduler t (f s1) = Some () \<and>
    Scheduler_add_task t (f s1) = (True, s2) \<and> ok_at h s2"
proof -
  have "kinv {} G ((view c)\<lparr>v_ep := v_ep (view c), v_slot := v_slot (view c)\<rparr>)"
    using K by (simp only: view_ep)
  from waiter_wake [OF S this ls f] obtain s1 s2 c' where w: "waiter_pop e s = (Some t, s1)"
    "deref_scheduler t (f s1) = Some ()" "Scheduler_add_task t (f s1) = (True, s2)"
    "sim (enq_rq Global_rq t (deq_wq e G)) c' s2"
    "view c' = put t TS_ready True False False (v_deadline (view c) t) (view c)"
    "kinv {} (enq_rq Global_rq t (deq_wq e G)) ((view c')\<lparr>v_ep := v_ep (view c), v_slot := v_slot (view c)\<rparr>)"
    by blast
  have "(view c')\<lparr>v_ep := v_ep (view c), v_slot := v_slot (view c)\<rparr> = view c'"
    unfolding w(5) put_ep view_ep ..
  moreover have "v_cur (view c') h \<noteq> None" unfolding w(5) put_simps by (rule cur)
  ultimately have "ok_at h s2"
    using w(4,6) unfolding ok_at_def by auto
  with w(1-3) show ?thesis by blast
qed

lemma send_ok:
  assumes "ok_at h s"
  shows "\<exists>r s'. send sender handle words s = Some (r, s') \<and> ok_at h s'"
proof -
  from assms obtain G c t where g: "sim G c s" "kinv {} G (view c)" "hl_current_task (k_harts c h) = Some t"
    by (rule ok_atE)
  note R = sim_reads [OF g(1)]
  define i where "i = unat (eh_index (EndpointHandle_from_raw handle))"
  let ?ep = "k_endpoints s i" and ?p = "EndpointHandle_from_raw handle"
  note wf = ep_wfD [OF g(2), of i]
  have inv: "check_endpoint_invariant ?ep = Some ()"
    using wf by (auto simp: check_endpoint_invariant_def R(26,51) ep_wf_def)
  show ?thesis
  proof (cases "handle_well_formed ?p \<and> ep_active ?ep \<and> ep_generation ?ep = eh_generation ?p")
    case False
    then show ?thesis using assms by (auto simp: send_def Let_def i_def)
  next
    case open_ep: True
    show ?thesis
    proof (cases "g_wq G i")
      case Nil
      then have nw: "ep_waiting_count ?ep = 0" by (simp add: R(51))
      show ?thesis
      proof (cases "ep_count ?ep \<ge> kEndpointQueueDepth")
        case True
        then show ?thesis using assms open_ep inv nw by (simp add: send_def Let_def i_def)
      next
        case False
        let ?f = "push_message (words\<lparr>msg_sender := sender\<rparr>)"
        have "ep_wf (k_slot_allocated c i) (g_wq G i \<noteq> []) (?f (k_endpoints c i))"
          using ep_wf_push wf Nil False open_ep by (simp add: R)
        note u = upd_ep_kinv [OF g(1,2) ep_safe_ops(2) this]
        have "ok_at h (upd_ep i ?f s)" using ok_atI [OF u] g(3) by simp
        then show ?thesis using open_ep inv nw False by (simp add: send_def Let_def i_def)
      qed
    next
      case (Cons r rs)
      let ?f = "\<lambda>s. upd_task r (\<lambda>x. x\<lparr>t_state_info := 0\<rparr>)
        (write_recv_registers r 0 (words\<lparr>msg_sender := sender\<rparr>) s)"
      have cur: "v_cur (view c) h \<noteq> None" using g(3) by simp
      have "invisible ?f" by (rule invisible_comp [OF invisible_state_info write_recv_invisible])
      from waiter_wake_ok [OF g(1,2) cur Cons this] obtain s1 s2 where w: "waiter_pop i s = (Some r, s1)"
        "deref_scheduler r (?f s1) = Some ()" "Scheduler_add_task r (?f s1) = (True, s2)" "ok_at h s2" by blast
      have "ep_waiting_count ?ep > 0" by (simp add: R(51) Cons)
      then show ?thesis using open_ep inv w by (simp add: send_def Let_def i_def [symmetric])
    qed
  qed
qed

lemma pop_message_ok:
  assumes "ok_at h s"
  shows "ok_at h (upd_ep i pop_message s)"
proof -
  from assms obtain G c t where g: "sim G c s" "kinv {} G (view c)" "hl_current_task (k_harts c h) = Some t"
    by (rule ok_atE)
  note u = upd_ep_kinv [OF g(1,2) ep_safe_ops(1) ep_wf_pop [OF ep_wfD [OF g(2)]]]
  show ?thesis using ok_atI [OF u] g(3) by simp
qed

lemma try_recv_ok: "ok_at h s \<Longrightarrow> ok_at h (snd (snd (try_recv handle out s)))"
  by (simp add: try_recv_def Let_def pop_message_ok)

text \<open>A receiver without a message joins the waiting FIFO and its hart switches.\<close>

lemma block_on_endpoint:
  fixes handle :: u64
  assumes S: "sim G c s" and K: "kinv {} G (view c)" and cur: "hl_current_task (k_harts c h) = Some t"
    and idle: "\<not> t_idle (k_tasks c t)" and ep: "ep_active (k_endpoints c e)" "ep_count (k_endpoints c e) = 0"
  defines "f \<equiv> \<lambda>x. x\<lparr>t_state := TS_blocked_message, t_state_info := handle\<rparr>"
  shows "sim (enq_wq e t G) (upd_task t f (upd_task t (set_waiting True) c)) (upd_task t f (waiter_push e t s))"
    "kinv {h} (enq_wq e t G) (view (upd_task t f (upd_task t (set_waiting True) c)))"
proof -
  note cf = current_facts [OF K cur]
  have "task_safe f" by (simp add: f_def task_safe_def erase_task_def)
  then show "sim (enq_wq e t G) (upd_task t f (upd_task t (set_waiting True) c)) (upd_task t f (waiter_push e t s))"
    by (intro sim_upd_task waiter_push_sim S cf(7))
  have v: "view (upd_task t f (upd_task t (set_waiting True) c)) =
      put t TS_blocked_message False False True (v_deadline (view c) t) (view c)"
    using cf(5,6) unfolding f_def
    by (subst view_upd_task, simp, unfold view_moves) (simp add: set_waiting_def put_def)
  have "qinv {h} (insert t {}) G (view c)"
    using qinv_leave [OF kinvD(1) [OF K], of h t] cur idle by simp
  from qinv_enter_wq [OF this] have "qinv {h} {} (enq_wq e t G) (view (upd_task t f (upd_task t (set_waiting True) c)))"
    unfolding v using ep by simp
  moreover have "join_inv (view (upd_task t f (upd_task t (set_waiting True) c)))"
    unfolding v using kinvD(3) [OF K] cf(2) by (intro join_inv_put) simp_all
  ultimately show "kinv {h} (enq_wq e t G) (view (upd_task t f (upd_task t (set_waiting True) c)))"
    using kinvD(2) [OF K] unfolding kinv_def v by simp
qed


lemma recv_ok:
  assumes S: "sim G c s" and K: "kinv {} G (view c)" and cur: "hl_current_task (k_harts c h) = Some t"
    and idle: "\<not> t_idle (k_tasks c t)"
  shows "\<exists>r s'. recv h t handle s = Some (r, s') \<and> ok_at h s'"
proof -
  note R = sim_reads [OF S] and cf = current_facts [OF K cur] and ok = ok_atI [OF S K cur]
  define i where "i = unat (eh_index (EndpointHandle_from_raw handle))"
  let ?ep = "k_endpoints s i" and ?p = "EndpointHandle_from_raw handle"
  have nq: "\<not> mw_queued (t_message_wait (k_tasks s t))" using cf(7) by (simp add: R)
  have inv: "check_endpoint_invariant ?ep = Some ()"
    using ep_wfD [OF K, of i] by (auto simp: check_endpoint_invariant_def R(26,51) ep_wf_def)
  show ?thesis
  proof (cases "handle_well_formed ?p \<and> ep_active ?ep \<and> ep_generation ?ep = eh_generation ?p")
    case False
    then show ?thesis using ok_at_quiet(1) [OF ok] nq by (auto simp: recv_def Let_def i_def [symmetric])
  next
    case open_ep: True
    show ?thesis
    proof (cases "ep_count ?ep > 0")
      case True
      have "ok_at h (write_recv_registers t 0 m (upd_ep i pop_message s))" for m
        by (rule ok_at_invisible [OF write_recv_invisible pop_message_ok [OF ok]])
      then show ?thesis using True open_ep inv nq by (simp add: recv_def Let_def i_def [symmetric])
    next
      case False
      let ?f = "\<lambda>x. x\<lparr>t_state := TS_blocked_message, t_state_info := handle\<rparr>"
      let ?c = "upd_task t ?f (upd_task t (set_waiting True) c)" and ?s = "upd_task t ?f (waiter_push i t s)"
      have ep: "ep_active (k_endpoints c i)" "ep_count (k_endpoints c i) = 0"
        using False open_ep by (simp_all add: R)
      note b = block_on_endpoint [OF S K cur idle ep, of handle]
      have "deref_scheduler t ?s = Some ()"
        using cf(1) by (intro deref_scheduler_ok [OF b(1) kinvD(1) [OF b(2)]]) simp
      moreover obtain u c2 s2 where n: "Scheduler_set_next_runnable h ?s = Some (u, s2)"
        "sim (deq_rq Global_rq (enq_wq i t G)) c2 s2" "kinv {} (deq_rq Global_rq (enq_wq i t G)) (view c2)"
        "hl_current_task (k_harts c2 h) = Some u"
        using reschedule [OF b] cf(4) by auto
      ultimately show ?thesis
        using False open_ep inv nq ok_atI [OF n(2-4)] n(1) by (simp add: recv_def Let_def i_def [symmetric])
    qed
  qed
qed

section \<open>The message-passing system calls\<close>

lemma sys_endpoint_create_ok: "ok_at h s \<Longrightarrow> lands h (Some (sys_endpoint_create t s))"
  using create_endpoint_ok [of h s "t_tid (k_tasks s t)" True]
  by (auto simp: sys_endpoint_create_def ok_at_quiet split: prod.splits)

lemma sys_endpoint_destroy_ok: "ok_at h s \<Longrightarrow> lands h (sys_endpoint_destroy t s)"
  using destroy_endpoint_ok [of h s "t_tid (k_tasks s t)" "task_x t 10 s"]
  by (auto simp: sys_endpoint_destroy_def ok_at_quiet)

lemma sys_send_ok: "ok_at h s \<Longrightarrow> lands h (sys_send t s)"
  using send_ok [of h s "t_tid (k_tasks s t)" "task_x t 10 s" "\<lparr>msg_sender = 0, msg_word0 = task_x t 11 s,
    msg_word1 = task_x t 12 s, msg_word2 = task_x t 13 s, msg_word3 = task_x t 14 s\<rparr>"]
  by (auto simp: sys_send_def ok_at_quiet)

lemma sys_try_recv_ok: "ok_at h s \<Longrightarrow> lands h (Some (sys_try_recv t s))"
  using try_recv_ok [of h s "task_x t 10 s" True]
  by (auto simp: sys_try_recv_def Let_def ok_at_quiet ok_at_invisible [OF write_recv_invisible] split: prod.splits)

lemma sys_recv_ok:
  assumes "sim G c s" and "kinv {} G (view c)" and "hl_current_task (k_harts c h) = Some t" and "\<not> t_idle (k_tasks c t)"
  shows "lands h (sys_recv h t s)"
  using recv_ok [OF assms, of "task_x t 10 s"] by (auto simp: sys_recv_def)

end
