(* ===== verification/Tracker_Removal.thy ===== *)
theory Tracker_Removal
  imports Task_Manager
begin

text \<open>
  Removal of trackers from the tree, \<^verbatim>\<open>TaskManager::remove_tracker_locked\<close>, against its abstract
  effect: the children of a removed tracker are adopted by its parent, and on the way to the
  root list completed trackers are reaped.
\<close>


section \<open>Removing trackers\<close>

definition adopt :: "nat set \<Rightarrow> nat option \<Rightarrow> kst \<Rightarrow> kst" where
  "adopt D np c = c\<lparr>
     k_trackers := (\<lambda>u. if u \<in> D then zero_tracker
       else if k_tracker_slots_used c u \<and> tt_parent (k_trackers c u) \<in> Some ` D
         then set_parent np (k_trackers c u) else k_trackers c u),
     k_tracker_slots_used := (\<lambda>u. k_tracker_slots_used c u \<and> u \<notin> D)\<rparr>"

lemma set_parent_simps [simp]:
  "tt_parent (set_parent p r) = p" "tt_key (set_parent p r) = tt_key r"
  "tt_task (set_parent p r) = tt_task r" "tt_status (set_parent p r) = tt_status r"
  "tt_wait (set_parent p r) = tt_wait r" "set_parent p (set_parent q r) = set_parent p r"
  by (simp_all add: set_parent_def)

lemma release_tracker_drop: "x < kMaxTasks \<Longrightarrow> release_tracker_locked x s = Some (drop_tracker x s)"
  by (simp add: release_tracker_locked_def drop_tracker_def)

definition same_queues :: "ghost \<Rightarrow> ghost \<Rightarrow> bool" where
  "same_queues G G' \<longleftrightarrow> g_rq G' = g_rq G \<and> g_dq G' = g_dq G \<and> g_wq G' = g_wq G"

lemma same_queues_simps [simp]:
  "same_queues G (link_ch x p G') = same_queues G G'" "same_queues G (unlink_ch x p G') = same_queues G G'"
  "same_queues (link_ch x p G) G' = same_queues G G'" "same_queues (unlink_ch x p G) G' = same_queues G G'"
  "same_queues G (G'\<lparr>g_out := U\<rparr>) = same_queues G G'" "same_queues G G"
  by (simp_all add: same_queues_def link_ch_def unlink_ch_def)

lemma g_out_link [simp]:
  "g_out (unlink_ch x p G) = insert x (g_out G)" "g_out (link_ch x p G) = g_out G - {x}"
  by (simp_all add: link_ch_def unlink_ch_def)

lemma same_queues_trans: "same_queues G G' \<Longrightarrow> same_queues G' G'' \<Longrightarrow> same_queues G G''"
  by (simp add: same_queues_def)

text \<open>One turn of the loop moves the first child of \<open>x\<close> to the list of the new parent.\<close>

lemma move_child_sim:
  assumes S: "sim G c s" and ls: "g_ch G (Some x) = y # ys"
  shows "tt_first_child (k_trackers s x) = Some y"
    "sim (link_ch y np (unlink_ch y (Some x) G)) (upd_tracker y (set_parent np) c)
       (link_tracker_locked y np (unlink_tracker_locked y s))"
proof -
  have y: "y \<in> set (g_ch G (Some x))" using ls by simp
  show "tt_first_child (k_trackers s x) = Some y"
    using sim_reads(53) [OF S, of x] ls by simp
  show "sim (link_ch y np (unlink_ch y (Some x) G)) (upd_tracker y (set_parent np) c)
       (link_tracker_locked y np (unlink_tracker_locked y s))"
    by (rule link_tracker_sim [OF unlink_tracker_sim [OF S y]])
      (use sim_linked_used(1) [OF S y] in \<open>simp_all add: unlink_ch_def\<close>)
qed

lemma remove_children_Some:
  assumes "sim G c s" and "x \<in> g_out G" and "x < kMaxTasks" and "p \<noteq> x"
    and "\<forall>y \<in> g_out G. tt_parent (k_trackers c y) \<noteq> Some x" and "k_tracker_slots_used c x"
  shows "\<exists>G' s'. remove_children x (Some p) s = Some s' \<and> sim G' (adopt {x} (Some p) c) s' \<and>
    g_out G' = g_out G - {x} \<and> same_queues G G'"
  using assms
proof (induction "g_ch G (Some x)" arbitrary: G c s)
  case Nil
  then have ls: "g_ch G (Some x) = []" by simp
  have c: "adopt {x} (Some p) c = drop_tracker x c"
  proof -
    have "\<not> (k_tracker_slots_used c u \<and> tt_parent (k_trackers c u) = Some x)" for u
      using sim_linked [OF Nil.prems(1), of u] Nil.prems(5) ls by (cases "u \<in> g_out G") auto
    then show ?thesis
      by (intro kst.equality) (auto simp: adopt_def drop_tracker_def fun_eq_iff)
  qed
  have "remove_children x (Some p) s = Some (drop_tracker x s)"
    using sim_reads(53) [OF Nil.prems(1), of x] ls Nil.prems(3)
    by (subst remove_children.simps) (simp add: release_tracker_drop)
  with drop_tracker_sim [OF Nil.prems(1,2) ls] c show ?case by auto
next
  case (Cons y ys)
  then have ls: "g_ch G (Some x) = y # ys" by simp
  let ?G = "link_ch y (Some p) (unlink_ch y (Some x) G)"
  let ?c = "upd_tracker y (set_parent (Some p)) c"
  let ?s = "link_tracker_locked y (Some p) (unlink_tracker_locked y s)"
  have y: "y \<in> set (g_ch G (Some x))" using ls by simp
  note yu = sim_linked_used [OF Cons.prems(1) y]
  have out: "g_out ?G = g_out G"
    using yu(2) by (auto simp: link_ch_def unlink_ch_def)
  have yx: "y \<noteq> x" using yu(2) Cons.prems(2) by blast
  have "\<exists>G' s'. remove_children x (Some p) ?s = Some s' \<and> sim G' (adopt {x} (Some p) ?c) s' \<and>
    g_out G' = g_out ?G - {x} \<and> same_queues ?G G'"
  proof (rule Cons.hyps(1))
    show "ys = g_ch ?G (Some x)"
      using ls Cons.prems(4) by (simp add: link_ch_def unlink_ch_def)
    show "sim ?G ?c ?s" by (rule move_child_sim(2) [OF Cons.prems(1) ls])
  qed (use Cons.prems out in auto)
  moreover have "adopt {x} (Some p) ?c = adopt {x} (Some p) c"
    using yx yu(1) sim_parent [OF Cons.prems(1) y] Cons.prems(4)
    by (intro kst.equality) (auto simp: adopt_def fun_eq_iff)
  moreover have "remove_children x (Some p) s = remove_children x (Some p) ?s"
    using move_child_sim(1) [OF Cons.prems(1) ls]
    by (subst remove_children.simps) (simp add: Let_def)
  ultimately show ?case
    unfolding out by simp
qed


text \<open>
  With no parent left, completed children are reaped as they reach the root list.  \<open>reaps x D c\<close>
  says what the removed set \<open>D\<close> is: \<open>x\<close> and completed trackers, such that no completed tracker is
  handed over to the root list.
\<close>

abbreviation zombie :: "kst \<Rightarrow> nat \<Rightarrow> bool" where
  "zombie c y \<equiv> k_tracker_slots_used c y \<and> tt_task (k_trackers c y) = None"

definition reaps :: "nat \<Rightarrow> nat set \<Rightarrow> kst \<Rightarrow> bool" where
  "reaps x D c \<longleftrightarrow> x \<in> D \<and> (\<forall>y \<in> D. y = x \<or> zombie c y) \<and>
     (\<forall>y. zombie c y \<and> y \<notin> D \<longrightarrow> tt_parent (k_trackers c y) \<notin> Some ` D)"

definition crashed_zombie :: "kst \<Rightarrow> bool" where
  "crashed_zombie c \<longleftrightarrow> (\<exists>y. zombie c y \<and> tt_status (k_trackers c y) = ES_crashed)"

definition nonroot :: "kst \<Rightarrow> nat set" where
  "nonroot c = {u. k_tracker_slots_used c u \<and> tt_parent (k_trackers c u) \<noteq> None}"

lemma adopt_fields [simp]:
  "k_tracker_slots_used (adopt D np c) u \<longleftrightarrow> k_tracker_slots_used c u \<and> u \<notin> D"
  "u \<notin> D \<Longrightarrow> tt_task (k_trackers (adopt D np c) u) = tt_task (k_trackers c u)"
  "u \<notin> D \<Longrightarrow> tt_status (k_trackers (adopt D np c) u) = tt_status (k_trackers c u)"
  "u \<notin> D \<Longrightarrow> tt_key (k_trackers (adopt D np c) u) = tt_key (k_trackers c u)"
  "u \<notin> D \<Longrightarrow> tt_wait (k_trackers (adopt D np c) u) = tt_wait (k_trackers c u)"
  "u \<notin> D \<Longrightarrow> tt_parent (k_trackers (adopt D np c) u) =
     (if k_tracker_slots_used c u \<and> tt_parent (k_trackers c u) \<in> Some ` D then np
      else tt_parent (k_trackers c u))"
  "u \<in> D \<Longrightarrow> k_trackers (adopt D np c) u = zero_tracker"
  by (simp_all add: adopt_def)

lemma nonroot_adopt: "nonroot (adopt D None c) \<subseteq> nonroot c"
  by (auto simp: nonroot_def split: if_splits)

lemma adopt_upd:
  assumes "y \<notin> D" and "k_tracker_slots_used c y" and "tt_parent (k_trackers c y) = Some x" and "x \<in> D"
  shows "adopt D None (upd_tracker y (set_parent None) c) = adopt D None c"
  using assms by (intro kst.equality) (auto simp: adopt_def fun_eq_iff)

lemma adopt_upd_in:
  assumes "y \<in> D"
  shows "adopt D None (upd_tracker y (set_parent None) c) = adopt D None c"
  using assms by (intro kst.equality) (auto simp: adopt_def fun_eq_iff)

lemma adopt_adopt: "adopt D2 None (adopt D1 None c) = adopt (D1 \<union> D2) None c"
  by (intro kst.equality) (auto simp: adopt_def fun_eq_iff)

lemma reaps_move:
  assumes "reaps x D (upd_tracker y (set_parent None) c)" and "y \<in> D \<or> \<not> zombie c y"
  shows "reaps x D c"
  using assms unfolding reaps_def by (auto split: if_splits)

lemma reaps_Un:
  assumes "reaps y D1 c" and "reaps x D2 (adopt D1 None c)" and "zombie c y"
  shows "reaps x (D1 \<union> D2) c"
  unfolding reaps_def
proof (intro conjI ballI allI impI)
  show "x \<in> D1 \<union> D2" using assms(2) by (simp add: reaps_def)
  show "u = x \<or> zombie c u" if "u \<in> D1 \<union> D2" for u
    using assms that by (auto simp: reaps_def)
  show "tt_parent (k_trackers c u) \<notin> Some ` (D1 \<union> D2)" if "zombie c u \<and> u \<notin> D1 \<union> D2" for u
  proof -
    have p: "tt_parent (k_trackers c u) \<notin> Some ` D1"
      using assms(1) that by (auto simp: reaps_def)
    then have "tt_parent (k_trackers (adopt D1 None c) u) = tt_parent (k_trackers c u)"
      using that by (simp add: adopt_def)
    moreover have "zombie (adopt D1 None c) u" using that by simp
    ultimately have "tt_parent (k_trackers c u) \<notin> Some ` D2"
      using assms(2) that unfolding reaps_def by (metis UnI2)
    with p show ?thesis by (simp add: image_Un)
  qed
qed

lemma crashed_zombie_mono:
  "crashed_zombie (adopt D None c) \<Longrightarrow> crashed_zombie c"
  "crashed_zombie (upd_tracker y (set_parent np) c) \<Longrightarrow> crashed_zombie c"
  by (auto simp: crashed_zombie_def split: if_splits)

text \<open>What removing \<open>x\<close> towards the root list does, or that it parks on a crashed child.\<close>

definition removes :: "nat \<Rightarrow> ghost \<Rightarrow> kst \<Rightarrow> kst \<Rightarrow> bool" where
  "removes x G c s \<longleftrightarrow> (remove_children x None s = None \<and> crashed_zombie c) \<or>
    (\<exists>D G' s'. remove_children x None s = Some s' \<and> sim G' (adopt D None c) s' \<and> reaps x D c \<and>
       D \<inter> g_out G = {x} \<and> g_out G' = g_out G - {x} \<and> same_queues G G')"

definition removable :: "nat \<Rightarrow> ghost \<Rightarrow> kst \<Rightarrow> bool" where
  "removable x G c \<longleftrightarrow> x \<in> g_out G \<and> k_tracker_slots_used c x \<and>
     (\<forall>u. k_tracker_slots_used c u \<longrightarrow> u < kMaxTasks) \<and>
     (\<forall>y \<in> g_out G. tt_parent (k_trackers c y) = None)"

lemma no_children:
  assumes "sim G c s" and "removable x G c" and "g_ch G (Some x) = []"
  shows "\<not> (k_tracker_slots_used c u \<and> tt_parent (k_trackers c u) = Some x)"
  using sim_linked [OF assms(1), of u] assms(2,3)
  by (cases "u \<in> g_out G") (auto simp: removable_def)

lemma removes_leaf:
  assumes S: "sim G c s" and x: "removable x G c" and Nil: "g_ch G (Some x) = []"
  shows "removes x G c s"
proof -
  have c: "adopt {x} None c = drop_tracker x c"
    using no_children [OF assms]
    by (intro kst.equality) (auto simp: adopt_def drop_tracker_def fun_eq_iff)
  have "remove_children x None s = Some (drop_tracker x s)"
    using sim_reads(53) [OF S, of x] Nil x
    by (subst remove_children.simps) (simp add: release_tracker_drop removable_def)
  moreover have "reaps x {x} c"
    using no_children [OF assms] by (auto simp: reaps_def)
  ultimately show ?thesis
    using drop_tracker_sim [OF S _ Nil] c x unfolding removes_def removable_def
    by (intro disjI2 exI [of _ "{x}"]) auto
qed

text \<open>One turn of the loop, with the child \<open>y\<close> at the head of the list.\<close>

abbreviation moved_G :: "nat \<Rightarrow> nat \<Rightarrow> ghost \<Rightarrow> ghost" where
  "moved_G x y G \<equiv> link_ch y None (unlink_ch y (Some x) G)"

abbreviation moved_s :: "nat \<Rightarrow> kst \<Rightarrow> kst" where
  "moved_s y s \<equiv> link_tracker_locked y None (unlink_tracker_locked y s)"

abbreviation moved_c :: "nat \<Rightarrow> kst \<Rightarrow> kst" where
  "moved_c y c \<equiv> upd_tracker y (set_parent None) c"

lemma remove_children_turn:
  assumes S: "sim G c s" and ls: "g_ch G (Some x) = y # ys"
  shows "sim (moved_G x y G) (moved_c y c) (moved_s y s)"
    "remove_children x None s =
       (if tt_task (k_trackers c y) = None then
          (if tt_status (k_trackers c y) = ES_crashed then None
           else remove_children y None (unlink_tracker_locked y (moved_s y s)) \<bind> remove_children x None)
        else remove_children x None (moved_s y s))"
proof -
  show S1: "sim (moved_G x y G) (moved_c y c) (moved_s y s)"
    by (rule move_child_sim(2) [OF S ls])
  have "tt_task (k_trackers (moved_s y s) y) = tt_task (k_trackers c y)"
    "tt_status (k_trackers (moved_s y s) y) = tt_status (k_trackers c y)"
    "tt_parent (k_trackers (moved_s y s) y) = None"
    by (simp_all add: sim_reads [OF S1])
  then show "remove_children x None s =
       (if tt_task (k_trackers c y) = None then
          (if tt_status (k_trackers c y) = ES_crashed then None
           else remove_children y None (unlink_tracker_locked y (moved_s y s)) \<bind> remove_children x None)
        else remove_children x None (moved_s y s))"
    using move_child_sim(1) [OF S ls] by (subst remove_children.simps) (simp add: Let_def)
qed

lemma moved_facts:
  assumes S: "sim G c s" and x: "removable x G c" and ls: "g_ch G (Some x) = y # ys"
  shows "k_tracker_slots_used c y" "y \<notin> g_out G" "y \<noteq> x" "tt_parent (k_trackers c y) = Some x"
    "g_out (moved_G x y G) = g_out G" "removable x (moved_G x y G) (moved_c y c)"
    "nonroot (moved_c y c) \<subset> nonroot c"
proof -
  have y: "y \<in> set (g_ch G (Some x))" using ls by simp
  show yu: "k_tracker_slots_used c y" "y \<notin> g_out G"
    by (rule sim_linked_used [OF S y])+
  show yp: "tt_parent (k_trackers c y) = Some x" by (rule sim_parent [OF S y])
  show "y \<noteq> x" using yu(2) x by (auto simp: removable_def)
  show out: "g_out (moved_G x y G) = g_out G"
    using yu(2) by (auto simp: link_ch_def unlink_ch_def)
  show "removable x (moved_G x y G) (moved_c y c)"
    using x unfolding removable_def out by simp
  show "nonroot (moved_c y c) \<subset> nonroot c"
    using yu(1) yp by (auto simp: nonroot_def split: if_splits)
qed

lemma removes_keep:
  assumes S: "sim G c s" and x: "removable x G c" and ls: "g_ch G (Some x) = y # ys"
    and keep: "tt_task (k_trackers c y) \<noteq> None"
    and rest: "removes x (moved_G x y G) (moved_c y c) (moved_s y s)"
  shows "removes x G c s"
proof -
  note y = moved_facts [OF S x ls]
  have step: "remove_children x None s = remove_children x None (moved_s y s)"
    using remove_children_turn(2) [OF S ls] keep by (simp only: if_False)
  from rest [unfolded removes_def] show ?thesis
  proof (elim disjE exE conjE)
    fix D G' s'
    assume r: "remove_children x None (moved_s y s) = Some s'" "sim G' (adopt D None (moved_c y c)) s'"
      "reaps x D (moved_c y c)" "D \<inter> g_out (moved_G x y G) = {x}"
      "g_out G' = g_out (moved_G x y G) - {x}" "same_queues (moved_G x y G) G'"
    have "y \<notin> D" "x \<in> D" using r(3) keep y(3) by (auto simp: reaps_def)
    then have "adopt D None (moved_c y c) = adopt D None c"
      using y(1,4) by (intro adopt_upd) auto
    moreover have "reaps x D c"
      using r(3) keep by (intro reaps_move [of x D y c]) auto
    ultimately show ?thesis
      using r(1,2,4,5,6) unfolding removes_def step y(5)
      by (intro disjI2 exI [of _ D] exI [of _ G'] exI [of _ s']) simp
  qed (use step crashed_zombie_mono(2) in \<open>auto simp: removes_def\<close>)
qed

lemma removes_reap:
  assumes S: "sim G c s" and x: "removable x G c" and ls: "g_ch G (Some x) = y # ys"
    and reap: "tt_task (k_trackers c y) = None" "tt_status (k_trackers c y) \<noteq> ES_crashed"
    and child: "removes y (unlink_ch y None (moved_G x y G)) (moved_c y c) (unlink_tracker_locked y (moved_s y s))"
    and rest: "\<And>D G' s'. sim G' (adopt D None c) s' \<Longrightarrow> removable x G' (adopt D None c) \<Longrightarrow>
      nonroot (adopt D None c) \<subset> nonroot c \<Longrightarrow> removes x G' (adopt D None c) s'"
  shows "removes x G c s"
proof -
  note y = moved_facts [OF S x ls]
  have step: "remove_children x None s =
      remove_children y None (unlink_tracker_locked y (moved_s y s)) \<bind> remove_children x None"
    unfolding remove_children_turn(2) [OF S ls] using reap by simp
  have out: "g_out (unlink_ch y None (moved_G x y G)) = insert y (g_out G)"
    using y(2) by auto
  from child [unfolded removes_def] show ?thesis
  proof (elim disjE exE conjE)
    fix D1 G3 s3
    assume r: "remove_children y None (unlink_tracker_locked y (moved_s y s)) = Some s3"
      "sim G3 (adopt D1 None (moved_c y c)) s3" "reaps y D1 (moved_c y c)"
      "D1 \<inter> g_out (unlink_ch y None (moved_G x y G)) = {y}"
      "g_out G3 = g_out (unlink_ch y None (moved_G x y G)) - {y}"
      "same_queues (unlink_ch y None (moved_G x y G)) G3"
    have yD: "y \<in> D1" using r(3) by (simp add: reaps_def)
    have xD: "D1 \<inter> g_out G = {}" and out3: "g_out G3 = g_out G"
      using r(4,5) y(2) by (auto simp: out)
    have D1: "reaps y D1 c" using r(3) yD by (intro reaps_move [of y D1 y c]) auto
    have "removes x G3 (adopt D1 None c) s3"
    proof (rule rest)
      show "sim G3 (adopt D1 None c) s3" using r(2) yD by (simp add: adopt_upd_in)
      show "removable x G3 (adopt D1 None c)"
        using x xD unfolding removable_def out3 by (auto simp: adopt_def)
      show "nonroot (adopt D1 None c) \<subset> nonroot c"
        using nonroot_adopt [of D1 "moved_c y c"] y(7) yD by (simp add: adopt_upd_in)
    qed
    then show ?thesis
      unfolding removes_def step r(1) out3 adopt_adopt bind.bind_lunit
    proof (elim disjE exE conjE)
      fix D2 G4 s4
      assume q: "remove_children x None s3 = Some s4" "sim G4 (adopt (D1 \<union> D2) None c) s4"
        "reaps x D2 (adopt D1 None c)" "D2 \<inter> g_out G = {x}" "g_out G4 = g_out G - {x}" "same_queues G3 G4"
      have "same_queues G G4" using r(6) q(6) by (auto intro: same_queues_trans)
      moreover have "reaps x (D1 \<union> D2) c" using D1 q(3) reap(1) y(1) by (intro reaps_Un [of y]) auto
      moreover have "(D1 \<union> D2) \<inter> g_out G = {x}" using q(4) xD by auto
      ultimately show "remove_children x None s3 = None \<and> crashed_zombie c \<or>
        (\<exists>D G' s'. remove_children x None s3 = Some s' \<and> sim G' (adopt D None c) s' \<and> reaps x D c \<and>
          D \<inter> g_out G = {x} \<and> g_out G' = g_out G - {x} \<and> same_queues G G')"
        using q(1,2,5) by blast
    qed (use crashed_zombie_mono(1) in blast)
  qed (use step crashed_zombie_mono(2) in \<open>auto simp: removes_def\<close>)
qed

lemma remove_children_None:
  assumes "sim G c s" and "removable x G c"
  shows "removes x G c s"
  using assms
proof (induction "card (nonroot c)" arbitrary: x G c s rule: less_induct)
  case less
  note S = less.prems(1) and x = less.prems(2)
  have fin: "finite (nonroot c)"
    by (rule finite_subset [of _ "{..<kMaxTasks}"]) (use x in \<open>auto simp: nonroot_def removable_def\<close>)
  show ?case
  proof (cases "g_ch G (Some x)")
    case Nil
    then show ?thesis by (rule removes_leaf [OF S x])
  next
    case (Cons y ys)
    note y = moved_facts [OF S x Cons]
    have m: "card (nonroot c') < card (nonroot c)" if "nonroot c' \<subset> nonroot c" for c'
      using fin that by (rule psubset_card_mono)
    show ?thesis
    proof (cases "tt_task (k_trackers c y) = None")
      case False
      show ?thesis
        by (rule removes_keep [OF S x Cons False])
          (rule less.hyps [OF m [OF y(7)] remove_children_turn(1) [OF S Cons] y(6)])
    next
      case True
      have "removable y (unlink_ch y None (moved_G x y G)) (moved_c y c)"
        using y(1) x unfolding removable_def by auto
      moreover have "sim (unlink_ch y None (moved_G x y G)) (moved_c y c) (unlink_tracker_locked y (moved_s y s))"
        by (rule unlink_tracker_sim [OF remove_children_turn(1) [OF S Cons]]) (simp add: link_ch_def)
      ultimately have child: "removes y (unlink_ch y None (moved_G x y G)) (moved_c y c)
          (unlink_tracker_locked y (moved_s y s))"
        by (intro less.hyps [OF m [OF y(7)]])
      show ?thesis
      proof (cases "tt_status (k_trackers c y) = ES_crashed")
        case crashed: True
        then have "remove_children x None s = None"
          unfolding remove_children_turn(2) [OF S Cons] using True by simp
        with True crashed y(1) show ?thesis by (auto simp: removes_def crashed_zombie_def)
      next
        case False
        show ?thesis
          by (rule removes_reap [OF S x Cons True False child]) (rule less.hyps [OF m])
      qed
    qed
  qed
qed


text \<open>
  Removing a linked tracker: its children go to its parent, or to the root list with the
  completed ones reaped; the only way not to return is a crashed child that would become an
  orphan of the kernel.
\<close>

lemma remove_tracker_sim:
  assumes S: "sim G c s" and G: "g_out G = {}" and x: "k_tracker_slots_used c x"
    and bound: "\<forall>u. k_tracker_slots_used c u \<longrightarrow> u < kMaxTasks"
    and np: "np = tt_parent (k_trackers c x)" "np \<noteq> Some x"
  shows "(remove_tracker_locked x s = None \<and> np = None \<and> crashed_zombie c) \<or>
    (\<exists>D G' s'. remove_tracker_locked x s = Some s' \<and> sim G' (adopt D np c) s' \<and> g_out G' = {} \<and>
       same_queues G G' \<and> (if np = None then reaps x D c else D = {x}))"
proof -
  have mem: "x \<in> set (g_ch G np)"
    using sim_linked [OF S x] G np by simp
  have S1: "sim (unlink_ch x np G) c (unlink_tracker_locked x s)"
    by (rule unlink_tracker_sim [OF S mem])
  have eq: "remove_tracker_locked x s = remove_children x np (unlink_tracker_locked x s)"
    by (simp add: remove_tracker_locked_def np sim_reads [OF S])
  show ?thesis
  proof (cases np)
    case None
    have "removes x (unlink_ch x np G) c (unlink_tracker_locked x s)"
      by (rule remove_children_None [OF S1]) (use G x bound np None in \<open>auto simp: removable_def\<close>)
    then show ?thesis
      using G None by (auto simp: removes_def eq)
  next
    case (Some p)
    have "\<exists>G' s'. remove_children x (Some p) (unlink_tracker_locked x s) = Some s' \<and>
        sim G' (adopt {x} (Some p) c) s' \<and> g_out G' = g_out (unlink_ch x np G) - {x} \<and>
        same_queues (unlink_ch x np G) G'"
      by (rule remove_children_Some [OF S1]) (use G x bound np Some in auto)
    then show ?thesis
      using G Some by (auto simp: eq)
  qed
qed

end
