(* ===== verification/Task_Steps.thy ===== *)
theory Task_Steps
  imports Ipc_Steps Tracker_Removal
begin

text \<open>
  Task creation, waiting and ending on states that satisfy the kernel invariant.  Creating fills
  a free slot and links a tracker under the caller; waiting reaps a completed child or blocks;
  ending removes the task and leaves a completed tracker, wakes the waiting parent, or removes
  the tracker.
\<close>

section \<open>Searching the children\<close>

lemma find_by_key_sim:
  assumes "sim G c s" and "g_ch G p = us @ xs"
  shows "find_by_key key (first xs) s = Some (find (\<lambda>x. tt_key (k_trackers c x) = key) xs)"
  using assms(2)
proof (induction xs arbitrary: us)
  case Nil
  then show ?case by (subst find_by_key.simps) simp
next
  case (Cons x xs)
  have "tt_next_sibling (k_trackers s x) = first xs"
    by (rule family_links(2) [OF sim_ch_family [OF assms(1)] Cons.prems])
  with Cons.IH [of "us @ [x]"] Cons.prems show ?case
    by (subst find_by_key.simps) (simp add: sim_reads [OF assms(1)])
qed

lemma find_completed_sim:
  assumes "sim G c s" and "g_ch G p = us @ xs"
  shows "find_completed (first xs) s = Some (find (\<lambda>x. tt_task (k_trackers c x) = None) xs)"
  using assms(2)
proof (induction xs arbitrary: us)
  case Nil
  then show ?case by (subst find_completed.simps) simp
next
  case (Cons x xs)
  have "tt_next_sibling (k_trackers s x) = first xs"
    by (rule family_links(2) [OF sim_ch_family [OF assms(1)] Cons.prems])
  with Cons.IH [of "us @ [x]"] Cons.prems show ?case
    by (subst find_completed.simps) (simp add: sim_reads [OF assms(1)])
qed

text \<open>
  A negative task id selects a completed child if there is one, otherwise the newest child; any
  other id selects the child with that id.
\<close>

definition find_child :: "u64 \<Rightarrow> kst \<Rightarrow> nat list \<Rightarrow> nat option" where
  "find_child tid c xs =
     (if 0 \<le>s tid then find (\<lambda>x. tt_key (k_trackers c x) = tid) xs
      else case find (\<lambda>x. tt_task (k_trackers c x) = None) xs of Some x \<Rightarrow> Some x | None \<Rightarrow> first xs)"

lemma find_child_sim:
  assumes "sim G c s"
  shows "find_child_locked x tid s = Some (find_child tid c (g_ch G (Some x)))"
  using find_by_key_sim [OF assms, of "Some x" "[]"] find_completed_sim [OF assms, of "Some x" "[]"]
  by (auto simp: find_child_locked_def find_child_def sim_reads [OF assms] split: option.splits)

lemma find_child_mem: "find_child tid c xs = Some x \<Longrightarrow> x \<in> set xs"
  by (auto simp: find_child_def find_Some_iff split: if_splits option.splits dest: first_mem)

section \<open>Removing trackers under the invariant\<close>

text \<open>
  The trackers \<open>D\<close> around \<open>x\<close> and the tasks \<open>T\<close> disappear; the children of removed trackers get
  the parent of \<open>x\<close>.
\<close>

definition tree_cut :: "nat set \<Rightarrow> nat set \<Rightarrow> nat option \<Rightarrow> kview \<Rightarrow> kview \<Rightarrow> bool" where
  "tree_cut D T np v v' \<longleftrightarrow> v_next v' = v_next v \<and>
     (\<forall>u. v_tused v' u \<longleftrightarrow> v_tused v u \<and> u \<notin> D) \<and>
     (\<forall>u. v_tused v u \<and> u \<notin> D \<longrightarrow> v_key v' u = v_key v u \<and> v_task v' u = v_task v u \<and> v_status v' u = v_status v u \<and>
        v_parent v' u = (if v_parent v u \<in> Some ` D then np else v_parent v u)) \<and>
     (\<forall>t. v_used v' t \<longleftrightarrow> v_used v t \<and> t \<notin> T) \<and>
     (\<forall>t. v_used v t \<and> t \<notin> T \<longrightarrow> v_trk v' t = v_trk v t \<and> v_tid v' t = v_tid v t)"

lemma tree_cutD:
  assumes "tree_cut D T np v v'"
  shows "v_next v' = v_next v" "v_tused v' u \<longleftrightarrow> v_tused v u \<and> u \<notin> D"
    "v_tused v' u \<Longrightarrow> v_key v' u = v_key v u \<and> v_task v' u = v_task v u \<and> v_status v' u = v_status v u \<and>
        v_parent v' u = (if v_parent v u \<in> Some ` D then np else v_parent v u)"
    "v_used v' t \<longleftrightarrow> v_used v t \<and> t \<notin> T"
    "v_used v' t \<Longrightarrow> v_trk v' t = v_trk v t \<and> v_tid v' t = v_tid v t"
  using assms unfolding tree_cut_def by blast+

lemma tree_invD:
  assumes "tree_inv v"
  shows "v_tused v x \<Longrightarrow> x < kMaxTasks" "v_tused v x \<Longrightarrow> v_key v x < v_next v"
    "v_tused v x \<Longrightarrow> v_tused v y \<Longrightarrow> v_key v x = v_key v y \<Longrightarrow> x = y"
    "v_tused v x \<Longrightarrow> v_parent v x = Some p \<Longrightarrow> v_tused v p \<and> v_key v p < v_key v x"
    "v_tused v x \<Longrightarrow> v_task v x = None \<Longrightarrow> v_parent v x \<noteq> None \<and> v_status v x \<noteq> ES_running"
    "v_tused v x \<Longrightarrow> v_task v x = Some t \<Longrightarrow> v_used v t \<and> v_trk v t = Some x \<and> v_tid v t = v_key v x \<and> v_status v x = ES_running"
    "v_used v t \<Longrightarrow> \<exists>x. v_trk v t = Some x \<and> v_tused v x \<and> v_task v x = Some t"
  using assms unfolding tree_inv_def inj_on_def by blast+

lemma tree_invI:
  assumes "\<And>x. v_tused v x \<Longrightarrow> x < kMaxTasks \<and> v_key v x < v_next v"
    and "\<And>x y. v_tused v x \<Longrightarrow> v_tused v y \<Longrightarrow> v_key v x = v_key v y \<Longrightarrow> x = y"
    and "\<And>x p. v_tused v x \<Longrightarrow> v_parent v x = Some p \<Longrightarrow> v_tused v p \<and> v_key v p < v_key v x"
    and "\<And>x. v_tused v x \<Longrightarrow> v_task v x = None \<Longrightarrow> v_parent v x \<noteq> None \<and> v_status v x \<noteq> ES_running"
    and "\<And>x t. v_tused v x \<Longrightarrow> v_task v x = Some t \<Longrightarrow>
      v_used v t \<and> v_trk v t = Some x \<and> v_tid v t = v_key v x \<and> v_status v x = ES_running"
    and "\<And>t. v_used v t \<Longrightarrow> \<exists>x. v_trk v t = Some x \<and> v_tused v x \<and> v_task v x = Some t"
  shows "tree_inv v"
  using assms unfolding tree_inv_def inj_on_def by blast

lemma tree_inv_cut:
  assumes I: "tree_inv v" and C: "tree_cut D T np v v'" and x: "x \<in> D" "v_tused v x" "v_parent v x = np"
    and T: "\<And>y t. y \<in> D \<Longrightarrow> v_tused v y \<Longrightarrow> v_task v y = Some t \<Longrightarrow> t \<in> T" "\<And>t. t \<in> T \<Longrightarrow> v_trk v t \<in> Some ` D"
    and D: "if np = None then \<forall>y. v_tused v y \<and> v_task v y = None \<and> y \<notin> D \<longrightarrow> v_parent v y \<notin> Some ` D else D = {x}"
  shows "tree_inv v'"
proof (rule tree_invI)
  note I = tree_invD [OF I] and C = tree_cutD [OF C]
  show "u < kMaxTasks \<and> v_key v' u < v_next v'" if "v_tused v' u" for u
    using that C(1,2,3) I(1,2) by auto
  show "u = w" if "v_tused v' u" "v_tused v' w" "v_key v' u = v_key v' w" for u w
    using that C(2,3) I(3) by metis
  show "v_tused v' p \<and> v_key v' p < v_key v' u" if u: "v_tused v' u" "v_parent v' u = Some p" for u p
  proof (cases "v_parent v u \<in> Some ` D")
    case True
    then have p: "np = Some p" and "D = {x}" using C(3) [OF u(1)] u(2) D by (auto split: if_splits)
    then have "v_parent v u = Some x" using True by auto
    then have "v_key v x < v_key v u" using I(4) [of u x] u(1) C(2) by blast
    moreover have "v_tused v p" "v_key v p < v_key v x" using I(4) [OF x(2), of p] x(3) p by auto
    ultimately show ?thesis using C(2,3) u \<open>D = {x}\<close> by (metis order.strict_trans less_irrefl singletonD)
  next
    case False
    then show ?thesis using C(2,3) u I(4) by (metis imageI)
  qed
  show "v_parent v' u \<noteq> None \<and> v_status v' u \<noteq> ES_running" if u: "v_tused v' u" "v_task v' u = None" for u
    using I(5) [of u] C(2,3) [of u] u D by (cases "np = None") auto
  show "v_used v' t \<and> v_trk v' t = Some u \<and> v_tid v' t = v_key v' u \<and> v_status v' u = ES_running"
    if u: "v_tused v' u" "v_task v' u = Some t" for u t
  proof -
    have "t \<notin> T" using T(2) [of t] I(6) [of u t] C(2,3) [of u] u by auto
    then show ?thesis using I(6) [of u t] C(2,3) [of u] C(4,5) [of t] u by auto
  qed
  show "\<exists>u. v_trk v' t = Some u \<and> v_tused v' u \<and> v_task v' u = Some t" if t: "v_used v' t" for t
  proof -
    obtain u where u: "v_trk v t = Some u" "v_tused v u" "v_task v u = Some t" using I(7) C(4) t by blast
    moreover have "u \<notin> D" using T(1) u C(4) t by blast
    ultimately show ?thesis using C(2,3) [of u] C(5) [of t] t by auto
  qed
qed


text \<open>The queues do not see the tracker tree.\<close>

lemma qinv_tree [simp]:
  "qinv Hx X G (v\<lparr>v_tused := a1\<rparr>) = qinv Hx X G v" "qinv Hx X G (v\<lparr>v_parent := a2\<rparr>) = qinv Hx X G v"
  "qinv Hx X G (v\<lparr>v_key := a3\<rparr>) = qinv Hx X G v" "qinv Hx X G (v\<lparr>v_task := a4\<rparr>) = qinv Hx X G v"
  "qinv Hx X G (v\<lparr>v_status := a5\<rparr>) = qinv Hx X G v" "qinv Hx X G (v\<lparr>v_active := a6\<rparr>) = qinv Hx X G v"
  "qinv Hx X G (v\<lparr>v_next := a7\<rparr>) = qinv Hx X G v"
  by (simp_all add: qinv_def task_inv_def hart_inv_def queue_inv_def ep_inv_def placed_def)

lemma qinv_same_queues:
  assumes "qinv Hx X G v" and "same_queues G G'" and "g_out G' = {}"
  shows "qinv Hx X G' v"
  using assms by (simp add: qinv_def queue_inv_def ep_inv_def same_queues_def)

lemma view_upd_tracker:
  "view (upd_tracker x f c) = (view c)\<lparr>v_parent := (v_parent (view c))(x := tt_parent (f (k_trackers c x))),
     v_key := (v_key (view c))(x := tt_key (f (k_trackers c x))),
     v_task := (v_task (view c))(x := tt_task (f (k_trackers c x))),
     v_status := (v_status (view c))(x := tt_status (f (k_trackers c x))),
     v_active := (v_active (view c))(x := wi_active (tt_wait (f (k_trackers c x))))\<rparr>"
  by (intro kview.equality) (simp_all add: view_def fun_eq_iff)

lemma view_adopt:
  "view (adopt D np c) = (view c)\<lparr>v_tused := v_tused (view (adopt D np c)), v_parent := v_parent (view (adopt D np c)),
     v_key := v_key (view (adopt D np c)), v_task := v_task (view (adopt D np c)),
     v_status := v_status (view (adopt D np c)), v_active := v_active (view (adopt D np c))\<rparr>"
  by (intro kview.equality) (simp_all add: view_def adopt_def)

lemma qinv_adopt [simp]: "qinv Hx X G (view (adopt D np c)) = qinv Hx X G (view c)"
  by (subst view_adopt) (simp del: view_simps)

lemma adopt_more [simp]:
  "u \<notin> D \<Longrightarrow> tt_wait (k_trackers (adopt D np c) u) = tt_wait (k_trackers c u)"
  "k_tasks (adopt D np c) = k_tasks c" "k_harts (adopt D np c) = k_harts c"
  "k_task_slots_used (adopt D np c) = k_task_slots_used c" "k_next_tid (adopt D np c) = k_next_tid c"
  "k_present_count (adopt D np c) = k_present_count c"
  by (simp_all add: adopt_def)

lemma tree_cut_adopt: "tree_cut D {} np (view c) (view (adopt D np c))"
  by (auto simp: tree_cut_def adopt_def)

lemma join_inv_cut:
  assumes "join_inv v" and "\<And>u. v_tused v' u \<Longrightarrow> v_tused v u \<and> v_task v' u = v_task v u \<and> v_active v' u = v_active v u"
    and "v_state v' = v_state v"
  shows "join_inv v'"
  using assms(1) unfolding join_inv_def assms(3) by (metis assms(2))

text \<open>A completed child is removed from the tree; its own children move up.\<close>

lemma reap_child:
  assumes S: "sim G c s" and K: "kinv Hx G (view c)" and y: "zombie c y" "tt_parent (k_trackers c y) = Some p"
  shows "\<exists>G' s'. remove_tracker_locked y s = Some s' \<and> sim G' (adopt {y} (Some p) c) s' \<and>
    kinv Hx G' (view (adopt {y} (Some p) c)) \<and> same_queues G G'"
proof -
  note I = tree_invD [OF kinvD(2) [OF K]]
  have G: "g_out G = {}" using qinvD(3) [OF kinvD(1) [OF K]] by (simp add: queue_inv_def)
  have "Some p \<noteq> Some y" using I(4) [of y p] y by auto
  then obtain G' s' where r: "remove_tracker_locked y s = Some s'" "sim G' (adopt {y} (Some p) c) s'" "g_out G' = {}"
    "same_queues G G'"
    using remove_tracker_sim [OF S G, of y "Some p"] y I(1) by auto
  have "tree_inv (view (adopt {y} (Some p) c))"
    by (rule tree_inv_cut [OF kinvD(2) [OF K] tree_cut_adopt]) (use y in auto)
  moreover have "join_inv (view (adopt {y} (Some p) c))"
    by (rule join_inv_cut [OF kinvD(3) [OF K]]) auto
  moreover have "qinv Hx {} G' (view (adopt {y} (Some p) c))"
    using qinv_same_queues [OF kinvD(1) [OF K] r(4,3)] by simp
  ultimately show ?thesis using r unfolding kinv_def by blast
qed

section \<open>Waiting for a child\<close>

lemma current_tracker:
  assumes K: "kinv {} G (view c)" and cur: "hl_current_task (k_harts c h) = Some t"
  obtains x where "t_tracker (k_tasks c t) = Some x" "k_tracker_slots_used c x" "tt_task (k_trackers c x) = Some t"
  using tree_invD(7) [OF kinvD(2) [OF K], of t] current_facts(1) [OF K cur] by auto

lemma tracker_tt_wait: "tracker_safe (\<lambda>r. r\<lparr>tt_wait := f (tt_wait r)\<rparr>)"
  by (simp add: tracker_safe_def erase_tracker_def)

lemma join_inv_block:
  assumes J: "join_inv v" and I: "tree_inv v" and x: "v_tused v x" "v_task v x = Some t"
  shows "join_inv ((put t TS_blocked_join q d m dl v)\<lparr>v_active := (v_active v)(x := True)\<rparr>)"
proof -
  have u: "v_tused v y \<Longrightarrow> v_task v y = Some t \<Longrightarrow> y = x" for y
    using tree_invD(6) [OF I, of y t] tree_invD(6) [OF I, of x t] x by simp
  show ?thesis using J x unfolding join_inv_def by (simp, blast dest: u)
qed

lemma tree_inv_active [simp]: "tree_inv (v\<lparr>v_active := a\<rparr>) = tree_inv v"
  by (simp add: tree_inv_def)

lemma block_on_join:
  fixes w :: wait_info and tid :: u64
  assumes S: "sim G c s" and K: "kinv {} G (view c)" and cur: "hl_current_task (k_harts c h) = Some t"
    and idle: "\<not> t_idle (k_tasks c t)" and x: "k_tracker_slots_used c x" "tt_task (k_trackers c x) = Some t" and w: "wi_active w"
  defines "f \<equiv> \<lambda>r. r\<lparr>tt_wait := w\<rparr>" and "g \<equiv> \<lambda>r. r\<lparr>t_state := TS_blocked_join, t_state_info := tid\<rparr>"
  shows "sim G (upd_task t g (upd_tracker x f c)) (upd_task t g (upd_tracker x f s))"
    "kinv {h} G (view (upd_task t g (upd_tracker x f c)))"
proof -
  note cf = current_facts [OF K cur]
  have "task_safe g" "tracker_safe f" by (simp_all add: f_def g_def task_safe_def erase_task_def tracker_safe_def erase_tracker_def)
  then show "sim G (upd_task t g (upd_tracker x f c)) (upd_task t g (upd_tracker x f s))"
    by (intro sim_upd_task sim_upd_tracker S)
  have v: "view (upd_task t g (upd_tracker x f c)) =
      (put t TS_blocked_join False False False (v_deadline (view c) t) (view c))\<lparr>v_active := (v_active (view c))(x := True)\<rparr>"
    using cf(5-7) w unfolding f_def g_def
    by (intro kview.equality) (simp_all add: view_def put_def fun_eq_iff)
  have "qinv {h} (insert t {}) G (view c)"
    using qinv_leave [OF kinvD(1) [OF K], of h t] cur idle by simp
  from qinv_enter_join [OF this] have "qinv {h} {} G (view (upd_task t g (upd_tracker x f c)))"
    unfolding v by simp
  moreover have "join_inv (view (upd_task t g (upd_tracker x f c)))"
    unfolding v using x by (intro join_inv_block [OF kinvD(3,2) [OF K]]) simp_all
  ultimately show "kinv {h} G (view (upd_task t g (upd_tracker x f c)))"
    using kinvD(2) [OF K] unfolding kinv_def v by simp
qed


lemma wait_task_ok:
  assumes S: "sim G c s" and K: "kinv {} G (view c)" and cur: "hl_current_task (k_harts c h) = Some t"
    and idle: "\<not> t_idle (k_tasks c t)"
  shows "\<exists>r s'. wait_task h t tid s = Some (r, s') \<and> ok_at h s'"
proof -
  note R = sim_reads [OF S] and cf = current_facts [OF K cur]
  obtain x where x: "t_tracker (k_tasks c t) = Some x" "k_tracker_slots_used c x" "tt_task (k_trackers c x) = Some t"
    by (rule current_tracker [OF K cur])
  let ?y = "find_child tid c (g_ch G (Some x))"
  have find: "find_child_locked x tid s = Some ?y" by (rule find_child_sim [OF S])
  show ?thesis
  proof (cases ?y)
    case None
    then show ?thesis using cur x find ok_atI [OF S K cur] by (simp add: wait_task_def get_current_task_def R)
  next
    case (Some y)
    note mem = find_child_mem [OF Some]
    note y = sim_linked_used(1) [OF S mem] sim_parent [OF S mem]
    show ?thesis
    proof (cases "tt_task (k_trackers c y) = None")
      case True
      let ?c = "set_task_x t 10 (tt_key (k_trackers s y)) c" and ?s = "set_task_x t 10 (tt_key (k_trackers s y)) s"
      have "sim G ?c ?s" "kinv {} G (view ?c)" "zombie ?c y" "tt_parent (k_trackers ?c y) = Some x"
        using set_task_x_sim [OF S] K y True by simp_all
      from reap_child [OF this] obtain G' s' where r: "remove_tracker_locked y ?s = Some s'"
        "sim G' (adopt {y} (Some x) ?c) s'" "kinv {} G' (view (adopt {y} (Some x) ?c))" by blast
      have "ok_at h s'" using ok_atI [OF r(2,3)] cur by simp
      then show ?thesis using True Some r(1) cur x find by (simp add: wait_task_def get_current_task_def R(8,18,35) Let_def)
    next
      case False
      let ?w = "\<lparr>wi_active = True, wi_tid = tid, wi_status_address = 0, wi_return_value_address = 0\<rparr>"
      let ?u = "\<lambda>c. upd_task t (\<lambda>r. r\<lparr>t_state := TS_blocked_join, t_state_info := tid\<rparr>)
        (upd_tracker x (\<lambda>r. r\<lparr>tt_wait := ?w\<rparr>) c)"
      have b: "sim G (?u c) (?u s)" "kinv {h} G (view (?u c))"
        using block_on_join [OF S K cur idle x(2,3), of ?w tid] by simp_all
      have d: "deref_scheduler t (?u s) = Some ()"
        using cf(1) by (intro deref_scheduler_ok [OF b(1) kinvD(1) [OF b(2)]]) simp
      obtain u c2 s2 where n: "Scheduler_set_next_runnable h (?u s) = Some (u, s2)"
        "sim (deq_rq Global_rq G) c2 s2" "kinv {} (deq_rq Global_rq G) (view c2)" "hl_current_task (k_harts c2 h) = Some u"
        using reschedule [OF b] cf(4) by auto
      show ?thesis
        using False Some cur x(1) find ok_atI [OF n(2-4)] d n(1) by (auto simp: wait_task_def get_current_task_def R(8,18,35) Let_def)
    qed
  qed
qed

lemma ok_at_report: "ok_at h s \<Longrightarrow> ok_at h (upd_reported f (printk fmt args s))"
  by (simp add: ok_at_quiet)

lemma sys_wait_ok:
  assumes S: "sim G c s" and K: "kinv {} G (view c)" and cur: "hl_current_task (k_harts c h) = Some t"
    and idle: "\<not> t_idle (k_tasks c t)"
  shows "lands h (sys_wait h t s)"
  using wait_task_ok [OF assms, of "task_x t 10 s"] ok_at_quiet [OF ok_atI [OF S K cur]]
  by (auto simp: sys_wait_def Let_def ok_at_quiet)

section \<open>Creating a task\<close>

text \<open>A task slot that is in no queue may be overwritten.\<close>

lemma sim_upd_free:
  assumes S: "sim G c s" and t: "free (view c) t"
    and f: "\<And>x. erase_task (f x) = f (erase_task x)"
      "\<not> t_queued (f (k_tasks c t))" "\<not> dn_queued (t_delay (f (k_tasks c t)))" "\<not> mw_queued (t_message_wait (f (k_tasks c t)))"
  shows "sim G (upd_task t f c) (upd_task t f s)"
proof -
  note R = sim_reads [OF S]
  have e: "erase (upd_task t f s) = upd_task t f (erase s)"
    using f(1) by (simp add: erase_def upd_task_def fun_eq_iff)
  have ek: "erase_task (k_tasks s t) = k_tasks c t" by (simp add: simD(1) [OF S])
  have q: "t_queued (f (k_tasks s t)) = t_queued (f (k_tasks c t))"
    "dn_queued (t_delay (f (k_tasks s t))) = dn_queued (t_delay (f (k_tasks c t)))"
    "mw_queued (t_message_wait (f (k_tasks s t))) = mw_queued (t_message_wait (f (k_tasks c t)))"
    using arg_cong [OF f(1) [of "k_tasks s t"], of t_queued] arg_cong [OF f(1) [of "k_tasks s t"], of "\<lambda>x. dn_queued (t_delay x)"]
      arg_cong [OF f(1) [of "k_tasks s t"], of "\<lambda>x. mw_queued (t_message_wait x)"] by (simp_all add: ek)
  have nin: "t \<notin> set (g_rq G a)" "t \<notin> set (g_dq G b)" "t \<notin> set (g_wq G d)" for a b d
    using t sim_queued [OF S, of t] sim_delayed [OF S, of t] sim_waiting [OF S, of t] by auto
  let ?s = "upd_task t f s"
  have "family (\<lambda>u. t_previous (k_tasks ?s u)) (\<lambda>u. t_next (k_tasks ?s u)) (\<lambda>u. t_queued (k_tasks ?s u)) (g_rq G)"
    by (rule family_cong [OF sim_rq_family [OF S]]) (use nin f(2-4) q t in \<open>auto simp: R\<close>)
  moreover have "family (\<lambda>u. dn_previous (t_delay (k_tasks ?s u))) (\<lambda>u. dn_next (t_delay (k_tasks ?s u)))
      (\<lambda>u. dn_queued (t_delay (k_tasks ?s u))) (g_dq G)"
    by (rule family_cong [OF sim_dq_family [OF S]]) (use nin f(2-4) q t in \<open>auto simp: R\<close>)
  moreover have "family (\<lambda>u. mw_previous (t_message_wait (k_tasks ?s u))) (\<lambda>u. mw_next (t_message_wait (k_tasks ?s u)))
      (\<lambda>u. mw_queued (t_message_wait (k_tasks ?s u))) (g_wq G)"
    by (rule family_cong [OF sim_wq_family [OF S]]) (use nin f(2-4) q t in \<open>auto simp: R\<close>)
  ultimately show ?thesis
    using S e unfolding sim_def rq_rep_def dq_rep_def wq_rep_def ch_rep_def by (simp del: upd_task_simps(1))
qed


text \<open>Two views that differ only at one task slot and one tracker slot.\<close>

definition task_at :: "kview \<Rightarrow> nat \<Rightarrow> (bool \<times> task_state \<times> bool \<times> bool \<times> bool \<times> bool) \<times> nat option \<times> u64 \<times> nat option \<times> u64 \<times> u64" where
  "task_at v t = ((v_used v t, v_state v t, v_idle v t, v_q v t, v_d v t, v_m v t), v_cpu v t, v_pin v t, v_trk v t, v_tid v t,
     v_deadline v t)"

definition tracker_at :: "kview \<Rightarrow> nat \<Rightarrow> bool \<times> nat option \<times> u64 \<times> nat option \<times> exit_status \<times> bool" where
  "tracker_at v x = (v_tused v x, v_parent v x, v_key v x, v_task v x, v_status v x, v_active v x)"

definition rest_of :: "kview \<Rightarrow> (nat \<Rightarrow> nat option) \<times> (nat \<Rightarrow> bool) \<times> (nat \<Rightarrow> nat option) \<times> nat \<times> bool \<times> (nat \<Rightarrow> endpoint) \<times> (nat \<Rightarrow> bool)" where
  "rest_of v = (v_cur v, v_bound v, v_idlet v, v_n v, v_init v, v_ep v, v_slot v)"

definition agree :: "nat \<Rightarrow> nat \<Rightarrow> kview \<Rightarrow> kview \<Rightarrow> bool" where
  "agree t x v v' \<longleftrightarrow> (\<forall>u. u \<noteq> t \<longrightarrow> task_at v' u = task_at v u) \<and> (\<forall>y. y \<noteq> x \<longrightarrow> tracker_at v' y = tracker_at v y) \<and>
     rest_of v' = rest_of v"

lemma agreeD:
  assumes "agree t x v v'"
  shows "u \<noteq> t \<Longrightarrow> task_at v' u = task_at v u" "y \<noteq> x \<Longrightarrow> tracker_at v' y = tracker_at v y" "rest_of v' = rest_of v"
  using assms by (simp_all add: agree_def)

lemma agree_task:
  assumes "agree t x v v'" and "u \<noteq> t"
  shows "v_used v' u = v_used v u" "v_state v' u = v_state v u" "v_idle v' u = v_idle v u" "v_q v' u = v_q v u"
    "v_d v' u = v_d v u" "v_m v' u = v_m v u" "v_cpu v' u = v_cpu v u" "v_pin v' u = v_pin v u" "v_trk v' u = v_trk v u"
    "v_tid v' u = v_tid v u" "v_deadline v' u = v_deadline v u"
  using agreeD(1) [OF assms] by (simp_all add: task_at_def)

lemma agree_tracker:
  assumes "agree t x v v'" and "y \<noteq> x"
  shows "v_tused v' y = v_tused v y" "v_parent v' y = v_parent v y" "v_key v' y = v_key v y" "v_task v' y = v_task v y"
    "v_status v' y = v_status v y" "v_active v' y = v_active v y"
  using agreeD(2) [OF assms] by (simp_all add: tracker_at_def)

lemma agree_rest:
  assumes "agree t x v v'"
  shows "v_cur v' = v_cur v" "v_bound v' = v_bound v" "v_idlet v' = v_idlet v" "v_n v' = v_n v" "v_init v' = v_init v"
    "v_ep v' = v_ep v" "v_slot v' = v_slot v"
  using agreeD(3) [OF assms] by (simp_all add: rest_of_def)

text \<open>A slot that was free becomes a task in transit.\<close>

lemma qinv_alloc:
  assumes Q: "qinv Hx X G v" and A: "agree t x v v'" and t: "\<not> v_used v t" "\<And>h. t \<notin> set (g_dq G h)"
    and new: "free v' t" "v_used v' t \<Longrightarrow> t < kMaxTasks \<and> \<not> v_idle v' t \<and> v_pin v' t = 0 \<and> (\<exists>h < v_n v. v_cpu v' t = Some h)"
    and X': "X' = (if v_used v' t then insert t X else X)"
  shows "qinv Hx X' G v'"
proof (rule qinvI)
  note T = task_invD [OF qinvD(1) [OF Q]] and H = hart_invD [OF qinvD(2) [OF Q]]
    and A' = agree_task [OF A] agree_rest [OF A]
  have tX: "t \<notin> X" using T(7) t(1) by blast
  show "task_inv Hx X' v'"
  proof (rule task_invI)
    show "u < kMaxTasks \<and> v_pin v' u = 0 \<and> (\<exists>h<v_n v'. v_cpu v' u = Some h)" if "v_used v' u" for u
      using that T(1-3) [of u] A' new(2) by (cases "u = t") auto
    show "free v' u" if "\<not> v_used v' u" for u
      using that T(4) [of u] A' new(1) by (cases "u = t") auto
    show "u \<notin> X' \<and> free v' u \<and> v_state v' u \<in> {TS_ready, TS_running} \<and> (\<exists>h < v_n v'. v_idlet v' h = Some u)"
      if "v_used v' u" "v_idle v' u" for u
      using that T(5) [of u] A' new(2) X' by (cases "u = t") auto
    show "placed Hx v' u" if "v_used v' u" "\<not> v_idle v' u" "u \<notin> X'" for u
      using that T(6) [of u] A' X' by (cases "u = t") (auto simp: placed_def split: if_splits)
    show "v_used v' u \<and> free v' u" if "u \<in> X'" for u
      using that T(7) [of u] A' X' new(1) tX by (cases "u = t") (auto split: if_splits)
  qed
  show "hart_inv Hx X' v'"
  proof (rule hart_invI)
    show "\<exists>u. v_idlet v' h = Some u \<and> v_used v' u \<and> v_idle v' u \<and> v_cpu v' u = Some h" if h: "h < v_n v'" for h
    proof -
      obtain u where "v_idlet v h = Some u" "v_used v u" "v_idle v u" "v_cpu v u = Some h"
        using H(4) [of h] h A' by auto
      then show ?thesis using A' t(1) by (cases "u = t") auto
    qed
    show "v_used v' u \<and> u \<notin> X' \<and> v_state v' u = TS_running \<and> v_cpu v' u = Some h" if "v_cur v' h = Some u" "h \<notin> Hx" for h u
    proof -
      have "v_used v u \<and> u \<notin> X \<and> v_state v u = TS_running \<and> v_cpu v u = Some h" using H(6) [of h u] that A' by auto
      then show ?thesis using A' t(1) X' by (cases "u = t") auto
    qed
  qed (use H A' in auto)
  have eq: "map (v_deadline v') (g_dq G h) = map (v_deadline v) (g_dq G h)" for h
    using A' t(2) by (metis map_cong)
  show "queue_inv G v'" "ep_inv G v'"
    using qinvD(3,4) [OF Q] unfolding queue_inv_def ep_inv_def eq agree_rest [OF A] by simp_all
qed


lemma tree_inv_alloc:
  assumes I: "tree_inv v" and A: "agree t x v v'" and fresh: "\<not> v_used v t" "\<not> v_tused v x"
    and off: "v_used v' t \<longleftrightarrow> v_tused v' x" "\<not> v_tused v' x \<Longrightarrow> v_next v' = v_next v"
    and on: "v_tused v' x \<Longrightarrow> x < kMaxTasks \<and> v_next v < v_next v' \<and> v_trk v' t = Some x \<and> v_tid v' t = v_next v \<and>
      v_task v' x = Some t \<and> v_key v' x = v_next v \<and> v_status v' x = ES_running \<and>
      (\<forall>p. v_parent v' x = Some p \<longrightarrow> v_tused v p)"
  shows "tree_inv v'"
proof (rule tree_invI)
  note I = tree_invD [OF I] and K = agree_task [OF A] and Y = agree_tracker [OF A]
  have nx: "v_next v \<le> v_next v'" using off(2) on by fastforce
  have old: "v_tused v y \<Longrightarrow> y \<noteq> x" for y using fresh(2) by blast
  show "u < kMaxTasks \<and> v_key v' u < v_next v'" if "v_tused v' u" for u
    using that I(1,2) [of u] Y(1,3) [of u] on nx by (cases "u = x") auto
  have key: "u \<noteq> x \<Longrightarrow> v_tused v' u \<Longrightarrow> v_key v' u < v_next v" for u
    using I(2) [of u] Y(1,3) [of u] by auto
  show "u = w" if "v_tused v' u" "v_tused v' w" "v_key v' u = v_key v' w" for u w
  proof (cases "u = x \<or> w = x")
    case True
    then show ?thesis using that on key by (metis less_irrefl)
  next
    case False
    then show ?thesis using that I(3) [of u w] Y(1,3) by auto
  qed
  show "v_tused v' p \<and> v_key v' p < v_key v' u" if "v_tused v' u" "v_parent v' u = Some p" for u p
  proof (cases "u = x")
    case True
    then have "v_tused v p" using that on by blast
    then show ?thesis using old [of p] Y(1,3) [of p] key [of p] on that True by auto
  next
    case False
    then have "v_tused v p \<and> v_key v p < v_key v u" using that I(4) [of u p] Y [of u] by auto
    then show ?thesis using old [of p] Y [of p] Y [of u] False by auto
  qed
  show "v_parent v' u \<noteq> None \<and> v_status v' u \<noteq> ES_running" if "v_tused v' u" "v_task v' u = None" for u
    using that I(5) [of u] Y [of u] on by (cases "u = x") auto
  show "v_used v' s \<and> v_trk v' s = Some u \<and> v_tid v' s = v_key v' u \<and> v_status v' u = ES_running"
    if "v_tused v' u" "v_task v' u = Some s" for u s
  proof (cases "u = x")
    case False
    then have "v_used v s \<and> v_trk v s = Some u \<and> v_tid v s = v_key v u \<and> v_status v u = ES_running"
      using that I(6) [of u s] Y [of u] by auto
    then show ?thesis using fresh(1) K [of s] Y [of u] False by (cases "s = t") auto
  qed (use that on off in auto)
  show "\<exists>u. v_trk v' s = Some u \<and> v_tused v' u \<and> v_task v' u = Some s" if s: "v_used v' s" for s
  proof (cases "s = t")
    case False
    then obtain u where "v_trk v s = Some u" "v_tused v u" "v_task v u = Some s"
      using I(7) [of s] K(1) [of s] s by auto
    then show ?thesis using old [of u] Y [of u] K [of s] False by auto
  qed (use s on off in auto)
qed

lemma join_inv_alloc:
  assumes J: "join_inv v" and I: "tree_inv v" and A: "agree t x v v'" and fresh: "\<not> v_used v t" "\<not> v_tused v x"
    and on: "v_tused v' x \<Longrightarrow> v_task v' x = Some t \<and> \<not> v_active v' x \<and> v_state v' t \<noteq> TS_blocked_join"
  shows "join_inv v'"
proof -
  note K = agree_task [OF A] and Y = agree_tracker [OF A]
  have "v_active v' y \<longleftrightarrow> v_state v' u = TS_blocked_join" if "v_tused v' y" "v_task v' y = Some u" for y u
  proof (cases "y = x")
    case False
    then have y: "v_tused v y" "v_task v y = Some u" using that Y by auto
    then have "u \<noteq> t" using tree_invD(6) [OF I] fresh(1) by blast
    with y J show ?thesis using Y [OF False] K [of u] by (auto simp: join_inv_def)
  qed (use that on in auto)
  moreover have "v_task v' y \<noteq> None" if "v_tused v' y" "v_active v' y" for y
    using that J on Y [of y] by (cases "y = x") (auto simp: join_inv_def)
  ultimately show ?thesis unfolding join_inv_def by blast
qed


text \<open>Memory and page tables are outside the view.\<close>

abbreviation with_mem :: "vmm_state \<Rightarrow> memst \<Rightarrow> kst \<Rightarrow> kst" where
  "with_mem vm m s \<equiv> s\<lparr>k_vmm := vm, k_ms := m\<rparr>"

lemma with_mem_sim: "sim G c s \<Longrightarrow> sim G (with_mem vm m c) (with_mem vm m s)"
  using sim_other(11) [OF sim_other(10)] by simp

lemma view_with_mem [simp]: "view (with_mem vm m c) = view c"
  by (simp add: view_quiet(8,9))

lemma mem_ops:
  "\<exists>m. clear_bytes a n s = with_mem (k_vmm s) m s" "\<exists>ok vm m. vmm_map_stack a b s = (ok, with_mem vm m s)"
  by (auto simp: clear_bytes_def vmm_map_stack_def split: prod.splits)

lemma stack_ops:
  "\<exists>ok vm m. (if ws then vmm_map_stack a b (clear_bytes a n s) else (True, s)) = (ok, with_mem vm m s)"
proof (cases ws)
  case True
  obtain m where m: "clear_bytes a n s = with_mem (k_vmm s) m s" using mem_ops(1) by blast
  obtain ok vm m' where "vmm_map_stack a b (clear_bytes a n s) = (ok, with_mem vm m' (with_mem (k_vmm s) m s))"
    unfolding m using mem_ops(2) by blast
  with True show ?thesis by (intro exI [of _ ok] exI [of _ vm] exI [of _ m']) simp
next
  case False
  then show ?thesis by (intro exI [of _ True] exI [of _ "k_vmm s"] exI [of _ "k_ms s"]) simp
qed

text \<open>Taking and giving back the two slots.\<close>

definition take_task :: "nat \<Rightarrow> kst \<Rightarrow> kst" where
  "take_task t c = (upd_task t (\<lambda>_. zero_task) c)\<lparr>k_task_slots_used := (k_task_slots_used c)(t := True)\<rparr>"

definition drop_task :: "nat \<Rightarrow> kst \<Rightarrow> kst" where
  "drop_task t c = (upd_task t (\<lambda>_. zero_task) c)\<lparr>k_task_slots_used := (k_task_slots_used c)(t := False)\<rparr>"

lemma zero_task_flags [simp]:
  "\<not> t_queued zero_task" "\<not> dn_queued (t_delay zero_task)" "\<not> mw_queued (t_message_wait zero_task)" "t_stack_bottom zero_task = 0"
  by (simp_all add: zero_task_def zero_delay_def zero_message_wait_def)

lemma take_task_sim: "sim G c s \<Longrightarrow> free (view c) t \<Longrightarrow> sim G (take_task t c) (take_task t s)"
  unfolding take_task_def using sim_other(12) [OF sim_upd_free] by (simp add: sim_reads)

lemma drop_task_sim: "sim G c s \<Longrightarrow> free (view c) t \<Longrightarrow> sim G (drop_task t c) (drop_task t s)"
  unfolding drop_task_def using sim_other(12) [OF sim_upd_free] by (simp add: sim_reads)

lemma allocate_eqs:
  "allocate_task_locked s = (let r = find (\<lambda>i. \<not> k_task_slots_used s i) [0..<kMaxTasks] in
     (r, case r of None \<Rightarrow> s | Some t \<Rightarrow> take_task t s))"
  "allocate_tracker_locked s = (let r = find (\<lambda>i. \<not> k_tracker_slots_used s i) [0..<kMaxTasks] in
     (r, case r of None \<Rightarrow> s | Some x \<Rightarrow> take_tracker x s))"
  by (auto simp: allocate_task_locked_def allocate_tracker_locked_def take_task_def take_tracker_def upd_task_def split: option.splits)

lemma release_task_drop:
  "t < kMaxTasks \<Longrightarrow> k_tasks s t = zero_task \<Longrightarrow> release_task_locked t s = Some (drop_task t s)"
  by (simp add: release_task_locked_def drop_task_def upd_task_def)

lemma take_fields [simp]:
  "k_tasks (take_task t c) = (k_tasks c)(t := zero_task)" "k_task_slots_used (take_task t c) = (k_task_slots_used c)(t := True)"
  "k_trackers (take_task t c) = k_trackers c" "k_tracker_slots_used (take_task t c) = k_tracker_slots_used c"
  "k_harts (take_task t c) = k_harts c" "k_next_tid (take_task t c) = k_next_tid c" "k_csr (take_task t c) = k_csr c"
  "k_tasks (take_tracker x c) = k_tasks c" "k_task_slots_used (take_tracker x c) = k_task_slots_used c"
  "k_trackers (take_tracker x c) = (k_trackers c)(x := zero_tracker)"
  "k_tracker_slots_used (take_tracker x c) = (k_tracker_slots_used c)(x := True)"
  "k_harts (take_tracker x c) = k_harts c" "k_next_tid (take_tracker x c) = k_next_tid c" "k_csr (take_tracker x c) = k_csr c"
  "k_tasks (drop_task t c) = (k_tasks c)(t := zero_task)" "k_task_slots_used (drop_task t c) = (k_task_slots_used c)(t := False)"
  "k_trackers (drop_task t c) = k_trackers c" "k_tracker_slots_used (drop_task t c) = k_tracker_slots_used c"
  "k_harts (drop_task t c) = k_harts c" "k_next_tid (drop_task t c) = k_next_tid c"
  "k_tasks (drop_tracker x c) = k_tasks c" "k_task_slots_used (drop_tracker x c) = k_task_slots_used c"
  "k_trackers (drop_tracker x c) = (k_trackers c)(x := zero_tracker)"
  "k_tracker_slots_used (drop_tracker x c) = (k_tracker_slots_used c)(x := False)"
  "k_harts (drop_tracker x c) = k_harts c" "k_next_tid (drop_tracker x c) = k_next_tid c"
  by (simp_all add: take_task_def take_tracker_def drop_task_def drop_tracker_def)

lemma agree_slots:
  "agree t x (view c) (view (take_task t c))" "agree t x (view c) (view (take_tracker x c))"
  "agree t x (view c) (view (drop_task t c))" "agree t x (view c) (view (drop_tracker x c))"
  "agree t x (view c) (view (upd_task t f c))" "agree t x (view c) (view (upd_tracker x g c))"
  "agree t x (view c) (view (c\<lparr>k_next_tid := n\<rparr>))"
  by (simp_all add: agree_def task_at_def tracker_at_def rest_of_def view_def take_task_def take_tracker_def
      drop_task_def drop_tracker_def)

lemma agree_trans: "agree t x v v' \<Longrightarrow> agree t x v' v'' \<Longrightarrow> agree t x v v''"
  by (simp add: agree_def)

definition create_spec :: "nat \<Rightarrow> bool \<Rightarrow> nat option \<Rightarrow> nat option \<Rightarrow> nat \<Rightarrow> nat \<Rightarrow> kview \<Rightarrow> kview \<Rightarrow> bool" where
  "create_spec owner idle parent r t x v v' \<longleftrightarrow>
     agree t x v v' \<and> \<not> v_used v t \<and> \<not> v_tused v x \<and> free v' t \<and>
     (case r of
        None \<Rightarrow> \<not> v_used v' t \<and> \<not> v_tused v' x \<and> v_next v' = v_next v
      | Some u \<Rightarrow> u = t \<and> t < kMaxTasks \<and> x < kMaxTasks \<and> v_used v' t \<and> v_tused v' x \<and> v_state v' t = TS_ready \<and>
          v_idle v' t = idle \<and> v_cpu v' t = Some owner \<and> v_pin v' t = 0 \<and> v_trk v' t = Some x \<and> v_tid v' t = v_next v \<and>
          v_task v' x = Some t \<and> v_key v' x = v_next v \<and> v_status v' x = ES_running \<and> \<not> v_active v' x \<and>
          v_parent v' x = parent \<and> v_next v' = v_next v + 1)"

lemma setup_task_sim:
  assumes S: "sim G c s" and t: "free (view c) t"
  shows "sim G (setup_task im h entry arg sp owner idle sb st t x c) (setup_task im h entry arg sp owner idle sb st t x s)"
proof -
  note R = sim_reads [OF S]
  have "free (view (c\<lparr>k_next_tid := n\<rparr>)) t" for n using t by simp
  then show ?thesis
    unfolding setup_task_def Let_def R
    by (simp, intro sim_upd_tracker sim_upd_free sim_other(8) S)
      (use t in \<open>simp_all add: tracker_safe_def erase_tracker_def erase_task_def zero_message_wait_def\<close>)
qed

lemma no_children_unused:
  assumes S: "sim G c s" and I: "tree_inv (view c)" and x: "\<not> k_tracker_slots_used c x"
  shows "g_ch G (Some x) = []"
proof (rule ccontr)
  assume "g_ch G (Some x) \<noteq> []"
  then obtain y where y: "y \<in> set (g_ch G (Some x))" by (cases "g_ch G (Some x)") auto
  show False
    using tree_invD(4) [OF I, of y x] sim_parent [OF S y] sim_linked_used(1) [OF S y] x by simp
qed

text \<open>The slots are taken.\<close>

abbreviation taken :: "vmm_state \<Rightarrow> memst \<Rightarrow> nat \<Rightarrow> nat \<Rightarrow> kst \<Rightarrow> kst" where
  "taken vm m t x c \<equiv> with_mem vm m (take_tracker x (take_task t c))"

lemma take_slots_sim:
  assumes S: "sim G c s" and I: "tree_inv (view c)" and G: "g_out G = {}"
    and t: "free (view c) t" and x: "\<not> k_tracker_slots_used c x"
  shows "sim (G\<lparr>g_out := {x}\<rparr>) (taken vm m t x c) (taken vm m t x s)"
proof -
  have "g_ch G (Some x) = []" by (rule no_children_unused [OF S I x])
  then have "sim (G\<lparr>g_out := insert x (g_out G)\<rparr>) (take_tracker x (take_task t c)) (take_tracker x (take_task t s))"
    using x by (intro take_tracker_sim take_task_sim S t) simp_all
  then show ?thesis using with_mem_sim G by simp
qed

lemma setup_task_fields [simp]:
  "k_tracker_slots_used (setup_task im h entry arg sp owner idle sb st t x c) = k_tracker_slots_used c"
  "k_task_slots_used (setup_task im h entry arg sp owner idle sb st t x c) = k_task_slots_used c"
  "k_harts (setup_task im h entry arg sp owner idle sb st t x c) = k_harts c"
  "u \<noteq> t \<Longrightarrow> k_tasks (setup_task im h entry arg sp owner idle sb st t x c) u = k_tasks c u"
  by (simp_all add: setup_task_def Let_def)

text \<open>The slots are filled and the tracker is linked under its parent.\<close>

lemma create_done:
  assumes S: "sim G c s" and I: "tree_inv (view c)" and G: "g_out G = {}"
    and t: "free (view c) t" "\<not> k_task_slots_used c t" "t < kMaxTasks" and x: "\<not> k_tracker_slots_used c x" "x < kMaxTasks"
  shows "sim (link_ch x p (G\<lparr>g_out := {x}\<rparr>))
      (upd_tracker x (set_parent p) (setup_task im h entry arg sp owner idle sb st t x (taken vm m t x c)))
      (link_tracker_locked x p (setup_task im h entry arg sp owner idle sb st t x (taken vm m t x s)))" (is "sim ?G ?c ?s")
    "create_spec owner idle p (Some t) t x (view c)
      (view (upd_tracker x (set_parent p) (setup_task im h entry arg sp owner idle sb st t x (taken vm m t x c))))"
proof -
  define f where "f c = setup_task im h entry arg sp owner idle sb st t x (taken vm m t x c)" for c
  have "sim (G\<lparr>g_out := {x}\<rparr>) (f c) (f s)"
    unfolding f_def by (intro setup_task_sim take_slots_sim [OF S I G t(1) x(1)]) simp
  then show "sim ?G ?c ?s"
    unfolding f_def [symmetric] by (rule link_tracker_sim) (simp_all add: f_def)
  have "agree t x (view c) (view ?c)"
    by (simp add: agree_def task_at_def tracker_at_def rest_of_def view_def setup_task_def Let_def take_task_def take_tracker_def)
  with t x show "create_spec owner idle p (Some t) t x (view c) (view ?c)"
    by (simp add: create_spec_def setup_task_def Let_def zero_message_wait_def zero_wait_def)
qed

text \<open>Both slots are given back.\<close>

lemma create_undone:
  assumes S: "sim G c s" and I: "tree_inv (view c)" and G: "g_out G = {}"
    and t: "free (view c) t" "\<not> k_task_slots_used c t" "t < kMaxTasks" and x: "\<not> k_tracker_slots_used c x" "x < kMaxTasks"
  shows "release_tracker_locked x (taken vm m t x s) \<bind> release_task_locked t = Some (drop_task t (drop_tracker x (taken vm m t x s)))"
    "sim G (drop_task t (drop_tracker x (taken vm m t x c))) (drop_task t (drop_tracker x (taken vm m t x s)))"
    "create_spec owner idle p None t x (view c) (view (drop_task t (drop_tracker x (taken vm m t x c))))"
proof -
  show "release_tracker_locked x (taken vm m t x s) \<bind> release_task_locked t = Some (drop_task t (drop_tracker x (taken vm m t x s)))"
    using t(3) x(2) by (simp add: release_tracker_drop release_task_drop)
  have S1: "sim (G\<lparr>g_out := {x}\<rparr>) (taken vm m t x c) (taken vm m t x s)"
    by (intro take_slots_sim [OF S I G t(1) x(1)])
  have "g_ch G (Some x) = []" by (rule no_children_unused [OF S I x(1)])
  then have "sim (G\<lparr>g_out := {x}, g_out := g_out (G\<lparr>g_out := {x}\<rparr>) - {x}\<rparr>) (drop_tracker x (taken vm m t x c)) (drop_tracker x (taken vm m t x s))"
    by (intro drop_tracker_sim [OF S1]) simp_all
  moreover have "G\<lparr>g_out := {x}, g_out := g_out (G\<lparr>g_out := {x}\<rparr>) - {x}\<rparr> = G" using G by simp
  ultimately show "sim G (drop_task t (drop_tracker x (taken vm m t x c))) (drop_task t (drop_tracker x (taken vm m t x s)))"
    by (intro drop_task_sim) (simp_all)
  have "agree t x (view c) (view (drop_task t (drop_tracker x (taken vm m t x c))))"
    by (simp add: agree_def task_at_def tracker_at_def rest_of_def view_def take_task_def take_tracker_def
        drop_task_def drop_tracker_def)
  with t x show "create_spec owner idle p None t x (view c) (view (drop_task t (drop_tracker x (taken vm m t x c))))"
    by (simp add: create_spec_def)
qed


lemma find_unused:
  assumes "find (\<lambda>i. \<not> P i) [0..<n] = Some i"
  shows "\<not> P i" "i < n"
  using assms by (auto simp: find_Some_iff)

lemma create_none:
  assumes "\<forall>t. k_task_slots_used c t \<longrightarrow> t < kMaxTasks" "tree_inv (view c)" "free (view c) kMaxTasks"
  shows "create_spec owner idle p None kMaxTasks kMaxTasks (view c) (view c)"
  using assms(1) tree_invD(1) [OF assms(2), of kMaxTasks] assms(3)
  by (auto simp: create_spec_def agree_def)

text \<open>One slot could be taken and the other could not.\<close>

lemma create_half:
  assumes S: "sim G c s" and I: "tree_inv (view c)" and G: "g_out G = {}"
    and B: "\<forall>t. k_task_slots_used c t \<longrightarrow> t < kMaxTasks" "\<forall>t. \<not> k_task_slots_used c t \<longrightarrow> free (view c) t"
  shows "\<not> k_task_slots_used c t \<Longrightarrow> t < kMaxTasks \<Longrightarrow>
      release_task_locked t (take_task t s) = Some (drop_task t (take_task t s)) \<and>
      sim G (drop_task t (take_task t c)) (drop_task t (take_task t s)) \<and>
      create_spec owner idle p None t kMaxTasks (view c) (view (drop_task t (take_task t c)))"
    "\<not> k_tracker_slots_used c x \<Longrightarrow> x < kMaxTasks \<Longrightarrow>
      release_tracker_locked x (take_tracker x s) = Some (drop_tracker x (take_tracker x s)) \<and>
      sim G (drop_tracker x (take_tracker x c)) (drop_tracker x (take_tracker x s)) \<and>
      create_spec owner idle p None kMaxTasks x (view c) (view (drop_tracker x (take_tracker x c)))"
proof -
  assume t: "\<not> k_task_slots_used c t" "t < kMaxTasks"
  have "agree t kMaxTasks (view c) (view (drop_task t (take_task t c)))"
    using agree_trans [OF agree_slots(1,3)] .
  moreover have "sim G (drop_task t (take_task t c)) (drop_task t (take_task t s))"
    using B(2) t(1) by (intro drop_task_sim take_task_sim S) simp_all
  ultimately show "release_task_locked t (take_task t s) = Some (drop_task t (take_task t s)) \<and>
      sim G (drop_task t (take_task t c)) (drop_task t (take_task t s)) \<and>
      create_spec owner idle p None t kMaxTasks (view c) (view (drop_task t (take_task t c)))"
    using t tree_invD(1) [OF I, of kMaxTasks] by (auto simp: release_task_drop create_spec_def)
next
  assume x: "\<not> k_tracker_slots_used c x" "x < kMaxTasks"
  have ch: "g_ch G (Some x) = []" by (rule no_children_unused [OF S I x(1)])
  note S1 = take_tracker_sim [OF S x(1) ch]
  have "sim (G\<lparr>g_out := insert x (g_out G), g_out := g_out (G\<lparr>g_out := insert x (g_out G)\<rparr>) - {x}\<rparr>)
      (drop_tracker x (take_tracker x c)) (drop_tracker x (take_tracker x s))"
    using ch by (intro drop_tracker_sim [OF S1]) simp_all
  moreover have "G\<lparr>g_out := insert x (g_out G), g_out := g_out (G\<lparr>g_out := insert x (g_out G)\<rparr>) - {x}\<rparr> = G"
    using G by simp
  moreover have "agree kMaxTasks x (view c) (view (drop_tracker x (take_tracker x c)))"
    using agree_trans [OF agree_slots(2,4)] .
  moreover have "\<not> k_task_slots_used c kMaxTasks" using B(1) by blast
  ultimately show "release_tracker_locked x (take_tracker x s) = Some (drop_tracker x (take_tracker x s)) \<and>
      sim G (drop_tracker x (take_tracker x c)) (drop_tracker x (take_tracker x s)) \<and>
      create_spec owner idle p None kMaxTasks x (view c) (view (drop_tracker x (take_tracker x c)))"
    using x B(2) by (simp add: release_tracker_drop create_spec_def)
qed

definition parent_of :: "nat \<Rightarrow> bool \<Rightarrow> kst \<Rightarrow> nat option" where
  "parent_of h kernel_parent c = (if kernel_parent then None
     else case hl_current_task (k_harts c h) of None \<Rightarrow> None | Some p \<Rightarrow> t_tracker (k_tasks c p))"

definition creates :: "nat \<Rightarrow> bool \<Rightarrow> nat option \<Rightarrow> ghost \<Rightarrow> kst \<Rightarrow> nat option \<Rightarrow> kst \<Rightarrow> bool" where
  "creates owner idle p G c r s' \<longleftrightarrow> (\<exists>G' c' t x. sim G' c' s' \<and> same_queues G G' \<and> g_out G' = {} \<and>
     create_spec owner idle p r t x (view c) (view c'))"

lemma createsI:
  "sim G' c' s' \<Longrightarrow> same_queues G G' \<Longrightarrow> g_out G' = {} \<Longrightarrow> create_spec owner idle p r t x (view c) (view c') \<Longrightarrow>
     creates owner idle p G c r s'"
  unfolding creates_def by blast

lemma create_sim:
  assumes S: "sim G c s" and I: "tree_inv (view c)" and G: "g_out G = {}"
    and B: "\<forall>t. k_task_slots_used c t \<longrightarrow> t < kMaxTasks" "\<forall>t. \<not> k_task_slots_used c t \<longrightarrow> free (view c) t"
    and cur: "\<And>p. hl_current_task (k_harts c h) = Some p \<Longrightarrow> k_task_slots_used c p"
  shows "\<exists>r s'. create_task_locked im h entry arg sp owner kp idle ws s = Some (r, s') \<and>
    creates owner idle (parent_of h kp c) G c r s'"
proof -
  note R = sim_reads [OF S] and H = create_half [OF S I G B]
  have "\<not> k_task_slots_used c kMaxTasks" using B(1) by blast
  then have none: "creates owner idle p G c None s" for p
    using B(2) by (intro createsI [OF S _ G create_none [OF B(1) I]]) simp_all
  let ?t = "find (\<lambda>i. \<not> k_task_slots_used s i) [0..<kMaxTasks]" and ?x = "find (\<lambda>i. \<not> k_tracker_slots_used s i) [0..<kMaxTasks]"
  consider "\<not> (k_tm_initialized s \<and> address_space_valid sp \<and> is_boot_user_entry entry (k_vmm s)) \<or> ?t = None \<and> ?x = None"
    | x where "k_tm_initialized s \<and> address_space_valid sp \<and> is_boot_user_entry entry (k_vmm s)" "?t = None" "?x = Some x"
    | t where "k_tm_initialized s \<and> address_space_valid sp \<and> is_boot_user_entry entry (k_vmm s)" "?t = Some t" "?x = None"
    | t x where "k_tm_initialized s \<and> address_space_valid sp \<and> is_boot_user_entry entry (k_vmm s)" "?t = Some t" "?x = Some x"
    by fastforce
  then show ?thesis
  proof cases
    case 1
    then show ?thesis using none by (auto simp: create_task_locked_def allocate_eqs)
  next
    case (2 x)
    have "\<not> k_tracker_slots_used c x" "x < kMaxTasks" using find_unused [OF 2(3)] by (simp_all add: R)
    note h = H(2) [OF this]
    have "creates owner idle p G c None (drop_tracker x (take_tracker x s))" for p
      using h by (intro createsI [OF _ _ G]) (auto simp: same_queues_def)
    then show ?thesis using h 2 by (simp add: create_task_locked_def allocate_eqs)
  next
    case (3 t)
    have "\<not> k_task_slots_used c t" "t < kMaxTasks" using find_unused [OF 3(2)] by (simp_all add: R)
    note h = H(1) [OF this]
    have "creates owner idle p G c None (drop_task t (take_task t s))" for p
      using h by (intro createsI [OF _ _ G]) (auto simp: same_queues_def)
    then show ?thesis using h 3 by (simp add: create_task_locked_def allocate_eqs)
  next
    case (4 t x)
    have t: "free (view c) t" "\<not> k_task_slots_used c t" "t < kMaxTasks" and x: "\<not> k_tracker_slots_used c x" "x < kMaxTasks"
      using find_unused [OF 4(2)] find_unused [OF 4(3)] B(2) by (simp_all add: R)
    let ?sb = "if ws then task_stack im t else 0" and ?st = "if ws then task_stack im t + kTaskStackSize else 0"
    let ?s2 = "take_tracker x (take_task t s)"
    obtain ok vm m where m: "(if ws then vmm_map_stack (task_stack im t) kTaskStackSize
        (clear_bytes (task_stack im t) (unat kTaskStackSize) ?s2) else (True, ?s2)) = (ok, with_mem vm m ?s2)"
      using stack_ops by blast
    let ?u = "\<lambda>s. setup_task im h entry arg sp owner idle ?sb ?st t x (taken vm m t x s)"
    have p: "parent_of h kp (?u s) = parent_of h kp c"
    proof (cases "hl_current_task (k_harts c h)")
      case (Some q)
      then have "q \<noteq> t" using cur t(2) by blast
      with Some show ?thesis by (simp add: parent_of_def R)
    qed (simp add: parent_of_def R)
    show ?thesis
    proof (cases ok)
      case True
      note d = create_done [OF S I G t x]
      have "creates owner idle (parent_of h kp c) G c (Some t) (link_tracker_locked x (parent_of h kp c) (?u s))"
        by (rule createsI [OF d(1) _ _ d(2)]) (simp_all add: same_queues_def link_ch_def)
      moreover have "create_task_locked im h entry arg sp owner kp idle ws s =
          Some (Some t, link_tracker_locked x (parent_of h kp (?u s)) (?u s))"
        using 4 m True by (cases ws) (simp_all add: create_task_locked_def allocate_eqs parent_of_def get_current_task_def Let_def)
      ultimately show ?thesis unfolding p by blast
    next
      case False
      note d = create_undone [OF S I G t x]
      have "creates owner idle p G c None (drop_task t (drop_tracker x (taken vm m t x s)))" for p
        by (rule createsI [OF d(2) _ G d(3)]) (simp add: same_queues_def)
      moreover have "create_task_locked im h entry arg sp owner kp idle ws s =
          Some (None, drop_task t (drop_tracker x (taken vm m t x s)))"
        using 4 m False
        by (cases ws) (simp_all add: create_task_locked_def allocate_eqs Let_def release_tracker_drop release_task_drop t x)
      ultimately show ?thesis by blast
    qed
  qed
qed


lemma less_inc: "(n :: u64) \<noteq> UINT64_MAX \<Longrightarrow> n < n + 1"
  by (metis add.commute eq_neg_iff_add_eq_0 word_less_nat_alt lessI unatSuc)

text \<open>The system call: the child is runnable behind the tasks that already were.\<close>

lemma create_task_kinv:
  assumes S: "sim G c s" and K: "kinv {} G (view c)" and cur: "hl_current_task (k_harts c h) = Some t"
    and owner: "owner < k_present_count c" and tid: "k_next_tid c \<noteq> UINT64_MAX"
  shows "\<exists>r s' G' c'. create_task im h entry arg sp owner False s = Some (r, s') \<and> sim G' c' s' \<and> 
    tree_inv (view c') \<and> join_inv (view c') \<and> v_cur (view c') = v_cur (view c) \<and> v_used (view c') t \<and>
    (case r of None \<Rightarrow> qinv {} {} G' (view c') | Some u \<Rightarrow> qinv {} {u} G' (view c') \<and> v_state (view c') u = TS_ready)"
proof -
  note Q = kinvD(1) [OF K] and I = kinvD(2) [OF K] and cf = current_facts [OF K cur]
    and T = task_invD [OF qinvD(1) [OF kinvD(1) [OF K]]]
  have G: "g_out G = {}" using qinvD(3) [OF Q] by (simp add: queue_inv_def)
  have B: "\<forall>t. k_task_slots_used c t \<longrightarrow> t < kMaxTasks" "\<forall>t. \<not> k_task_slots_used c t \<longrightarrow> free (view c) t"
    using T(1,4) by simp_all
  obtain x0 where x0: "t_tracker (k_tasks c t) = Some x0" "k_tracker_slots_used c x0" by (rule current_tracker [OF K cur])
  have p: "parent_of h False c = Some x0" using cur x0 by (simp add: parent_of_def)
  from create_sim [OF S I G B, of h im entry arg sp owner False False True] cf(1) cur
  obtain r s' G' c' u x where r: "create_task im h entry arg sp owner False s = Some (r, s')" "sim G' c' s'"
    "same_queues G G'" "g_out G' = {}" "create_spec owner False (Some x0) r u x (view c) (view c')"
    unfolding create_task_def creates_def p by (metis option.inject)
  then have A: "agree u x (view c) (view c')" and fresh: "\<not> v_used (view c) u" "\<not> v_tused (view c) x" and fr: "free (view c') u"
    by (simp_all add: create_spec_def)
  have nin: "u \<notin> set (g_dq G i)" for i using sim_delayed [OF S, of u] B(2) fresh(1) by auto
  have u: "r = None \<Longrightarrow> \<not> v_used (view c') u \<and> \<not> v_tused (view c') x \<and> v_next (view c') = v_next (view c)"
    using r(5) by (simp add: create_spec_def)
  have w: "r = Some u' \<Longrightarrow> u' = u \<and> u < kMaxTasks \<and> x < kMaxTasks \<and> v_used (view c') u \<and> v_tused (view c') x \<and>
      v_state (view c') u = TS_ready \<and> \<not> v_idle (view c') u \<and> v_cpu (view c') u = Some owner \<and> v_pin (view c') u = 0 \<and>
      v_trk (view c') u = Some x \<and> v_tid (view c') u = v_next (view c) \<and> v_task (view c') x = Some u \<and>
      v_key (view c') x = v_next (view c) \<and> v_status (view c') x = ES_running \<and> \<not> v_active (view c') x \<and>
      v_parent (view c') x = Some x0 \<and> v_next (view c') = v_next (view c) + 1" for u'
    using r(5) unfolding create_spec_def by (simp del: view_simps)
  have next': "v_next (view c) < v_next (view c) + 1" using less_inc [OF tid] by simp
  have q: "qinv {} (if v_used (view c') u then {u} else {}) G (view c')"
    by (rule qinv_alloc [OF Q A fresh(1) nin fr _ refl]) (use u w owner in \<open>cases r; auto simp del: view_simps(1-19)\<close>)
  have "tree_inv (view c')"
    by (rule tree_inv_alloc [OF I A fresh]) (use u w next' x0(2) in \<open>(cases r; auto)+\<close>)
  moreover have "join_inv (view c')"
    by (rule join_inv_alloc [OF kinvD(3) [OF K] I A fresh]) (use u w in \<open>cases r; auto\<close>)
  moreover have "v_used (view c') t" using agree_task(1) [OF A, of t] cf(1) fresh(1) by auto
  ultimately show ?thesis
    using r(1,2) qinv_same_queues [OF q r(3,4)] agree_rest(1) [OF A] u w
    by (intro exI [of _ r] exI [of _ s'] exI [of _ G'] exI [of _ c']) (cases r; simp del: view_simps)
qed


lemma sys_create_ok:
  assumes S: "sim G c s" and K: "kinv {} G (view c)" and cur: "hl_current_task (k_harts c h) = Some t"
    and tid: "k_next_tid c \<noteq> UINT64_MAX"
  shows "lands h (sys_create im h t s)"
proof -
  note ok = ok_atI [OF S K cur] and cf = current_facts [OF K cur]
  have cpu: "t_cpu (k_tasks s t) = Some h" using cf(3) by (simp add: sim_reads [OF S])
  obtain r s' G' c' where r: "create_task im h (task_x t 10 s) (task_x t 11 s) (t_address_space (k_tasks s t)) h False s = Some (r, s')"
    "sim G' c' s'" "tree_inv (view c')" "join_inv (view c')" "v_cur (view c') = v_cur (view c)" "v_used (view c') t"
    "case r of None \<Rightarrow> qinv {} {} G' (view c') | Some u \<Rightarrow> qinv {} {u} G' (view c') \<and> v_state (view c') u = TS_ready"
    using create_task_kinv [OF S K cur cf(4) tid] by blast
  have cur': "hl_current_task (k_harts c' h) = Some t" using fun_cong [OF r(5), of h] cur by simp
  show ?thesis
  proof (cases r)
    case None
    then have "ok_at h s'" using r(3,4,7) by (intro ok_atI [OF r(2) _ cur']) (simp add: kinv_def)
    then show ?thesis
      using None ok r(1) cpu by (simp add: sys_create_def ok_at_quiet Let_def)
  next
    case (Some u)
    then have q: "qinv {} {u} G' (view c')" and st: "t_state (k_tasks c' u) \<notin> {TS_ended, TS_blocked_join}" using r(7) by auto
    have d: "deref_scheduler t s' = Some ()" using r(6) by (intro deref_scheduler_ok [OF r(2) q]) simp
    obtain s2 where w: "Scheduler_add_task u s' = (True, s2)" "sim (enq_rq Global_rq u G') (upd_task u make_ready c') s2"
      "kinv {} (enq_rq Global_rq u G') (view (upd_task u make_ready c'))"
      using wake_kinv [OF r(2) q r(3,4) st] by blast
    have "ok_at h s2" using ok_atI [OF w(2,3)] cur' by simp
    then show ?thesis
      using Some ok r(1) cpu d w(1) by (simp add: sys_create_def ok_at_quiet Let_def)
  qed
qed

end
