(* ===== verification/Task_End.thy ===== *)
theory Task_End
  imports Task_Steps
begin

text \<open>
  Ending a task on states that satisfy the kernel invariant.  The slot of the task is released
  and its tracker is kept as a completed child, handed to a waiting parent, or removed.  The only
  cases that park are the fail-closed ones of the source: a crashed task with nobody to report
  to, and a crashed child that would become an orphan of the kernel.
\<close>

section \<open>Ending a task\<close>

text \<open>The view without task \<open>t\<close>.\<close>

abbreviation sans :: "nat \<Rightarrow> kview \<Rightarrow> kview" where
  "sans t v \<equiv> v\<lparr>v_used := (v_used v)(t := False)\<rparr>"

lemma qinv_free:
  assumes Q: "qinv Hx (insert t X) G v" and A: "agree t x v v'" and t: "t \<notin> X" "\<And>h. t \<notin> set (g_dq G h)"
    and new: "free v' t" "\<not> v_used v' t"
  shows "qinv Hx X G v'"
proof (rule qinvI)
  note T = task_invD [OF qinvD(1) [OF Q]] and H = hart_invD [OF qinvD(2) [OF Q]]
    and A' = agree_task [OF A] agree_rest [OF A] and tx = exempt_task [OF Q insertI1]
  show "task_inv Hx X v'"
  proof (rule task_invI)
    show "u < kMaxTasks \<and> v_pin v' u = 0 \<and> (\<exists>h<v_n v'. v_cpu v' u = Some h)" if "v_used v' u" for u
      using that T(1-3) [of u] A' new(2) by (cases "u = t") auto
    show "free v' u" if "\<not> v_used v' u" for u
      using that T(4) [of u] A' new(1) by (cases "u = t") auto
    show "u \<notin> X \<and> free v' u \<and> v_state v' u \<in> {TS_ready, TS_running} \<and> (\<exists>h < v_n v'. v_idlet v' h = Some u)"
      if "v_used v' u" "v_idle v' u" for u
      using that T(5) [of u] A' new(2) by (cases "u = t") auto
    show "placed Hx v' u" if "v_used v' u" "\<not> v_idle v' u" "u \<notin> X" for u
      using that T(6) [of u] A' new(2) by (cases "u = t") (auto simp: placed_def)
    show "v_used v' u \<and> free v' u" if "u \<in> X" for u
      using that T(7) [of u] A' t(1) by (cases "u = t") auto
  qed
  show "hart_inv Hx X v'"
  proof (rule hart_invI)
    show "\<exists>u. v_idlet v' h = Some u \<and> v_used v' u \<and> v_idle v' u \<and> v_cpu v' u = Some h" if h: "h < v_n v'" for h
    proof -
      obtain u where "v_idlet v h = Some u" "v_used v u" "v_idle v u" "v_cpu v u = Some h"
        using H(4) [of h] h A' by auto
      then show ?thesis using A' tx(2) by (cases "u = t") auto
    qed
    show "v_used v' u \<and> u \<notin> X \<and> v_state v' u = TS_running \<and> v_cpu v' u = Some h" if "v_cur v' h = Some u" "h \<notin> Hx" for h u
    proof -
      have "v_used v u \<and> u \<notin> insert t X \<and> v_state v u = TS_running \<and> v_cpu v u = Some h" using H(6) [of h u] that A' by auto
      then show ?thesis using A' by auto
    qed
  qed (use H A' in auto)
  have eq: "map (v_deadline v') (g_dq G h) = map (v_deadline v) (g_dq G h)" for h
    using A' t(2) by (metis map_cong)
  show "queue_inv G v'" "ep_inv G v'"
    using qinvD(3,4) [OF Q] unfolding queue_inv_def ep_inv_def eq agree_rest [OF A] by simp_all
qed

lemma tree_inv_sans:
  assumes I: "tree_inv (sans t v)" and A: "agree t x v v'" and x: "tracker_at v' x = tracker_at v x"
    and t: "\<not> v_used v' t" "v_next v' = v_next v"
  shows "tree_inv v'"
proof -
  have Y: "tracker_at v' y = tracker_at v y" for y using A x by (cases "y = x") (auto simp: agree_def)
  have "v_tused v' = v_tused v" "v_parent v' = v_parent v" "v_key v' = v_key v" "v_task v' = v_task v" "v_status v' = v_status v"
    using Y by (simp_all add: tracker_at_def fun_eq_iff)
  moreover have "v_used v' = (v_used v)(t := False)" using agree_task(1) [OF A] t(1) by (auto simp: fun_eq_iff)
  moreover have "u \<noteq> t \<Longrightarrow> v_trk v' u = v_trk v u \<and> v_tid v' u = v_tid v u" for u using agree_task(9,10) [OF A, of u] by simp
  ultimately show ?thesis
    using I t(2) unfolding tree_inv_def by (simp split: if_splits)
qed

text \<open>A task whose tracker has a parent leaves a completed tracker behind.\<close>

lemma tree_inv_zombie:
  assumes I: "tree_inv v" and x: "v_used v t" "v_trk v t = Some x" "v_parent v x \<noteq> None" and st: "st \<noteq> ES_running"
  shows "tree_inv (sans t (v\<lparr>v_task := (v_task v)(x := None), v_status := (v_status v)(x := st)\<rparr>))"
proof (rule tree_invI)
  note I = tree_invD [OF I]
  let ?v = "sans t (v\<lparr>v_task := (v_task v)(x := None), v_status := (v_status v)(x := st)\<rparr>)"
  have xt: "v_tused v x" "v_task v x = Some t" using I(7) [OF x(1)] x(2) by auto
  show "v_used ?v u \<and> v_trk ?v u = Some y \<and> v_tid ?v u = v_key ?v y \<and> v_status ?v y = ES_running"
    if "v_tused ?v y" "v_task ?v y = Some u" for y u
  proof -
    have y: "y \<noteq> x" "v_tused v y" "v_task v y = Some u" using that by (auto split: if_splits)
    then have "u \<noteq> t" using I(6) [of y u] I(6) [OF xt] by auto
    with y I(6) [of y u] show ?thesis by simp
  qed
  show "\<exists>y. v_trk ?v u = Some y \<and> v_tused ?v y \<and> v_task ?v y = Some u" if "v_used ?v u" for u
  proof -
    have u: "u \<noteq> t" "v_used v u" using that by (auto split: if_splits)
    then obtain y where y: "v_trk v u = Some y" "v_tused v y" "v_task v y = Some u" using I(7) [of u] by blast
    with u(1) xt(2) have "y \<noteq> x" by auto
    with y show ?thesis by simp
  qed
  show "y < kMaxTasks \<and> v_key ?v y < v_next ?v" if "v_tused ?v y" for y using that I(1,2) [of y] by simp
  show "y = z" if "v_tused ?v y" "v_tused ?v z" "v_key ?v y = v_key ?v z" for y z using that I(3) by simp
  show "v_tused ?v p \<and> v_key ?v p < v_key ?v y" if "v_tused ?v y" "v_parent ?v y = Some p" for y p using that I(4) by simp
  show "v_parent ?v y \<noteq> None \<and> v_status ?v y \<noteq> ES_running" if "v_tused ?v y" "v_task ?v y = None" for y
    using that I(5) [of y] x(3) st by (cases "y = x") auto
qed

lemma qinv_leave_join:
  assumes "qinv Hx X G v" and "v_used v t" and "v_state v t = TS_blocked_join" and "t \<notin> X"
  shows "qinv Hx (insert t X) G v" "\<not> v_idle v t" "free v t"
proof -
  note T = task_invD [OF qinvD(1) [OF assms(1)]] and H = hart_invD [OF qinvD(2) [OF assms(1)]]
  show i: "\<not> v_idle v t" using T(5) [OF assms(2)] assms(3) by auto
  show f: "free v t" using T(6) [OF assms(2) i assms(4)] assms(3) by (auto simp: placed_def place_def)
  have "task_inv Hx (insert t X) v"
    by (rule task_invI) (use T f i assms(2) in blast)+
  moreover have "hart_inv Hx (insert t X) v"
    by (rule hart_invI) (use H assms(3) in \<open>auto dest!: H(6)\<close>)
  ultimately show "qinv Hx (insert t X) G v" using assms(1) by (simp add: qinv_def)
qed


text \<open>A waiting parent is woken.\<close>

lemma join_inv_wake:
  assumes J: "join_inv v" and u: "\<And>y. v_tused v y \<Longrightarrow> v_task v y = Some t \<Longrightarrow> y = x" and x: "v_tused v x" "v_task v x = Some t"
  shows "join_inv ((put t TS_ready q d m dl v)\<lparr>v_active := (v_active v)(x := False)\<rparr>)"
  using J x unfolding join_inv_def by (simp, blast dest: u)

lemma release_task_sim:
  assumes S: "sim G c s" and t: "t < kMaxTasks" "free (view c) t"
  shows "\<exists>vm m s'. release_task_locked t s = Some s' \<and> sim G (drop_task t (with_mem vm m c)) s'"
proof -
  note R = sim_reads [OF S]
  let ?s1 = "if t_stack_bottom (k_tasks s t) \<noteq> 0 then clear_bytes (t_stack_bottom (k_tasks s t)) (unat kTaskStackSize) s else s"
  have "\<exists>m. ?s1 = with_mem (k_vmm s) m s"
    using mem_ops(1) [of "t_stack_bottom (k_tasks s t)" "unat kTaskStackSize" s]
    by (cases "t_stack_bottom (k_tasks s t) = 0") (auto intro: exI [of _ "k_ms s"])
  then obtain m where "?s1 = with_mem (k_vmm s) m s" by blast
  then have "release_task_locked t s = Some (drop_task t (with_mem (k_vmm s) m s))"
    using t by (simp add: release_task_locked_def drop_task_def upd_task_def R(12,14,15) Let_def)
  moreover have "sim G (drop_task t (with_mem (k_vmm s) m c)) (drop_task t (with_mem (k_vmm s) m s))"
    using t(2) by (intro drop_task_sim with_mem_sim S) simp
  ultimately show ?thesis by blast
qed

text \<open>The last step of ending: the slot of the task is given back.\<close>

lemma end_release:
  assumes S: "sim G c s" and Q: "qinv Hx {t} G (view c)" and I: "tree_inv (sans t (view c))" and J: "join_inv (view c)"
    and N: "\<And>y. k_tracker_slots_used c y \<Longrightarrow> tt_task (k_trackers c y) \<noteq> Some t"
  shows "\<exists>c' s'. release_task_locked t s = Some s' \<and> sim G c' s' \<and> kinv Hx G (view c') \<and> k_harts c' = k_harts c"
proof -
  note tx = exempt_task [OF Q singletonI]
  have lt: "t < kMaxTasks" using task_invD(1) [OF qinvD(1) [OF Q]] tx(1) by blast
  obtain vm m s' where r: "release_task_locked t s = Some s'" "sim G (drop_task t (with_mem vm m c)) s'"
    using release_task_sim [OF S lt tx(3)] by blast
  let ?c = "drop_task t (with_mem vm m c)"
  have A: "agree t x (view c) (view ?c)" for x
    by (simp add: agree_def task_at_def tracker_at_def rest_of_def view_def drop_task_def)
  have "t \<notin> set (g_dq G h)" for h using sim_delayed [OF S, of t] tx(3) by auto
  then have "qinv Hx {} G (view ?c)"
    by (intro qinv_free [OF Q A]) simp_all
  moreover have "tree_inv (view ?c)"
    by (rule tree_inv_sans [OF I A]) (simp_all add: tracker_at_def)
  moreover have "join_inv (view ?c)"
    using J N by (auto simp: join_inv_def)
  ultimately show ?thesis using r by (intro exI [of _ ?c] exI [of _ s']) (simp add: kinv_def)
qed


text \<open>The state between the switch to the next task and the release of the ended one.\<close>

definition ending :: "nat \<Rightarrow> ghost \<Rightarrow> kst \<Rightarrow> kst \<Rightarrow> bool" where
  "ending t G c s \<longleftrightarrow> sim G c s \<and> qinv {} {t} G (view c) \<and> tree_inv (sans t (view c)) \<and>
     (\<forall>y. k_tracker_slots_used c y \<longrightarrow> tt_task (k_trackers c y) \<noteq> Some t)"

definition complete :: "exit_status \<Rightarrow> u64 \<Rightarrow> task_tracker \<Rightarrow> task_tracker" where
  "complete st rv r = r\<lparr>tt_status := st, tt_return_value := rv, tt_task := None\<rparr>"

lemma complete_safe: "tracker_safe (complete st rv)"
  by (simp add: tracker_safe_def erase_tracker_def complete_def)

lemma view_complete:
  "view (upd_tracker x (complete st rv) c) =
     (view c)\<lparr>v_task := (v_task (view c))(x := None), v_status := (v_status (view c))(x := st)\<rparr>"
  by (intro kview.equality) (simp_all add: view_def fun_eq_iff complete_def)

lemma complete_facts:
  assumes I: "tree_inv (view c)" and t: "k_task_slots_used c t" "t_tracker (k_tasks c t) = Some x"
  shows "k_tracker_slots_used c x" "tt_task (k_trackers c x) = Some t"
    "k_tracker_slots_used c y \<Longrightarrow> tt_task (k_trackers (upd_tracker x (complete st rv) c) y) \<noteq> Some t"
proof -
  note D = tree_invD [OF I]
  show x: "k_tracker_slots_used c x" "tt_task (k_trackers c x) = Some t" using D(7) [of t] t by auto
  show "tt_task (k_trackers (upd_tracker x (complete st rv) c) y) \<noteq> Some t" if "k_tracker_slots_used c y"
  proof (cases "y = x")
    case False
    have "tt_task (k_trackers c y) = Some t \<Longrightarrow> y = x"
      using D(6) [of y t] t(2) that by simp
    with False show ?thesis by auto
  qed (simp add: complete_def)
qed

lemma join_inv_complete:
  assumes J: "join_inv (view c)" and x: "k_tracker_slots_used c x" "tt_task (k_trackers c x) = Some t"
    and t: "t_state (k_tasks c t) = TS_ended"
  shows "join_inv (view (upd_tracker x (complete st rv) c))" "join_inv (view (adopt D np (upd_tracker x (complete st rv) c)))"
proof -
  have n: "\<not> v_active (view c) x" using J t x by (simp add: join_inv_def)
  have "v_active v y \<longleftrightarrow> v_active (view c) y" "y \<noteq> x \<Longrightarrow> v_task v y = v_task (view c) y" "v_task v x = None"
    "v_tused v = v_tused (view c)" "v_state v = v_state (view c)"
    if "v = view (upd_tracker x (complete st rv) c)" for v y
    unfolding that view_complete by simp_all
  with J n show j: "join_inv (view (upd_tracker x (complete st rv) c))"
    unfolding join_inv_def by (metis option.distinct(1))
  show "join_inv (view (adopt D np (upd_tracker x (complete st rv) c)))"
    by (rule join_inv_cut [OF j]) auto
qed

lemma ending_kept:
  assumes S: "sim G c s" and Q: "qinv {} {t} G (view c)" and I: "tree_inv (view c)" and t: "t_tracker (k_tasks c t) = Some x"
    and p: "tt_parent (k_trackers c x) \<noteq> None" and st: "st \<noteq> ES_running"
  shows "ending t G (upd_tracker x (complete st rv) c) (upd_tracker x (complete st rv) s)"
proof -
  have u: "k_task_slots_used c t" using exempt_task(1) [OF Q] by simp
  note f = complete_facts [OF I u t]
  have "tree_inv (sans t (view (upd_tracker x (complete st rv) c)))"
    using tree_inv_zombie [OF I, of t x st] u t p st unfolding view_complete by simp
  moreover have "qinv {} {t} G (view (upd_tracker x (complete st rv) c))"
    using Q unfolding view_complete by simp
  ultimately show ?thesis
    unfolding ending_def using f(3) sim_upd_tracker [OF S complete_safe] by auto
qed

lemma ending_removed:
  assumes S: "sim G c s" and Q: "qinv {} {t} G (view c)" and I: "tree_inv (view c)" and t: "t_tracker (k_tasks c t) = Some x"
  defines "np \<equiv> tt_parent (k_trackers c x)"
  shows "(remove_tracker_locked x (upd_tracker x (complete st rv) s) = None \<and> np = None \<and>
      crashed_zombie (upd_tracker x (complete st rv) c)) \<or>
    (\<exists>D G' s'. remove_tracker_locked x (upd_tracker x (complete st rv) s) = Some s' \<and> same_queues G G' \<and>
       x \<in> D \<and> (np \<noteq> None \<longrightarrow> D = {x}) \<and> ending t G' (adopt D np (upd_tracker x (complete st rv) c)) s')"
proof -
  have u: "k_task_slots_used c t" using exempt_task(1) [OF Q] by simp
  note f = complete_facts [OF I u t] and ID = tree_invD [OF I]
  let ?c = "upd_tracker x (complete st rv) c" and ?s = "upd_tracker x (complete st rv) s"
  have S1: "sim G ?c ?s" by (rule sim_upd_tracker [OF S complete_safe])
  have G: "g_out G = {}" using qinvD(3) [OF Q] by (simp add: queue_inv_def)
  have "np \<noteq> Some x" using ID(4) [of x x] f(1) by (auto simp: np_def)
  moreover have "np = tt_parent (k_trackers ?c x)" by (simp add: np_def complete_def)
  moreover have "\<forall>y. k_tracker_slots_used ?c y \<longrightarrow> y < kMaxTasks" using ID(1) by simp
  ultimately consider "remove_tracker_locked x ?s = None" "np = None" "crashed_zombie ?c"
    | D G' s' where "remove_tracker_locked x ?s = Some s'" "sim G' (adopt D np ?c) s'" "g_out G' = {}" "same_queues G G'"
        "if np = None then reaps x D ?c else D = {x}"
    using remove_tracker_sim [OF S1 G, of x np] f(1) by auto
  then show ?thesis
  proof cases
    case (2 D G' s')
    have xD: "x \<in> D" and Dz: "y \<in> D \<Longrightarrow> y = x \<or> tt_task (k_trackers c y) = None" for y
      using 2(5) by (auto simp: reaps_def complete_def split: if_splits)
    have cut: "tree_cut D {t} np (view c) (sans t (view (adopt D np ?c)))"
      using xD by (auto simp: tree_cut_def adopt_def complete_def)
    have "tree_inv (sans t (view (adopt D np ?c)))"
    proof (rule tree_inv_cut [OF I cut xD])
      show "if np = None then \<forall>y. v_tused (view c) y \<and> v_task (view c) y = None \<and> y \<notin> D \<longrightarrow> v_parent (view c) y \<notin> Some ` D
        else D = {x}"
        using 2(5) xD by (auto simp: reaps_def complete_def split: if_splits)
      show "u \<in> {t}" if "y \<in> D" "v_task (view c) y = Some u" for y u
        using Dz [of y] f(2) that by auto
    qed (use f(1) xD t in \<open>simp_all add: np_def\<close>)
    moreover have "qinv {} {t} G' (view (adopt D np ?c))"
      using qinv_same_queues [OF Q 2(4,3)] by (simp add: view_complete)
    moreover have "tt_task (k_trackers (adopt D np ?c) y) \<noteq> Some t" if "k_tracker_slots_used (adopt D np ?c) y" for y
      using f(3) [of y] that by simp
    ultimately have "ending t G' (adopt D np ?c) s'"
      unfolding ending_def using 2(2) by blast
    with 2 xD show ?thesis by (auto split: if_splits)
  qed auto
qed


abbreviation stop_wait :: "task_tracker \<Rightarrow> task_tracker" where
  "stop_wait \<equiv> \<lambda>r. r\<lparr>tt_wait := (tt_wait r)\<lparr>wi_active := False\<rparr>\<rparr>"

lemma view_stop_wait: "view (upd_tracker p stop_wait c) = (view c)\<lparr>v_active := (v_active (view c))(p := False)\<rparr>"
  by (intro kview.equality) (simp_all add: view_def fun_eq_iff)

lemma upd_commute:
  "p \<noteq> x \<Longrightarrow> set_task_x u i w (upd_tracker p f (upd_tracker x g s)) = upd_tracker x g (set_task_x u i w (upd_tracker p f s))"
  by (intro kst.equality) (auto simp: set_task_x_def upd_task_def upd_tracker_def fun_eq_iff)

lemma tree_inv_sans_put: "tree_inv (sans t (put u st q d m dl v)) = tree_inv (sans t v)"
  by (simp add: tree_inv_def)

lemma view_wake:
  assumes "p \<noteq> x"
  shows "view (adopt {x} np (upd_tracker x (complete st rv) (set_task_x u i w (upd_tracker p stop_wait c)))) =
    (view (adopt {x} np (upd_tracker x (complete st rv) c)))\<lparr>v_active :=
      (v_active (view (adopt {x} np (upd_tracker x (complete st rv) c))))(p := False)\<rparr>"
  using assms by (intro kview.equality)
    (auto simp: view_def adopt_def fun_eq_iff set_task_x_def complete_def set_parent_def)

lemma waiting_parent:
  assumes I: "tree_inv (view c)" and J: "join_inv (view c)"
    and p: "k_tracker_slots_used c p" "wi_active (tt_wait (k_trackers c p))"
  obtains pt where "tt_task (k_trackers c p) = Some pt" "k_task_slots_used c pt" "t_tracker (k_tasks c pt) = Some p"
    "t_state (k_tasks c pt) = TS_blocked_join"
proof -
  obtain pt where pt: "v_task (view c) p = Some pt" using J p by (auto simp: join_inv_def)
  then have "v_used (view c) pt \<and> v_trk (view c) pt = Some p" using tree_invD(6) [OF I] p(1) by simp
  moreover have "v_state (view c) pt = TS_blocked_join" using J p pt by (simp add: join_inv_def)
  ultimately show thesis using that pt by simp
qed

lemma ending_wake:
  fixes tid rv :: u64 and st :: exit_status
  assumes S: "sim G c s" and Q: "qinv {} {t} G (view c)" and I: "tree_inv (view c)" and J: "join_inv (view c)"
    and t: "t_tracker (k_tasks c t) = Some x" "t_state (k_tasks c t) = TS_ended"
    and p: "tt_parent (k_trackers c x) = Some p" "wi_active (tt_wait (k_trackers c p))"
    and pt: "tt_task (k_trackers c p) = Some pt" "k_task_slots_used c pt" "t_tracker (k_tasks c pt) = Some p"
      "t_state (k_tasks c pt) = TS_blocked_join"
  defines "s2 \<equiv> set_task_x pt 10 tid (upd_tracker p stop_wait (upd_tracker x (complete st rv) s))"
  shows "\<exists>s3 s4 G' c'. remove_tracker_locked x s2 = Some s3 \<and> tt_task (k_trackers s3 p) = Some pt \<and>
    deref_scheduler pt s3 = Some () \<and> Scheduler_add_task pt s3 = (True, s4) \<and> ending t G' c' s4 \<and> join_inv (view c') \<and>
    k_harts c' = k_harts c"
proof -
  have ut: "k_task_slots_used c t" using exempt_task(1) [OF Q] by simp
  note f = complete_facts [OF I ut t(1)] and ID = tree_invD [OF I]
  have px: "p \<noteq> x" using ID(4) [of x p] f(1) p(1) by auto
  have ptt: "pt \<noteq> t" using pt(3) t(1) px by auto
  let ?c1 = "set_task_x pt 10 tid (upd_tracker p stop_wait c)" and ?s1 = "set_task_x pt 10 tid (upd_tracker p stop_wait s)"
  have S1: "sim G ?c1 ?s1" by (intro set_task_x_sim sim_upd_tracker S tracker_tt_wait)
  have Q1: "qinv {} {t} G (view ?c1)" and I1: "tree_inv (view ?c1)" using Q I by (simp_all add: view_stop_wait)
  have "t_tracker (k_tasks ?c1 t) = Some x" and p1: "tt_parent (k_trackers ?c1 x) = Some p"
    using t p(1) by (auto simp: set_task_x_def)
  from ending_removed [OF S1 Q1 I1 this(1), of st rv] obtain G' s3 where
    r: "remove_tracker_locked x (upd_tracker x (complete st rv) ?s1) = Some s3"
      "ending t G' (adopt {x} (Some p) (upd_tracker x (complete st rv) ?c1)) s3"
    unfolding p1 by auto
  let ?c4 = "adopt {x} (Some p) (upd_tracker x (complete st rv) ?c1)"
    and ?v = "view (adopt {x} (Some p) (upd_tracker x (complete st rv) c))"
  note v = view_wake [OF px, of "Some p" st rv pt 10 tid c]
  have S4: "sim G' ?c4 s3" and Q4: "qinv {} {t} G' (view ?c4)" and I4: "tree_inv (sans t (view ?c4))"
    and N4: "\<forall>y. k_tracker_slots_used ?c4 y \<longrightarrow> tt_task (k_trackers ?c4 y) \<noteq> Some t"
    using r(2) by (simp_all add: ending_def)
  have u4: "v_used (view ?c4) pt" "v_state (view ?c4) pt = TS_blocked_join" "v_task (view ?c4) p = Some pt"
    using pt px by (simp_all add: set_task_x_def adopt_def complete_def)
  note L = qinv_leave_join [OF Q4 u4(1,2)]
  have Q5: "qinv {} (insert pt {t}) G' (view ?c4)" and nt: "pt \<notin> {t}" using L(1) ptt by auto
  obtain s4 where a: "Scheduler_add_task pt s3 = (True, s4)" "sim (enq_rq Global_rq pt G') (upd_task pt make_ready ?c4) s4"
    "qinv {} {t} (enq_rq Global_rq pt G') (view (upd_task pt make_ready ?c4))"
    using add_task_sim [OF S4 Q5 nt] u4(2) by auto
  have "v_tused ?v y \<Longrightarrow> v_task ?v y = Some pt \<Longrightarrow> y = p" for y
    using ID(6) [of y pt] pt(3) by (auto simp: adopt_def complete_def split: if_splits)
  moreover have "v_tused ?v p" "v_task ?v p = Some pt" using pt px ID(4) [of x p] f(1) p(1) by (auto simp: adopt_def)
  ultimately have "join_inv ((put pt TS_ready q d m dl ?v)\<lparr>v_active := (v_active ?v)(p := False)\<rparr>)" for q d m dl
    using join_inv_wake [OF join_inv_complete(2) [OF J f(1,2) t(2)]] by blast
  moreover have "view (upd_task pt make_ready ?c4) = (put pt TS_ready True (v_d (view ?c4) pt) (v_m (view ?c4) pt)
      (v_deadline (view ?c4) pt) ?v)\<lparr>v_active := (v_active ?v)(p := False)\<rparr>"
    unfolding view_moves by (simp add: v put_def del: view_simps)
  ultimately have "join_inv (view (upd_task pt make_ready ?c4))" by simp
  moreover have "tree_inv (sans t (view (upd_task pt make_ready ?c4)))"
    unfolding view_moves tree_inv_sans_put by (rule I4)
  with a(2,3) N4 have "ending t (enq_rq Global_rq pt G') (upd_task pt make_ready ?c4) s4"
    unfolding ending_def by simp
  moreover have "k_harts (upd_task pt make_ready ?c4) = k_harts c" by simp
  moreover have "deref_scheduler pt s3 = Some ()" using u4(1) by (intro deref_scheduler_ok [OF S4 Q4]) simp
  moreover have "tt_task (k_trackers s3 p) = Some pt" using u4(3) by (simp add: sim_reads [OF S4])
  ultimately show ?thesis
    using r(1) a(1) unfolding s2_def upd_commute [OF px] by blast
qed


text \<open>The cases in which ending a task parks the hart.\<close>

definition end_parks :: "nat \<Rightarrow> exit_status \<Rightarrow> kst \<Rightarrow> bool" where
  "end_parks t st c \<longleftrightarrow> (\<exists>x. t_tracker (k_tasks c t) = Some x \<and>
     (st = ES_crashed \<and> (t_detached (k_tasks c t) \<or> tt_parent (k_trackers c x) = None) \<or>
      tt_parent (k_trackers c x) = None \<and> crashed_zombie c))"

lemma notify_ok:
  fixes rv :: u64
  assumes S: "sim G c s" and Q: "qinv {} {t} G (view c)" and I: "tree_inv (view c)" and J: "join_inv (view c)"
    and t: "t_tracker (k_tasks c t) = Some x" "t_state (k_tasks c t) = TS_ended" and st: "st \<noteq> ES_running"
  defines "s1 \<equiv> upd_tracker x (complete st rv) s"
  shows "(end_task_notify t x st s1 = None \<and> end_parks t st c) \<or>
    (\<exists>s4 G' c'. end_task_notify t x st s1 = Some s4 \<and> ending t G' c' s4 \<and> join_inv (view c') \<and> k_harts c' = k_harts c)"
proof -
  have ut: "k_task_slots_used c t" using exempt_task(1) [OF Q] by simp
  note R = sim_reads [OF S] and f = complete_facts [OF I ut t(1)]
  note jc = join_inv_complete [where st = st and rv = rv, OF J f(1,2) t(2)]
  have par: "tt_parent (k_trackers s1 x) = tt_parent (k_trackers c x)" by (simp add: s1_def complete_def R)
  have cz: "crashed_zombie (upd_tracker x (complete st rv) c) \<Longrightarrow> st \<noteq> ES_crashed \<Longrightarrow> crashed_zombie c"
    by (auto simp: crashed_zombie_def complete_def split: if_splits)
  have rm: "(remove_tracker_locked x s1 = None \<and> tt_parent (k_trackers c x) = None \<and> (st \<noteq> ES_crashed \<longrightarrow> crashed_zombie c)) \<or>
      (\<exists>s4 G' c'. remove_tracker_locked x s1 = Some s4 \<and> ending t G' c' s4 \<and> join_inv (view c') \<and> k_harts c' = k_harts c)"
    using ending_removed [OF S Q I t(1), of st rv] jc(2) cz unfolding s1_def by (elim disjE exE conjE) fastforce+
  show ?thesis
  proof (cases "t_detached (k_tasks c t) \<or> tt_parent (k_trackers c x) = None")
    case True
    then have "end_task_notify t x st s1 = (if st = ES_crashed then None else remove_tracker_locked x s1)"
      unfolding end_task_notify_def par Let_def by (elim disjE) (simp_all add: s1_def R)
    with True rm t(1) show ?thesis by (auto simp: end_parks_def)
  next
    case False
    then obtain p where p: "tt_parent (k_trackers c x) = Some p" and nd: "\<not> t_detached (k_tasks c t)" by auto
    have up: "k_tracker_slots_used c p" "p \<noteq> x" using tree_invD(4) [OF I, of x p] f(1) p by auto
    have w: "tt_wait (k_trackers s1 p) = tt_wait (k_trackers c p)" "tt_task (k_trackers s1 p) = tt_task (k_trackers c p)"
      "t_detached (k_tasks s1 t) = t_detached (k_tasks c t)" "t_tid (k_tasks s1 t) = t_tid (k_tasks c t)"
      using up(2) by (simp_all add: s1_def R)
    let ?w = "wi_tid (tt_wait (k_trackers c p))"
    show ?thesis
    proof (cases "wi_active (tt_wait (k_trackers c p)) \<and> (?w <s 0 \<or> ?w = t_tid (k_tasks c t))")
      case False
      then have "end_task_notify t x st s1 = Some s1"
        using nd by (auto simp: end_task_notify_def par p Let_def w)
      moreover have "ending t G (upd_tracker x (complete st rv) c) s1"
        unfolding s1_def by (rule ending_kept [OF S Q I t(1) _ st]) (simp add: p)
      moreover have "k_harts (upd_tracker x (complete st rv) c) = k_harts c" by simp
      ultimately show ?thesis using jc(1) by blast
    next
      case True
      then obtain pt where pt: "tt_task (k_trackers c p) = Some pt" "k_task_slots_used c pt" "t_tracker (k_tasks c pt) = Some p"
        "t_state (k_tasks c pt) = TS_blocked_join" using waiting_parent [OF I J up(1)] by blast
      obtain s3 s4 G' c' where e: "remove_tracker_locked x (set_task_x pt 10 (t_tid (k_tasks c t)) (upd_tracker p stop_wait s1)) = Some s3"
        "tt_task (k_trackers s3 p) = Some pt" "deref_scheduler pt s3 = Some ()" "Scheduler_add_task pt s3 = (True, s4)"
        "ending t G' c' s4" "join_inv (view c')" "k_harts c' = k_harts c"
        using ending_wake [OF S Q I J t p _ pt] True unfolding s1_def by blast
      then have "end_task_notify t x st s1 = Some s4"
        using nd True pt(1) by (auto simp: end_task_notify_def par p Let_def w)
      then show ?thesis using e by blast
    qed
  qed
qed


lemma end_task_ok:
  assumes S: "sim G c s" and K: "kinv {} G (view c)" and cur: "hl_current_task (k_harts c h) = Some t"
    and idle: "\<not> t_idle (k_tasks c t)" and st: "st \<noteq> ES_running"
  shows "(end_task h t rv st s = None \<and> end_parks t st c) \<or> (\<exists>s'. end_task h t rv st s = Some s' \<and> ok_at h s')"
proof -
  note R = sim_reads [OF S] and cf = current_facts [OF K cur]
  let ?e = "\<lambda>r. r\<lparr>t_state := TS_ended\<rparr>"
  let ?c1 = "upd_task t ?e c" and ?s1 = "upd_task t ?e s" and ?u = "next_task h G (upd_task t ?e c)"
  have S1: "sim G ?c1 ?s1" by (rule sim_upd_task [OF S]) (simp add: task_safe_def erase_task_def)
  have v1: "view ?c1 = put t TS_ended False False False (v_deadline (view c) t) (view c)"
    using cf by (subst view_upd_task) simp_all
  have Q0: "qinv {h} {t} G (view c)" using qinv_leave [OF kinvD(1) [OF K], of h t] cur idle by simp
  have Q1: "qinv {h} {t} G (view ?c1)" unfolding v1 by (rule qinv_set_state [OF Q0]) simp
  have h1: "h < k_present_count ?c1" using cf(4) by simp
  note N = next_task_facts [OF S1 Q1 h1]
  obtain ticks r s2 where n: "Scheduler_set_next_runnable h ?s1 = Some (?u, s2)"
    "sim (deq_rq Global_rq G) (switch_to h ?u ticks r ?c1) s2"
    using set_next_sim [OF S1 Q1 h1] by blast
  let ?c2 = "switch_to h ?u ticks r ?c1"
  have v2: "view ?c2 = run_on h ?u (view ?c1)" by (rule view_switch_to [OF N(3,4)])
  have "join_inv (view ?c1)" unfolding v1 using kinvD(3) [OF K] cf(2) by (intro join_inv_put) simp_all
  then have J2: "join_inv (view ?c2)" unfolding v2 using N(5) by (intro join_inv_run_on) auto
  have I2: "tree_inv (view ?c2)" unfolding v2 v1 using kinvD(2) [OF K] by simp
  have Q2: "qinv {} {t} (deq_rq Global_rq G) (view ?c2)" unfolding v2 by (rule N(6))
  obtain x where x: "t_tracker (k_tasks c t) = Some x" by (rule current_tracker [OF K cur])
  have ut: "?u \<noteq> t" using N(2) by blast
  then have t2: "k_tasks ?c2 t = ?e (k_tasks c t)" and tr2: "k_trackers ?c2 = k_trackers c"
    "k_tracker_slots_used ?c2 = k_tracker_slots_used c" by (simp_all add: switch_to_def)
  have t2': "t_tracker (k_tasks ?c2 t) = Some x" "t_state (k_tasks ?c2 t) = TS_ended" using t2 x by simp_all
  have parks: "end_parks t st ?c2 = end_parks t st c" by (simp add: end_parks_def t2 tr2 crashed_zombie_def)
  have d: "deref_scheduler t ?s1 = Some ()" using cf(1) by (intro deref_scheduler_ok [OF S1 Q1]) simp
  have eq: "end_task h t rv st s = end_task_notify t x st (upd_tracker x (complete st rv) s2) \<bind> release_task_locked t"
    using cur d n(1) t2' by (simp add: end_task_def get_current_task_def R(35) sim_reads [OF n(2)] complete_def [abs_def])
  from notify_ok [OF n(2) Q2 I2 J2 t2' st, of rv] show ?thesis
  proof (elim disjE exE conjE)
    fix s4 G' c' assume e: "end_task_notify t x st (upd_tracker x (complete st rv) s2) = Some s4" "ending t G' c' s4"
      "join_inv (view c')" "k_harts c' = k_harts ?c2"
    then obtain c5 s5 where "release_task_locked t s4 = Some s5" "sim G' c5 s5" "kinv {} G' (view c5)" "k_harts c5 = k_harts c'"
      using end_release [of G' c' s4 "{}" t] unfolding ending_def by blast
    then show ?thesis using e eq by (auto simp: switch_to_def intro!: ok_atI [of G' c5])
  qed (use eq parks in auto)
qed

lemma sys_end_ok:
  assumes S: "sim G c s" and K: "kinv {} G (view c)" and cur: "hl_current_task (k_harts c h) = Some t"
    and idle: "\<not> t_idle (k_tasks c t)"
  shows "lands h (sys_end h t s) \<or> (sys_end h t s = None \<and> end_parks t ES_exited_clean c)"
proof -
  let ?b = "t_tid (k_tasks s t) \<noteq> initial_task_id s \<and> task_x t 10 s = JIXIA_M00_08_CHILD_ARGUMENT \<and> \<not> g_end_reported (k_reported s)"
  let ?u = "\<lambda>s. upd_reported (\<lambda>f. f\<lparr>g_end_reported := True\<rparr>) (printk (''M00_08_TASK_END: PASS'' @ nl) [] s)"
  define f where "f s' = (if ?b then ?u s' else s')" for s'
  have inv: "sim G (f c) (f s)" "view (f c) = view c" "k_tasks (f c) = k_tasks c" "k_harts (f c) = k_harts c"
    "k_trackers (f c) = k_trackers c" "k_tracker_slots_used (f c) = k_tracker_slots_used c"
    using S sim_other(6) [OF sim_other(2) [OF S]] by (simp_all add: f_def upd_reported_def sim_reads [OF S] view_quiet)
  have "end_parks t ES_exited_clean (f c) = end_parks t ES_exited_clean c"
    by (simp add: end_parks_def crashed_zombie_def inv)
  moreover have "(end_task h t (task_x t 10 s) ES_exited_clean (f s) = None \<and> end_parks t ES_exited_clean (f c)) \<or>
      (\<exists>s'. end_task h t (task_x t 10 s) ES_exited_clean (f s) = Some s' \<and> ok_at h s')"
    by (rule end_task_ok [OF inv(1)]) (use K cur idle inv in simp_all)
  moreover have "ok_at h s' \<Longrightarrow> ok_at h (if b then printk fmt args s' else s')" for b fmt args s'
    by (simp add: ok_at_quiet)
  ultimately show ?thesis
    unfolding sys_end_def Let_def f_def [symmetric] by (elim disjE exE conjE) simp_all
qed

lemma sys_invalid_ok:
  assumes S: "sim G c s" and K: "kinv {} G (view c)" and cur: "hl_current_task (k_harts c h) = Some t"
    and idle: "\<not> t_idle (k_tasks c t)"
  shows "lands h (sys_invalid h t n s) \<or> (sys_invalid h t n s = None \<and> end_parks t ES_crashed c)"
proof -
  define f where "f = printk (''Invalid task syscall: %lu'' @ nl) [Arg_word n]"
  have inv: "sim G (f c) (f s)" "view (f c) = view c" "k_tasks (f c) = k_tasks c" "k_harts (f c) = k_harts c"
    using sim_other(2) [OF S] by (simp_all add: f_def view_quiet)
  have p: "end_parks t ES_crashed (f c) = end_parks t ES_crashed c"
    by (simp add: f_def end_parks_def crashed_zombie_def)
  have "(end_task h t 0 ES_crashed (f s) = None \<and> end_parks t ES_crashed (f c)) \<or>
      (\<exists>s'. end_task h t 0 ES_crashed (f s) = Some s' \<and> ok_at h s')"
    by (rule end_task_ok [OF inv(1)]) (use K cur idle inv in simp_all)
  then show ?thesis
    unfolding p sys_invalid_def f_def [symmetric] by auto
qed

end
