(* ===== verification/Trap_Dispatch.thy ===== *)
theory Trap_Dispatch
  imports Task_Syscall
begin

text \<open>
  The trap dispatcher of \<^verbatim>\<open>src/microkernel/core/trap.cpp\<close> and the breakpoint decoder of
  \<^verbatim>\<open>src/microkernel/arch/riscv/instruction_decode.{h,cpp}\<close>.  A trap is offered to the system-call
  handler, the timer handler and the breakpoint recovery in this order; a trap nobody handles is
  fatal.
\<close>

section \<open>Recognising breakpoint instructions\<close>

datatype instruction_length = IL_unsupported | IL_bytes_2 | IL_bytes_4

datatype breakpoint_instruction = BI_none | BI_compressed | BI_standard

record breakpoint_decode =
  bd_instruction :: breakpoint_instruction
  bd_length :: instruction_length

definition recognized :: "breakpoint_decode \<Rightarrow> bool" where
  "recognized d \<longleftrightarrow> bd_instruction d \<noteq> BI_none"

definition compressed_ebreak_encoding :: u16 where
  "compressed_ebreak_encoding = 0x9002"

definition standard_ebreak_encoding :: u32 where
  "standard_ebreak_encoding = 0x00100073"

definition decode_instruction_length :: "u16 \<Rightarrow> instruction_length" where
  "decode_instruction_length first_parcel =
     (if first_parcel AND 0x3 \<noteq> 0x3 then IL_bytes_2
      else if first_parcel AND 0x1F \<noteq> 0x1F then IL_bytes_4
      else IL_unsupported)"

definition instruction_length_bytes :: "instruction_length \<Rightarrow> u64" where
  "instruction_length_bytes len =
     (case len of IL_unsupported \<Rightarrow> 0 | IL_bytes_2 \<Rightarrow> 2 | IL_bytes_4 \<Rightarrow> 4)"

definition load_little_endian_u16 :: "(u64 \<Rightarrow> u8) \<Rightarrow> u64 \<Rightarrow> u16" where
  "load_little_endian_u16 mem address = ucast (mem address) OR push_bit 8 (ucast (mem (address + 1)))"

definition decode_breakpoint_at :: "(u64 \<Rightarrow> u8) \<Rightarrow> u64 \<Rightarrow> breakpoint_decode" where
  "decode_breakpoint_at mem pc =
     (let first_parcel = load_little_endian_u16 mem pc;
          len = decode_instruction_length first_parcel
      in if len = IL_bytes_2 then
           \<lparr>bd_instruction = (if first_parcel = compressed_ebreak_encoding then BI_compressed else BI_none),
            bd_length = len\<rparr>
         else if len = IL_bytes_4 then
           let second_parcel = load_little_endian_u16 mem (pc + 2);
               instruction = (ucast first_parcel OR push_bit 16 (ucast second_parcel) :: u32)
           in \<lparr>bd_instruction = (if instruction = standard_ebreak_encoding then BI_standard else BI_none),
               bd_length = len\<rparr>
         else \<lparr>bd_instruction = BI_none, bd_length = IL_unsupported\<rparr>)"

section \<open>Dispatch\<close>

definition try_recover_breakpoint :: "trap_frame \<Rightarrow> kst \<Rightarrow> bool \<times> trap_frame" where
  "try_recover_breakpoint frame s =
     (if \<not> is_exception_code (tf_mcause frame) 3 then (False, frame)
      else let decoded = decode_breakpoint_at (ms_mem (k_ms s)) (tf_mepc frame)
        in if \<not> recognized decoded then (False, frame)
           else (True, frame\<lparr>tf_mepc := tf_mepc frame + instruction_length_bytes (bd_length decoded)\<rparr>))"

text \<open>
  The report of a fatal trap; the hart then waits for interrupts for ever.  The address of the
  frame is a parameter.
\<close>

definition fatal :: "u64 \<Rightarrow> trap_frame \<Rightarrow> kst \<Rightarrow> kst" where
  "fatal frame_address frame s =
     printk (nl @ ''[Jixia][Microkernel][fatal trap]'' @ nl @ ''frame     : %p'' @ nl @ ''kind      : %s'' @ nl @
         ''mstatus   : %p'' @ nl @ ''mcause    : %p'' @ nl @ ''code      : %lu'' @ nl @ ''mepc      : %p'' @ nl @
         ''mtval     : %p'' @ nl @ ''saved sp  : %p'' @ nl @ ''saved ra  : %p'' @ nl)
       [Arg_word frame_address,
        Arg_text (Some (if cause_is_interrupt (tf_mcause frame) then ''interrupt'' else ''exception'')),
        Arg_word (tf_mstatus frame), Arg_word (tf_mcause frame), Arg_word (cause_code (tf_mcause frame)),
        Arg_word (tf_mepc frame), Arg_word (tf_mtval frame), Arg_word (tf_x frame 2), Arg_word (tf_x frame 1)] s"

text \<open>
  \<open>None\<close>: the hart parked inside a handler.  \<open>Inl\<close>: the trap was fatal.  \<open>Inr\<close>: the dispatcher
  returned with a frame to resume.
\<close>

definition dispatch :: "image \<Rightarrow> nat \<Rightarrow> u64 \<Rightarrow> trap_frame \<Rightarrow> kst \<Rightarrow> (kst + trap_frame \<times> kst) option" where
  "dispatch im h frame_address frame s = do {
     (handled1, frame1, s1) \<leftarrow> try_handle im h frame s;
     if handled1 then Some (Inr (frame1, s1))
     else do {
       (handled2, frame2, s2) \<leftarrow> try_handle_machine_timer_interrupt h frame1 s1;
       if handled2 then Some (Inr (frame2, s2))
       else let (handled3, frame3) = try_recover_breakpoint frame2 s2 in
         if handled3 then Some (Inr (frame3, s2)) else Some (Inl (fatal frame_address frame2 s2))
     }
   }"

end
