(* ===== verification/Kernel_Boot.thy ===== *)
theory Kernel_Boot
  imports Task_Syscall
begin

text \<open>
  Bringing up the executive: the hart table (\<^verbatim>\<open>src/microkernel/core/hart.cpp\<close>), the CPU manager
  (\<^verbatim>\<open>cpu_manager.cpp\<close>) and the bootstrap sequence of \<^verbatim>\<open>kernel.cpp\<close>, in the build without the
  M00-08.02 and M00-08.03 probes.  A hart that parks is \<open>None\<close>; a bootstrap that reaches
  \<^verbatim>\<open>jixia_task_enter_first\<close> returns the frame and the address-space register it enters with.
\<close>

section \<open>Harts\<close>

definition kBootStackSize :: u64 where
  "kBootStackSize = 16384"

definition kTrapStackSize :: u64 where
  "kTrapStackSize = 4096"

definition hart_initialize :: "image \<Rightarrow> u64 \<Rightarrow> nat \<Rightarrow> hart_role \<Rightarrow> kst \<Rightarrow> kst option" where
  "hart_initialize im hart_id index role s =
     (if index \<ge> kMaxHarts then None
      else let stack_base = im_hart_stacks im + of_nat index * kBootStackSize;
               trap_stack_base = im_hart_trap_stacks im + of_nat index * kTrapStackSize
        in Some (upd_hart index (\<lambda>l. l\<lparr>hl_hart_id := hart_id, hl_index := of_nat index, hl_role := role,
             hl_machine_timer_interrupt_count := 0, hl_trap_entry_sp := 0, hl_trap_entry_t1 := 0,
             hl_trap_active := 0, hl_trap_reserved := 0, hl_current_task := None, hl_scheduler := False,
             hl_scheduler_extra := None, hl_delay_list := None, hl_idle_task := None,
             hl_timeslice_ticks := 0, hl_scheduler_preemption_count := 0,
             hl_stack_bottom := stack_base, hl_stack_top := stack_base + kBootStackSize,
             hl_trap_stack_bottom := trap_stack_base, hl_trap_stack_top := trap_stack_base + kTrapStackSize,
             hl_state := HS_online\<rparr>) s))"

definition all_online :: "nat \<Rightarrow> kst \<Rightarrow> bool" where
  "all_online expected_count s \<longleftrightarrow> expected_count \<noteq> 0 \<and> expected_count \<le> kMaxHarts \<and>
     list_all (\<lambda>index. hl_state (k_harts s index) = HS_online) [0..<expected_count]"

section \<open>The CPU manager\<close>

fun initialize_harts :: "image \<Rightarrow> nat \<Rightarrow> nat list \<Rightarrow> kst \<Rightarrow> (bool \<times> kst) option" where
  "initialize_harts im h [] s = Some (True, s)"
| "initialize_harts im h (i # is) s = do {
     s1 \<leftarrow> Scheduler_bind_hart i s;
     let (ok, s2) = TimeManager_initialize_hart i s1;
     if \<not> ok then Some (False, s2)
     else do {
       (idle, s3) \<leftarrow> create_idle_task im h i s2;
       case idle of
         None \<Rightarrow> Some (False, s3)
       | Some t \<Rightarrow> initialize_harts im h is
           (upd_hart i (\<lambda>l. l\<lparr>hl_idle_task := Some t, hl_current_task := None\<rparr>) s3)
     }
   }"

definition CpuManager_initialize :: "image \<Rightarrow> nat \<Rightarrow> nat \<Rightarrow> kst \<Rightarrow> (bool \<times> kst) option" where
  "CpuManager_initialize im h present_count s =
     (if present_count = 0 \<or> present_count > kMaxHarts then Some (False, s)
      else do {
        (ok, s1) \<leftarrow> initialize_harts im h [0..<present_count] s;
        if ok then Some (True, s1\<lparr>k_present_count := present_count\<rparr>) else Some (False, s1)
      })"

section \<open>The bootstrap sequence\<close>

definition memory_bootstrap :: "image \<Rightarrow> kst \<Rightarrow> bool \<times> kst" where
  "memory_bootstrap im s =
     (let (ok, ms1) = add_contained_bootstrap_pool (im_pool_start im) (im_pool_end im) (pm_reset (k_ms s)) in
      if \<not> ok then (False, s\<lparr>k_ms := ms1\<rparr>)
      else let (ok', v, ms2) = Vmm_initialize (im_user_text_start im) (im_user_text_end im) (k_vmm s, ms1)
        in (ok', s\<lparr>k_vmm := v, k_ms := ms2\<rparr>))"

definition cpu_bootstrap :: "image \<Rightarrow> nat \<Rightarrow> nat \<Rightarrow> kst \<Rightarrow> (bool \<times> kst) option" where
  "cpu_bootstrap im h present_count s =
     (let (ok, s1) = TaskManager_initialize im (Scheduler_initialize (TimeManager_initialize s)) in
      if \<not> ok then Some (False, s1) else CpuManager_initialize im h present_count s1)"

text \<open>
  \<^verbatim>\<open>ipc_bootstrap\<close> constructs the endpoint manager: no slot is allocated and every endpoint is
  value-initialised.
\<close>

definition zero_endpoint :: endpoint where
  "zero_endpoint = \<lparr>ep_active = False, ep_retired = False, ep_generation = 0, ep_owner = 0, ep_head = 0,
     ep_count = 0, ep_queue = (\<lambda>_. zero_message), ep_waiting_head = None, ep_waiting_tail = None,
     ep_waiting_count = 0\<rparr>"

definition EndpointManager_construct :: "kst \<Rightarrow> kst" where
  "EndpointManager_construct s = s\<lparr>k_slot_allocated := (\<lambda>_. False), k_endpoints := (\<lambda>_. zero_endpoint)\<rparr>"

definition ipc_bootstrap :: "kst \<Rightarrow> kst" where
  "ipc_bootstrap s = EndpointManager_construct s"

definition init_task_bootstrap :: "image \<Rightarrow> nat \<Rightarrow> kst \<Rightarrow> (bool \<times> kst) option" where
  "init_task_bootstrap im h s = do {
     (initial, s1) \<leftarrow> create_task im h (im_user_init_task im) 0 (vm_boot_address_space (k_vmm s)) 0 True s;
     case initial of
       None \<Rightarrow> Some (False, s1)
     | Some t \<Rightarrow> do {
         s2 \<leftarrow> set_current_task h t (set_initial_task t s1);
         Some (True, s2)
       }
   }"

definition prepare_first_user_dispatch :: "nat \<Rightarrow> kst \<Rightarrow> kst" where
  "prepare_first_user_dispatch h s = s\<lparr>k_csr := (k_csr s)(h := (k_csr s h)\<lparr>
     csr_mstatus := csr_mstatus (k_csr s h) AND NOT 8, csr_mtie := False, csr_medeleg := 0,
     csr_mideleg := 0, csr_pmpaddr0 := - 1, csr_pmpcfg0 := 0x1f\<rparr>)\<rparr>"

definition zero_frame :: trap_frame where
  "zero_frame = \<lparr>tf_x = (\<lambda>_. 0), tf_mstatus = 0, tf_mepc = 0, tf_mcause = 0, tf_mtval = 0\<rparr>"

definition dispatch_task :: "nat \<Rightarrow> kst \<Rightarrow> (trap_frame \<times> u64 \<times> kst) option" where
  "dispatch_task h s = do {
     current \<leftarrow> get_current_task h s;
     (frame, s1) \<leftarrow> restore_current_context h zero_frame s;
     s2 \<leftarrow> arm_current_timeslice h (prepare_first_user_dispatch h s1);
     let s3 = (if hl_role (k_harts s2 h) = HR_boot then printk (''M00_08_TASK_DISPATCH: PASS'' @ nl) [] s2 else s2);
     Some (frame, ctx_satp (t_context (k_tasks s3 current)), s3)
   }"

definition secondary_bootstrap :: "nat \<Rightarrow> kst \<Rightarrow> (trap_frame \<times> u64 \<times> kst) option" where
  "secondary_bootstrap h s =
     (let local = k_harts s h in
      if hl_role local \<noteq> HR_secondary \<or> \<not> hl_scheduler local \<or> hl_idle_task local = None then None
      else do {
        (_, s1) \<leftarrow> Scheduler_set_next_runnable h s;
        dispatch_task h s1
      })"

text \<open>The releasing store to the waiting harts, \<^verbatim>\<open>jixia_release_executive_harts\<close>, is assembly.\<close>

definition bootstrap :: "image \<Rightarrow> nat \<Rightarrow> nat \<Rightarrow> kst \<Rightarrow> (trap_frame \<times> u64 \<times> kst) option" where
  "bootstrap im h present_count s = do {
     let s1 = upd_hart h (\<lambda>l. l\<lparr>hl_current_task := None\<rparr>) s;
     let (ok2, s2) = memory_bootstrap im s1;
     park_unless ok2;
     (ok3, s3) \<leftarrow> cpu_bootstrap im h present_count s2;
     park_unless ok3;
     (ok4, s4) \<leftarrow> init_task_bootstrap im h (ipc_bootstrap s3);
     park_unless ok4;
     dispatch_task h (printk (nl @ ''%s'' @ nl @ ''cpp         : ready'' @ nl @
         ''boot data   : QEMU handoff phase (dummy)'' @ nl @
         ''page manager: contained bootstrap pool'' @ nl @
         ''heap manager: fixed task storage (dynamic heap deferred)'' @ nl @
         ''vmm         : shared bootstrap Sv39 root'' @ nl @ ''scheduler   : %s'' @ nl @ ''time        : %s'' @ nl @
         ''task model  : tracker/wait/detach/idle'' @ nl @
         ''platform    : status publication phase (dummy)'' @ nl @
         ''debug       : pointer registry phase (dummy)'' @ nl @ ''M00_08_HOSTBOOT_BOOTSTRAP: PASS'' @ nl)
       [Arg_text (Some ''[Jixia][M00-08.01][HostbootTaskFoundation]''),
        Arg_text (Some ''global FIFO + per-hart affinity queue + mtime preemption''),
        Arg_text (Some ''per-hart sleep queue + deadline-aware idle slice'')] s4)
   }"

end
