(* ===== verification/Kernel_Steps.thy ===== *)
theory Kernel_Steps
  imports Task_End Trap_Dispatch Kernel_Boot
begin

text \<open>
  The executive as a transition system.  A state is well formed (\<open>kernel_ok\<close>) when the linked
  structures spell lists and the kernel invariant holds.  Every trap the dispatcher returns from,
  and every hart that enters the executive, leads to a well-formed state; the only system calls
  that park are the fail-closed ends of a task.
\<close>

section \<open>Well-formed kernel states\<close>

definition kernel_ok :: "kst \<Rightarrow> bool" where
  "kernel_ok s \<longleftrightarrow> (\<exists>G c. sim G c s \<and> kinv {} G (view c))"

lemma ok_at_iff: "ok_at h s \<longleftrightarrow> kernel_ok s \<and> hl_current_task (k_harts s h) \<noteq> None"
  unfolding ok_at_def kernel_ok_def by (metis sim_reads(35) view_simps(18))

lemma end_parks_sim: "sim G c s \<Longrightarrow> end_parks t st c = end_parks t st s"
  by (simp add: end_parks_def crashed_zombie_def sim_reads)

section \<open>System calls\<close>

definition defined_calls :: "u64 set" where
  "defined_calls = {0, 1, 2, 3, 4, 5, 6, 7, 8, 9, 10, 11, 12}"

definition exit_kind :: "u64 \<Rightarrow> exit_status" where
  "exit_kind number = (if number = 2 then ES_exited_clean else ES_crashed)"

lemma sys_dispatch_ok:
  assumes S: "sim G c s" and K: "kinv {} G (view c)" and cur: "hl_current_task (k_harts c h) = Some t"
    and idle: "t_idle (k_tasks c t) \<longrightarrow> n = 0" and tid: "k_next_tid c \<noteq> UINT64_MAX"
  shows "lands h (sys_dispatch im h t n s) \<or>
    (sys_dispatch im h t n s = None \<and> (n = 2 \<or> n \<notin> defined_calls) \<and> end_parks t (exit_kind n) c)"
proof -
  note ok = ok_atI [OF S K cur]
  have cur': "hl_current_task (k_harts s h) = Some t" using cur by (simp add: sim_reads [OF S])
  have res: "lands h (Some (sys_reserved t s))" by (simp add: sys_reserved_def ok_at_quiet ok)
  show ?thesis
  proof (cases "n = 0")
    case True
    then show ?thesis using sys_yield_ok [OF S K cur] by (simp add: sys_dispatch_def)
  next
    case False
    then have ni: "\<not> t_idle (k_tasks c t)" using idle by blast
    note ops = sys_create_ok [OF S K cur tid] sys_end_ok [OF S K cur ni] sys_wait_ok [OF S K cur ni]
      sys_detach_ok [OF ok cur'] sys_sleep_ok [OF S K cur ni] sys_endpoint_create_ok [OF ok] sys_endpoint_destroy_ok [OF ok]
      sys_send_ok [OF ok] sys_try_recv_ok [OF ok] sys_recv_ok [OF S K cur ni] res
    show ?thesis
    proof (cases "n \<in> defined_calls")
      case True
      then show ?thesis
        unfolding defined_calls_def insert_iff empty_iff
        by (elim disjE) (use False ops in \<open>simp_all add: sys_dispatch_def exit_kind_def\<close>)
    next
      case undef: False
      then have "sys_dispatch im h t n s = sys_invalid h t n s" and "n \<noteq> 2"
        by (simp_all add: sys_dispatch_def defined_calls_def)
      then show ?thesis
        using undef sys_invalid_ok [OF S K cur ni, of n] by (simp add: exit_kind_def)
    qed
  qed
qed

section \<open>Traps\<close>

text \<open>The state after saving the frame and stepping over the \<^verbatim>\<open>ecall\<close>.\<close>

definition syscall_context :: "nat \<Rightarrow> trap_frame \<Rightarrow> kst \<Rightarrow> task_context \<Rightarrow> task_context" where
  "syscall_context h frame s c =
     (let c' = save_from_trap (csr_satp (k_csr s h)) frame c in c'\<lparr>ctx_mepc := ctx_mepc c' + 4\<rparr>)"

definition enter_syscall :: "nat \<Rightarrow> trap_frame \<Rightarrow> nat \<Rightarrow> kst \<Rightarrow> kst" where
  "enter_syscall h frame t s = upd_task t (\<lambda>x. x\<lparr>t_context := syscall_context h frame s (t_context x)\<rparr>) s"

lemma invisible_enter: "invisible (\<lambda>s'. upd_task t (\<lambda>x. x\<lparr>t_context := syscall_context h frame s (t_context x)\<rparr>) s')"
  by (rule invisible_context)

lemma enter_syscall_ok: "ok_at h s \<Longrightarrow> ok_at h (enter_syscall h frame t s)"
  unfolding enter_syscall_def by (rule ok_at_invisible [OF invisible_enter])

lemma enter_syscall_simps [simp]:
  "k_harts (enter_syscall h frame t s) = k_harts s" "k_next_tid (enter_syscall h frame t s) = k_next_tid s"
  "t_idle (k_tasks (enter_syscall h frame t s) u) = t_idle (k_tasks s u)"
  "end_parks u st (enter_syscall h frame t s) = end_parks u st s"
  by (simp_all add: enter_syscall_def end_parks_def crashed_zombie_def)

lemma syscall_number: "task_x t 17 (enter_syscall h frame t s) = tf_x frame 17"
  by (simp add: enter_syscall_def task_x_def syscall_context_def save_from_trap_def Let_def)

definition is_user_ecall :: "trap_frame \<Rightarrow> bool" where
  "is_user_ecall frame \<longleftrightarrow> is_exception_code (tf_mcause frame) 8 \<and> tf_mstatus frame AND kMstatusMppMask = 0"

lemma try_handle_ecall:
  assumes "is_user_ecall frame" and "hl_current_task (k_harts s h) = Some t"
  shows "try_handle im h frame s = do {
     (b, s3) \<leftarrow> sys_dispatch im h t (tf_x frame 17) (enter_syscall h frame t s);
     (frame', s4) \<leftarrow> leave_syscall h frame b s3;
     Some (True, frame', s4) }"
proof -
  have "upd_task t (\<lambda>x. x\<lparr>t_context := (t_context x)\<lparr>ctx_mepc := ctx_mepc (t_context x) + 4\<rparr>\<rparr>)
      (upd_task t (\<lambda>r. r\<lparr>t_context := save_from_trap (csr_satp (k_csr s h)) frame (t_context r)\<rparr>) s) = enter_syscall h frame t s"
    by (intro kst.equality) (simp_all add: enter_syscall_def syscall_context_def Let_def)
  then show ?thesis
    using assms by (simp add: try_handle_def is_user_ecall_def get_current_task_def save_current_context_def Let_def syscall_number)
qed


lemma try_handle_ok:
  assumes ok: "ok_at h s" and cur: "hl_current_task (k_harts s h) = Some t" and ecall: "is_user_ecall frame"
    and idle: "t_idle (k_tasks s t) \<longrightarrow> tf_x frame 17 = 0" and tid: "k_next_tid s \<noteq> UINT64_MAX"
  shows "(\<exists>frame' s'. try_handle im h frame s = Some (True, frame', s') \<and> ok_at h s') \<or>
    (try_handle im h frame s = None \<and> (tf_x frame 17 = 2 \<or> tf_x frame 17 \<notin> defined_calls) \<and>
     end_parks t (exit_kind (tf_x frame 17)) s)"
proof -
  let ?s = "enter_syscall h frame t s"
  from enter_syscall_ok [OF ok, of frame t] obtain G c t' where g: "sim G c ?s" "kinv {} G (view c)"
    "hl_current_task (k_harts c h) = Some t'" by (rule ok_atE)
  note R = sim_reads [OF g(1), symmetric]
  have t': "t' = t" using g(3) cur by (simp add: R)
  have "t_idle (k_tasks c t') \<longrightarrow> tf_x frame 17 = 0" "k_next_tid c \<noteq> UINT64_MAX"
    using idle tid by (simp_all add: R t')
  from sys_dispatch_ok [OF g this, of im] show ?thesis
  proof (elim disjE conjE)
    assume l: "lands h (sys_dispatch im h t' (tf_x frame 17) ?s)"
    then obtain b s3 where d: "sys_dispatch im h t (tf_x frame 17) ?s = Some (b, s3)" "ok_at h s3"
      unfolding t' by (auto simp: lands_def split: option.splits)
    obtain frame' s4 where "leave_syscall h frame b s3 = Some (frame', s4)" "ok_at h s4"
      using leave_syscall_ok [OF d(2)] by blast
    then show ?thesis using d(1) by (simp add: try_handle_ecall [OF ecall cur])
  qed (simp_all add: try_handle_ecall [OF ecall cur] t' end_parks_sim [OF g(1)])
qed

lemma timer_handle_ok: "ok_at h s \<Longrightarrow> ok_at h (timer_handle_interrupt i s)"
  unfolding timer_handle_interrupt_def timer_disarm_def set_compare_def set_mtie_def Let_def
  by (intro ok_at_invisible [OF invisible_updates(4)] ok_at_invisible [OF invisible_updates(5)]
      ok_at_invisible [OF invisible_updates(8)]) (simp_all add: quiet_hart_def)

lemma try_timer_ok:
  assumes "ok_at h s"
  shows "\<exists>b frame' s'. try_handle_machine_timer_interrupt h frame s = Some (b, frame', s') \<and> ok_at h s'"
proof -
  obtain frame1 s1 where "handle_timer_interrupt h frame (timer_handle_interrupt h s) = Some (frame1, s1)" "ok_at h s1"
    using handle_timer_ok [OF timer_handle_ok [OF assms]] by blast
  with assms timer_handle_ok [OF assms] show ?thesis
    by (auto simp: try_handle_machine_timer_interrupt_def Let_def)
qed

text \<open>The dispatcher as a whole.\<close>

lemma dispatch_ok:
  assumes ok: "ok_at h s" and cur: "hl_current_task (k_harts s h) = Some t"
    and idle: "t_idle (k_tasks s t) \<and> is_user_ecall frame \<longrightarrow> tf_x frame 17 = 0" and tid: "k_next_tid s \<noteq> UINT64_MAX"
  shows "case dispatch im h a frame s of
      None \<Rightarrow> is_user_ecall frame \<and> (tf_x frame 17 = 2 \<or> tf_x frame 17 \<notin> defined_calls) \<and>
        end_parks t (exit_kind (tf_x frame 17)) s
    | Some (Inl s') \<Rightarrow> True
    | Some (Inr (frame', s')) \<Rightarrow> ok_at h s'"
proof (cases "is_user_ecall frame")
  case True
  with idle have "t_idle (k_tasks s t) \<longrightarrow> tf_x frame 17 = 0" by blast
  from try_handle_ok [OF ok cur True this tid, of im] True show ?thesis
    by (auto simp: dispatch_def)
next
  case False
  then have "try_handle im h frame s = Some (False, frame, s)"
    by (auto simp: try_handle_def is_user_ecall_def)
  moreover obtain b frame' s' where "try_handle_machine_timer_interrupt h frame s = Some (b, frame', s')" "ok_at h s'"
    using try_timer_ok [OF ok] by blast
  ultimately show ?thesis by (simp add: dispatch_def split: prod.split)
qed

section \<open>Secondary harts\<close>

lemma kinv_start:
  assumes "kinv {} G (view c)" and "hl_current_task (k_harts c h) = None"
  shows "kinv {h} G (view c)"
proof -
  have "placed {} (view c) t \<Longrightarrow> placed {h} (view c) t" for t
    using assms(2) unfolding placed_def by (elim place_mono) (metis option.distinct(1) singletonD view_simps(18))
  then have "task_inv {h} {} (view c)" "hart_inv {h} {} (view c)"
    using assms(1) unfolding kinv_def qinv_def task_inv_def hart_inv_def by blast+
  then show ?thesis using assms(1) by (simp add: kinv_def qinv_def)
qed

lemma dispatch_task_ok:
  assumes "ok_at h s"
  shows "\<exists>frame satp s'. dispatch_task h s = Some (frame, satp, s') \<and> ok_at h s'"
proof -
  obtain t where t: "hl_current_task (k_harts s h) = Some t" by (rule ok_at_current [OF assms])
  obtain frame s1 where s1: "restore_current_context h zero_frame s = Some (frame, s1)" "ok_at h s1"
    using restore_current_ok [OF assms] by blast
  have "ok_at h (prepare_first_user_dispatch h s1)"
    unfolding prepare_first_user_dispatch_def by (rule ok_at_invisible [OF invisible_updates(4) s1(2)])
  then obtain s2 where "arm_current_timeslice h (prepare_first_user_dispatch h s1) = Some s2" "ok_at h s2"
    using arm_ok by blast
  with t s1(1) show ?thesis
    by (simp add: dispatch_task_def get_current_task_def Let_def ok_at_quiet)
qed

lemma secondary_bootstrap_ok:
  assumes ok: "kernel_ok s" and h: "h < k_present_count s" "hl_current_task (k_harts s h) = None" "hl_role (k_harts s h) = HR_secondary"
  shows "\<exists>frame satp s'. secondary_bootstrap h s = Some (frame, satp, s') \<and> ok_at h s'"
proof -
  from ok obtain G c where g: "sim G c s" "kinv {} G (view c)" by (auto simp: kernel_ok_def)
  note R = sim_reads [OF g(1)] and H = hart_invD [OF qinvD(2) [OF kinvD(1) [OF g(2)]]]
  have hc: "h < k_present_count c" "hl_current_task (k_harts c h) = None" using h by (simp_all add: R)
  have b: "hl_scheduler (k_harts c h)" "hl_idle_task (k_harts c h) \<noteq> None"
    using H(3) [of h] H(4) [of h] hc(1) by (auto simp: hart_bound_def)
  obtain u c2 s2 where n: "Scheduler_set_next_runnable h s = Some (u, s2)" "sim (deq_rq Global_rq G) c2 s2"
    "kinv {} (deq_rq Global_rq G) (view c2)" "hl_current_task (k_harts c2 h) = Some u"
    using reschedule [OF g(1) kinv_start [OF g(2) hc(2)] hc(1)] by auto
  from dispatch_task_ok [OF ok_atI [OF n(2-4)]] n(1) b h(3) show ?thesis
    by (auto simp: secondary_bootstrap_def R Let_def)
qed

section \<open>Executions\<close>

text \<open>
  The steps of the executive.  A hart that runs a task takes a trap: a system call with any
  register contents, a timer interrupt, or a breakpoint.  A hart without a task enters the
  executive.  Between traps user code changes memory, and the hardware changes control registers.
  Two assumptions are guards: the idle task only yields (its code is the loop
  \<^verbatim>\<open>jixia_user_idle_task\<close> of \<^verbatim>\<open>user_task.S\<close>), and fewer than \<open>2\<^sup>6\<^sup>4\<close> task identifiers have been given out.
\<close>

inductive kstep :: "image \<Rightarrow> kst \<Rightarrow> kst \<Rightarrow> bool" for im :: image where
  trap: "hl_current_task (k_harts s h) = Some t \<Longrightarrow>
    (t_idle (k_tasks s t) \<and> is_user_ecall frame \<longrightarrow> tf_x frame 17 = 0) \<Longrightarrow> k_next_tid s \<noteq> UINT64_MAX \<Longrightarrow>
    dispatch im h a frame s = Some (Inr (frame', s')) \<Longrightarrow> kstep im s s'"
| start: "h < k_present_count s \<Longrightarrow> hl_current_task (k_harts s h) = None \<Longrightarrow> hl_role (k_harts s h) = HR_secondary \<Longrightarrow>
    secondary_bootstrap h s = Some (frame, satp, s') \<Longrightarrow> kstep im s s'"
| user: "kstep im s (s\<lparr>k_ms := (k_ms s)\<lparr>ms_mem := m\<rparr>\<rparr>)"
| hardware: "kstep im s (s\<lparr>k_csr := cs\<rparr>)"

lemma kernel_ok_env:
  assumes "kernel_ok s"
  shows "kernel_ok (s\<lparr>k_ms := ms\<rparr>)" "kernel_ok (s\<lparr>k_csr := cs\<rparr>)"
  using assms unfolding kernel_ok_def by (metis sim_other(4,11) view_quiet(5,9))+

lemma kstep_ok:
  assumes "kstep im s s'" and "kernel_ok s"
  shows "kernel_ok s'"
  using assms
proof (induction rule: kstep.induct)
  case (trap s h t frame a frame' s')
  have "ok_at h s" using trap by (simp add: ok_at_iff)
  from dispatch_ok [OF this trap(1,2,3), of im a] trap(4) have "ok_at h s'" by auto
  then show ?case by (simp add: ok_at_iff)
next
  case (start h s frame satp s')
  from secondary_bootstrap_ok [OF start(5,1-3)] start(4) have "ok_at h s'" by auto
  then show ?case by (simp add: ok_at_iff)
qed (simp_all add: kernel_ok_env)

interpretation kern: transition_system "kstep im" kernel_ok for im
  by unfold_locales (rule kstep_ok)

end
