(* ===== verification/Boot_Steps.thy ===== *)
theory Boot_Steps
  imports Kernel_Steps
begin

text \<open>
  The bootstrap establishes the kernel invariant.  From zero-initialised storage the managers are
  initialised, the harts are set up one after the other, each with its idle task, and the initial
  task is created and made current.  The bootstrap reaches user mode whenever the memory phase
  succeeds and the entries of the idle and the initial task lie in the user text.
\<close>

section \<open>The zero-initialised state\<close>

definition cleared :: "kst \<Rightarrow> bool" where
  "cleared s \<longleftrightarrow> k_tasks s = (\<lambda>_. zero_task) \<and> k_trackers s = (\<lambda>_. zero_tracker) \<and>
     k_task_slots_used s = (\<lambda>_. False) \<and> k_tracker_slots_used s = (\<lambda>_. False) \<and> k_root_tasks s = None \<and>
     \<not> k_tm_initialized s \<and> k_run_queues s = (\<lambda>_. empty_rq) \<and> k_delay_queues s = (\<lambda>_. None) \<and>
     \<not> k_time_initialized s \<and> k_slot_allocated s = (\<lambda>_. False) \<and> k_endpoints s = (\<lambda>_. zero_endpoint)"

definition harts_named :: "nat \<Rightarrow> kst \<Rightarrow> bool" where
  "harts_named n s \<longleftrightarrow> (\<forall>i < n. hl_index (k_harts s i) = of_nat i) \<and> (\<forall>i. hl_current_task (k_harts s i) = None)"

definition empty_ghost :: ghost where
  "empty_ghost = \<lparr>g_rq = (\<lambda>_. []), g_dq = (\<lambda>_. []), g_wq = (\<lambda>_. []), g_ch = (\<lambda>_. []), g_out = {}\<rparr>"

lemma empty_ghost_simps [simp]:
  "g_rq empty_ghost q = []" "g_dq empty_ghost h = []" "g_wq empty_ghost e = []" "g_ch empty_ghost p = []" "g_out empty_ghost = {}"
  by (simp_all add: empty_ghost_def)

lemma family_empty: "\<forall>u. \<not> Q u \<Longrightarrow> family P N Q (\<lambda>_. [])"
  by (simp add: family_def)

text \<open>While the harts are set up one after the other, the invariant holds for the first \<open>i\<close>.\<close>

definition boot_inv :: "nat \<Rightarrow> ghost \<Rightarrow> kst \<Rightarrow> bool" where
  "boot_inv i G c \<longleftrightarrow> qinv {} {} G ((view c)\<lparr>v_n := i\<rparr>) \<and> tree_inv (view c) \<and> join_inv (view c) \<and>
     (\<forall>h. hl_current_task (k_harts c h) = None) \<and> same_queues empty_ghost G \<and> k_next_tid c = of_nat (Suc i) \<and>
     card {t. k_task_slots_used c t} = i \<and> card {x. k_tracker_slots_used c x} = i"

lemma v_n_irrelevant [simp]:
  "tree_inv (v\<lparr>v_n := i\<rparr>) = tree_inv v" "join_inv (v\<lparr>v_n := i\<rparr>) = join_inv v"
  by (simp_all add: tree_inv_def join_inv_def)

lemma map_stacks_mem: "\<exists>ok vm m. map_stacks im is s = (ok, with_mem vm m s)"
proof (induction "is" arbitrary: s)
  case Nil
  show ?case by (intro exI [of _ True] exI [of _ "k_vmm s"] exI [of _ "k_ms s"]) simp
next
  case (Cons i "is")
  obtain ok vm m where m: "vmm_map_stack (task_stack im i) kTaskStackSize s = (ok, with_mem vm m s)"
    using mem_ops(2) by blast
  obtain ok' vm' m' where "map_stacks im is (with_mem vm m s) = (ok', with_mem vm' m' (with_mem vm m s))"
    using Cons.IH by blast
  then show ?case using m by (cases ok) auto
qed

lemma resets:
  "fold DelayQueue_reset is s = s\<lparr>k_delay_queues := (\<lambda>h. if h \<in> set is then None else k_delay_queues s h)\<rparr>"
  "fold (\<lambda>i. RunQueue_reset (Local_rq i)) is s =
     s\<lparr>k_run_queues := (\<lambda>q. if q \<in> Local_rq ` set is then empty_rq else k_run_queues s q)\<rparr>"
  by (induction "is" arbitrary: s)
    (auto simp: DelayQueue_reset_def RunQueue_reset_def set_delay_head_def upd_rq_def fun_eq_iff intro!: kst.equality)

text \<open>After the three managers are initialised there are no tasks, no trackers and no harts.\<close>

lemma managers_ready:
  assumes z: "cleared s" and n: "harts_named n s"
    and i: "TaskManager_initialize im (Scheduler_initialize (TimeManager_initialize s)) = (True, s')"
  shows "sim empty_ghost (erase s') s'" "boot_inv 0 empty_ghost (erase s')" "harts_named n s'"
proof -
  let ?s1 = "Scheduler_initialize (TimeManager_initialize s)"
  have s1: "?s1 = s\<lparr>k_time_initialized := True\<rparr>"
    using z by (intro kst.equality) (auto simp: cleared_def Scheduler_initialize_def TimeManager_initialize_def resets RunQueue_reset_def fun_eq_iff)
  obtain vm m where s': "s' = with_mem vm m (s\<lparr>k_time_initialized := True, k_next_tid := 1, k_initial_task_id := 0, k_tm_initialized := True\<rparr>)"
  proof -
    let ?s2 = "s\<lparr>k_time_initialized := True\<rparr>"
    obtain ms where ms: "clear_bytes (im_task_stacks im) (kMaxTasks * unat kTaskStackSize) ?s2 = with_mem (k_vmm ?s2) ms ?s2"
      using mem_ops(1) by blast
    obtain ok vm m where m: "map_stacks im [0..<kMaxTasks] (with_mem (k_vmm ?s2) ms ?s2) = (ok, with_mem vm m (with_mem (k_vmm ?s2) ms ?s2))"
      using map_stacks_mem by blast
    have same: "?s2\<lparr>k_tasks := (\<lambda>i. if i < kMaxTasks then zero_task else k_tasks ?s2 i),
          k_trackers := (\<lambda>i. if i < kMaxTasks then zero_tracker else k_trackers ?s2 i),
          k_task_slots_used := (\<lambda>i. if i < kMaxTasks then False else k_task_slots_used ?s2 i),
          k_tracker_slots_used := (\<lambda>i. if i < kMaxTasks then False else k_tracker_slots_used ?s2 i)\<rparr> = ?s2"
      using z by (intro kst.equality) (auto simp: cleared_def fun_eq_iff)
    show thesis
      using i z unfolding s1 TaskManager_initialize_def Let_def same ms m
      by (intro that [of m vm]) (auto simp: cleared_def split: if_splits intro!: kst.equality)
  qed
  have f: "free (view (erase s')) t" for t using z by (simp add: s' cleared_def)
  show "sim empty_ghost (erase s') s'"
    using z by (intro simI refl)
      (auto simp: s' cleared_def rq_rep_def dq_rep_def wq_rep_def ch_rep_def empty_ghost_def empty_rq_def zero_endpoint_def
        zero_tracker_def intro!: family_empty)
  have "ep_wf False False (erase_ep zero_endpoint)"
    by (simp add: ep_wf_def zero_endpoint_def kEndpointQueueDepth_def)
  then show "boot_inv 0 empty_ghost (erase s')"
    using z n f unfolding boot_inv_def qinv_def task_inv_def hart_inv_def queue_inv_def ep_inv_def tree_inv_def join_inv_def same_queues_def
    by (auto simp: s' cleared_def harts_named_def kMaxHarts_def)
  show "harts_named n s'" using n by (simp add: s' harts_named_def)
qed


section \<open>Setting up one hart\<close>

lemma qinv_add_hart:
  assumes Q: "qinv {} {} G v" and A: "\<forall>u. u \<noteq> t \<longrightarrow> task_at v' u = task_at v u"
    and old: "\<not> v_used v t" "\<forall>h. v_cur v h = None" "\<forall>h. g_dq G h = []" "v_n v < kMaxHarts"
    and new: "v_used v' t" "v_idle v' t" "free v' t" "v_state v' t = TS_ready" "v_cpu v' t = Some (v_n v)" "v_pin v' t = 0" "t < kMaxTasks"
    and harts: "v_cur v' = v_cur v" "v_n v' = Suc (v_n v)" "v_bound v' (v_n v)" "\<forall>h < v_n v. v_bound v' h = v_bound v h"
      "v_idlet v' = (v_idlet v)(v_n v := Some t)" "v_init v' = v_init v" "v_ep v' = v_ep v" "v_slot v' = v_slot v"
  shows "qinv {} {} G v'"
proof (rule qinvI)
  note T = task_invD [OF qinvD(1) [OF Q]] and H = hart_invD [OF qinvD(2) [OF Q]]
  have K: "v_used v' u = v_used v u" "v_state v' u = v_state v u" "v_idle v' u = v_idle v u" "v_q v' u = v_q v u"
    "v_d v' u = v_d v u" "v_m v' u = v_m v u" "v_cpu v' u = v_cpu v u" "v_pin v' u = v_pin v u" if "u \<noteq> t" for u
    using A that by (simp_all add: task_at_def)
  have idlet: "v_idlet v' h = Some u \<longleftrightarrow> (if h = v_n v then u = t else v_idlet v h = Some u)" for h u using harts(5) by auto
  show "task_inv {} {} v'"
  proof (rule task_invI)
    show "u < kMaxTasks \<and> v_pin v' u = 0 \<and> (\<exists>h<v_n v'. v_cpu v' u = Some h)" if "v_used v' u" for u
      using that T(1-3) [of u] K [of u] new harts(2) by (cases "u = t") (auto simp: less_Suc_eq)
    show "free v' u" if "\<not> v_used v' u" for u
      using that T(4) [of u] K [of u] new by (cases "u = t") auto
    show "u \<notin> {} \<and> free v' u \<and> v_state v' u \<in> {TS_ready, TS_running} \<and> (\<exists>h < v_n v'. v_idlet v' h = Some u)"
      if u: "v_used v' u" "v_idle v' u" for u
    proof (cases "u = t")
      case False
      then obtain h where "h < v_n v" "v_idlet v h = Some u" using u T(5) [of u] K [of u] by auto
      then have "\<exists>h < v_n v'. v_idlet v' h = Some u" unfolding idlet harts(2) by (intro exI [of _ h]) auto
      then show ?thesis using u T(5) [of u] K [of u] False by auto
    qed (use new harts(2) idlet in auto)
    show "placed {} v' u" if "v_used v' u" "\<not> v_idle v' u" "u \<notin> {}" for u
      using that T(6) [of u] K [of u] new(2) harts(1) by (cases "u = t") (auto simp: placed_def)
  qed simp
  show "hart_inv {} {} v'"
  proof (rule hart_invI)
    show "v_bound v' h" if "h < v_n v'" for h
      using that harts(2-4) H(3) [of h] by (auto simp: less_Suc_eq)
    show "\<exists>u. v_idlet v' h = Some u \<and> v_used v' u \<and> v_idle v' u \<and> v_cpu v' u = Some h" if h: "h < v_n v'" for h
    proof (cases "h = v_n v")
      case False
      then obtain u where "v_idlet v h = Some u" "v_used v u" "v_idle v u" "v_cpu v u = Some h"
        using H(4) [of h] h harts(2) by auto
      then show ?thesis using K [of u] old(1) idlet False by (intro exI [of _ u]) auto
    qed (use new idlet in auto)
  qed (use H(2) old harts in auto)
  show "queue_inv G v'" "ep_inv G v'"
    using qinvD(3,4) [OF Q] old(3) harts by (simp_all add: queue_inv_def ep_inv_def)
qed

lemma create_card:
  assumes "create_spec owner idle p (Some u) t x v v'" and "finite {t. v_used v t}" "finite {x. v_tused v x}"
  shows "card {t. v_used v' t} = Suc (card {t. v_used v t})" "card {x. v_tused v' x} = Suc (card {x. v_tused v x})"
proof -
  have A: "agree t x v v'" and n: "\<not> v_used v t" "\<not> v_tused v x" "v_used v' t" "v_tused v' x"
    using assms(1) by (simp_all add: create_spec_def)
  have "{t. v_used v' t} = insert t {t. v_used v t}" "{x. v_tused v' x} = insert x {x. v_tused v x}"
    using agree_task(1) [OF A] agree_tracker(1) [OF A] n by auto metis+
  then show "card {t. v_used v' t} = Suc (card {t. v_used v t})" "card {x. v_tused v' x} = Suc (card {x. v_tused v x})"
    using n assms(2,3) by simp_all
qed


section \<open>When creation succeeds\<close>

definition stacks_mapped :: "image \<Rightarrow> vmm_state \<Rightarrow> bool" where
  "stacks_mapped im v \<longleftrightarrow> vm_initialized v \<and>
     (\<forall>i < kMaxTasks. task_stack im i mod kPageSize = 0 \<and> task_stack im i \<in> set (vm_mapped_stack_bases v))"

lemma map_stack_again:
  "stacks_mapped im (k_vmm s) \<Longrightarrow> i < kMaxTasks \<Longrightarrow> vmm_map_stack (task_stack im i) kTaskStackSize s = (True, s)"
  by (simp add: stacks_mapped_def vmm_map_stack_def map_boot_task_stack_def kTaskStackSize_def kPageSize_def)

lemma map_stack_first:
  assumes "vmm_map_stack a kTaskStackSize s = (True, s')"
  shows "a mod kPageSize = 0" "vm_initialized (k_vmm s')" "set (vm_mapped_stack_bases (k_vmm s')) = insert a (set (vm_mapped_stack_bases (k_vmm s)))"
  using assms by (auto simp: vmm_map_stack_def map_boot_task_stack_def split: prod.splits if_splits)

lemma map_stacks_all:
  assumes "map_stacks im is s = (True, s')"
  shows "\<forall>i \<in> set is. task_stack im i mod kPageSize = 0 \<and> task_stack im i \<in> set (vm_mapped_stack_bases (k_vmm s'))"
    "is \<noteq> [] \<Longrightarrow> vm_initialized (k_vmm s')" "set (vm_mapped_stack_bases (k_vmm s)) \<subseteq> set (vm_mapped_stack_bases (k_vmm s'))"
proof -
  have "(\<forall>i \<in> set is. task_stack im i mod kPageSize = 0 \<and> task_stack im i \<in> set (vm_mapped_stack_bases (k_vmm s'))) \<and>
      (is \<noteq> [] \<longrightarrow> vm_initialized (k_vmm s')) \<and> set (vm_mapped_stack_bases (k_vmm s)) \<subseteq> set (vm_mapped_stack_bases (k_vmm s'))"
    using assms
  proof (induction "is" arbitrary: s)
    case (Cons i "is")
    then obtain s1 where s1: "vmm_map_stack (task_stack im i) kTaskStackSize s = (True, s1)" "map_stacks im is s1 = (True, s')"
      by (auto split: prod.splits if_splits)
    note first = map_stack_first [OF s1(1)]
    show ?case using Cons.IH [OF s1(2)] first s1(2) by (cases "is") auto
  qed simp
  then show "\<forall>i \<in> set is. task_stack im i mod kPageSize = 0 \<and> task_stack im i \<in> set (vm_mapped_stack_bases (k_vmm s'))"
    "is \<noteq> [] \<Longrightarrow> vm_initialized (k_vmm s')" "set (vm_mapped_stack_bases (k_vmm s)) \<subseteq> set (vm_mapped_stack_bases (k_vmm s'))"
    by blast+
qed

lemma managers_mapped:
  assumes "\<not> k_tm_initialized s" and "TaskManager_initialize im s = (True, s')"
  shows "stacks_mapped im (k_vmm s')" "k_tm_initialized s'"
proof -
  obtain s1 s2 where s: "map_stacks im [0..<kMaxTasks] s1 = (True, s2)" "k_vmm s' = k_vmm s2" "k_tm_initialized s'"
    using assms by (auto simp: TaskManager_initialize_def Let_def split: prod.splits if_splits)
  from map_stacks_all(1,2) [OF s(1)] show "stacks_mapped im (k_vmm s')" "k_tm_initialized s'"
    by (simp_all add: stacks_mapped_def s kMaxTasks_def)
qed

lemma kept_fields [simp]:
  "k_vmm (set_child_head p v s) = k_vmm s" "k_vmm (link_tracker_locked x p s) = k_vmm s"
  "k_vmm (setup_task im h entry arg sp owner idle sb st t x s) = k_vmm s"
  "k_ms (set_child_head p v s) = k_ms s" "k_ms (link_tracker_locked x p s) = k_ms s"
  "k_ms (setup_task im h entry arg sp owner idle sb st t x s) = k_ms s"
  "k_harts (set_child_head p v s) = k_harts s" "k_harts (link_tracker_locked x p s) = k_harts s"
  "k_tm_initialized (set_child_head p v s) = k_tm_initialized s" "k_tm_initialized (link_tracker_locked x p s) = k_tm_initialized s"
  "k_tm_initialized (setup_task im h entry arg sp owner idle sb st t x s) = k_tm_initialized s"
  by (simp_all add: set_child_head_def link_tracker_locked_def setup_task_def Let_def split: option.splits)

lemma create_result:
  assumes m: "ws \<longrightarrow> stacks_mapped im (k_vmm s)"
  shows "\<exists>s' mem. create_task_locked im h entry arg sp owner kp idle ws s =
      Some (if k_tm_initialized s \<and> address_space_valid sp \<and> is_boot_user_entry entry (k_vmm s) \<and> (\<exists>x < kMaxTasks. \<not> k_tracker_slots_used s x)
        then find (\<lambda>i. \<not> k_task_slots_used s i) [0..<kMaxTasks] else None, s') \<and>
      k_vmm s' = k_vmm s \<and> k_ms s' = (k_ms s)\<lparr>ms_mem := mem\<rparr> \<and> k_harts s' = k_harts s \<and> k_tm_initialized s' = k_tm_initialized s"
proof -
  let ?t = "find (\<lambda>i. \<not> k_task_slots_used s i) [0..<kMaxTasks]" and ?x = "find (\<lambda>i. \<not> k_tracker_slots_used s i) [0..<kMaxTasks]"
  have x: "?x = None \<longleftrightarrow> \<not> (\<exists>x < kMaxTasks. \<not> k_tracker_slots_used s x)" by (auto simp: find_None_iff)
  have same: "(k_ms s)\<lparr>ms_mem := ms_mem (k_ms s)\<rparr> = k_ms s" by simp
  show ?thesis
  proof (cases "k_tm_initialized s \<and> address_space_valid sp \<and> is_boot_user_entry entry (k_vmm s)")
    case ok: True
    show ?thesis
    proof (cases ?t)
      case None
      show ?thesis
      proof (cases ?x)
        case xn: None
        then show ?thesis using ok None same by (intro exI [of _ s] exI [of _ "ms_mem (k_ms s)"]) (simp add: create_task_locked_def allocate_eqs)
      next
        case (Some x)
        then show ?thesis using ok None same find_unused(2) [OF Some]
          by (intro exI [of _ "drop_tracker x (take_tracker x s)"] exI [of _ "ms_mem (k_ms s)"])
            (simp add: create_task_locked_def allocate_eqs release_tracker_drop drop_tracker_def take_tracker_def)
      qed
    next
      case (Some t)
      note t = find_unused [OF Some]
      show ?thesis
      proof (cases ?x)
        case xn: None
        then show ?thesis using ok Some same t x
          by (intro exI [of _ "drop_task t (take_task t s)"] exI [of _ "ms_mem (k_ms s)"])
            (simp add: create_task_locked_def allocate_eqs release_task_drop drop_task_def take_task_def)
      next
        case xs: (Some x)
        let ?u = "take_tracker x (take_task t s)"
        have k: "k_vmm ?u = k_vmm s" "k_ms ?u = k_ms s" "k_harts ?u = k_harts s" "k_tm_initialized ?u = k_tm_initialized s" by (simp_all add: take_tracker_def take_task_def)
        have c: "k_vmm (clear_bytes a n ?u) = k_vmm s" "\<exists>mem. k_ms (clear_bytes a n ?u) = (k_ms s)\<lparr>ms_mem := mem\<rparr>"
          "k_harts (clear_bytes a n ?u) = k_harts s" "k_tm_initialized (clear_bytes a n ?u) = k_tm_initialized s" for a n
          by (auto simp: clear_bytes_def k)
        show ?thesis
        proof (cases ws)
          case True
          then have "vmm_map_stack (task_stack im t) kTaskStackSize (clear_bytes (task_stack im t) (unat kTaskStackSize) ?u) =
            (True, clear_bytes (task_stack im t) (unat kTaskStackSize) ?u)"
            using m t(2) by (intro map_stack_again) (simp_all add: c)
          then show ?thesis using True ok Some xs x c by (auto simp: create_task_locked_def allocate_eqs Let_def)
        next
          case False
          then show ?thesis using ok Some xs x k same
            by (auto simp: create_task_locked_def allocate_eqs Let_def intro!: exI [of _ "ms_mem (k_ms s)"])
        qed
      qed
    qed
  qed (use same in \<open>auto simp: create_task_locked_def intro!: exI [of _ "ms_mem (k_ms s)"]\<close>)
qed


lemma view_upd_hart: "view (upd_hart h f c) = (view c)\<lparr>v_cur := (v_cur (view c))(h := hl_current_task (f (k_harts c h))),
    v_bound := (v_bound (view c))(h := hart_bound h (f (k_harts c h))), v_idlet := (v_idlet (view c))(h := hl_idle_task (f (k_harts c h)))\<rparr>"
  by (intro kview.equality) (auto simp: view_def fun_eq_iff)

lemma hart_fields_irrelevant:
  "tree_inv (view (upd_hart h f c)) = tree_inv (view c)" "join_inv (view (upd_hart h f c)) = join_inv (view c)"
  unfolding view_upd_hart by (simp_all add: tree_inv_def join_inv_def)

lemma small_tid: "i \<le> kMaxHarts \<Longrightarrow> (of_nat (Suc i) :: u64) \<noteq> UINT64_MAX"
proof -
  assume "i \<le> kMaxHarts"
  then have "i = 0 \<or> i = 1 \<or> i = 2 \<or> i = 3 \<or> i = 4" by (auto simp: kMaxHarts_def)
  then show ?thesis by (elim disjE) simp_all
qed

lemma small_index: "i < kMaxHarts \<Longrightarrow> unat (of_nat i :: u32) = i"
proof -
  assume "i < kMaxHarts"
  then have "i = 0 \<or> i = 1 \<or> i = 2 \<or> i = 3" by (auto simp: kMaxHarts_def)
  then show ?thesis by (elim disjE) simp_all
qed

text \<open>Binding hart \<open>i\<close>, creating its idle task and recording it.\<close>

abbreviation bound_hart :: "nat \<Rightarrow> kst \<Rightarrow> kst" where
  "bound_hart i s \<equiv> upd_hart i (\<lambda>l. l\<lparr>hl_delay_list := Some i, hl_timeslice_ticks := task_timeslice_ticks, hl_scheduler_preemption_count := 0\<rparr>)
     (upd_hart i (\<lambda>l. l\<lparr>hl_scheduler := True, hl_scheduler_extra := Some (Local_rq i)\<rparr>) s)"

lemma bound_view:
  "v_used (view (bound_hart i c)) = v_used (view c)" "v_tused (view (bound_hart i c)) = v_tused (view c)"
  "task_at (view (bound_hart i c)) = task_at (view c)" "v_cur (view (bound_hart i c)) = v_cur (view c)"
  "v_idlet (view (bound_hart i c)) = v_idlet (view c)" "v_bound (view (bound_hart i c)) = (v_bound (view c))(i := True)"
  "v_init (view (bound_hart i c)) = v_init (view c)" "v_ep (view (bound_hart i c)) = v_ep (view c)"
  "v_slot (view (bound_hart i c)) = v_slot (view c)" "v_next (view (bound_hart i c)) = v_next (view c)"
  by (auto simp: fun_eq_iff task_at_def hart_bound_def)

lemma idle_recorded:
  assumes Q: "qinv {} {} G ((view c)\<lparr>v_n := i\<rparr>)" and c: "v_cur (view c) = (\<lambda>_. None)" "\<forall>h. g_dq G h = []" "i < kMaxHarts"
    and n: "create_spec i True None (Some t) u x (view (bound_hart i c)) (view c')"
  shows "qinv {} {} G ((view (upd_hart i (\<lambda>l. l\<lparr>hl_idle_task := Some t, hl_current_task := None\<rparr>) c'))\<lparr>v_n := Suc i\<rparr>)"
    (is "qinv {} {} G ((view ?d)\<lparr>v_n := Suc i\<rparr>)")
proof -
  let ?c = "bound_hart i c"
  have A: "agree t x (view ?c) (view c')" using n by (simp add: create_spec_def)
  note R = agree_rest [OF A] and v = bound_view [of i c]
  show ?thesis
  proof (rule qinv_add_hart [OF Q, of t])
    show "\<forall>u. u \<noteq> t \<longrightarrow> task_at ((view ?d)\<lparr>v_n := Suc i\<rparr>) u = task_at ((view c)\<lparr>v_n := i\<rparr>) u"
      using agreeD(1) [OF A] v(3) unfolding view_upd_hart [of i _ c'] by (simp add: task_at_def fun_eq_iff del: view_simps)
    show "v_cur ((view ?d)\<lparr>v_n := Suc i\<rparr>) = v_cur ((view c)\<lparr>v_n := i\<rparr>)"
      unfolding view_upd_hart [of i _ c'] by (simp add: R(1) v(4) c(1) fun_eq_iff del: view_simps)
    show "v_bound ((view ?d)\<lparr>v_n := Suc i\<rparr>) (v_n ((view c)\<lparr>v_n := i\<rparr>))"
      "\<forall>h < v_n ((view c)\<lparr>v_n := i\<rparr>). v_bound ((view ?d)\<lparr>v_n := Suc i\<rparr>) h = v_bound ((view c)\<lparr>v_n := i\<rparr>) h"
      using fun_cong [OF R(2), of i] fun_cong [OF R(2)] v(6) unfolding view_upd_hart [of i _ c'] by (simp_all add: hart_bound_def)
    show "v_idlet ((view ?d)\<lparr>v_n := Suc i\<rparr>) = (v_idlet ((view c)\<lparr>v_n := i\<rparr>))(v_n ((view c)\<lparr>v_n := i\<rparr>) := Some t)"
      using R(3) v(5) unfolding view_upd_hart [of i _ c'] by (simp del: view_simps)
    show "v_init ((view ?d)\<lparr>v_n := Suc i\<rparr>) = v_init ((view c)\<lparr>v_n := i\<rparr>)" "v_ep ((view ?d)\<lparr>v_n := Suc i\<rparr>) = v_ep ((view c)\<lparr>v_n := i\<rparr>)"
      "v_slot ((view ?d)\<lparr>v_n := Suc i\<rparr>) = v_slot ((view c)\<lparr>v_n := i\<rparr>)"
      using R(5-7) v(7-9) unfolding view_upd_hart [of i _ c'] by (simp_all del: view_simps)
  qed (use c n fun_cong [OF c(1)] in \<open>simp_all add: create_spec_def\<close>)
qed

lemma boot_hart:
  assumes S: "sim G c s" and I: "boot_inv i G c" and i: "i < kMaxHarts"
    and r: "create_idle_task im h i (bound_hart i s) = Some (Some t, s3)"
  shows "\<exists>G' c'. sim G' c' (upd_hart i (\<lambda>l. l\<lparr>hl_idle_task := Some t, hl_current_task := None\<rparr>) s3) \<and> boot_inv (Suc i) G' c'"
proof -
  note Q = boot_inv_def [of i G c, THEN iffD1, OF I] and v = bound_view [of i c]
  let ?c = "bound_hart i c"
  have S': "sim G ?c (bound_hart i s)" by (intro sim_other(1) S)
  have TI: "tree_inv (view ?c)" "join_inv (view ?c)" using Q by (simp_all add: hart_fields_irrelevant)
  note T = task_invD [OF qinvD(1) [OF conjunct1 [OF Q]]]
  have B: "\<forall>t. k_task_slots_used ?c t \<longrightarrow> t < kMaxTasks" "\<forall>t. \<not> k_task_slots_used ?c t \<longrightarrow> free (view ?c) t"
    using T(1,4) by auto
  have G: "g_out G = {}" "\<forall>h. g_dq G h = []" using Q by (simp_all add: same_queues_def qinv_def queue_inv_def)
  have cur: "hl_current_task (k_harts ?c h) = Some p \<Longrightarrow> k_task_slots_used ?c p" for p using Q by (simp split: if_splits)
  obtain G' c' u x where n: "sim G' c' s3" "same_queues G G'" "g_out G' = {}" "create_spec i True None (Some t) u x (view ?c) (view c')"
    using create_sim [OF S' TI(1) G(1) B, of h im "im_user_idle_task im" 0 "vm_boot_address_space (k_vmm (bound_hart i s))" i True True False, OF cur] r
    unfolding create_idle_task_def creates_def by (auto simp: parent_of_def)
  let ?d = "upd_hart i (\<lambda>l. l\<lparr>hl_idle_task := Some t, hl_current_task := None\<rparr>) c'"
  have A: "agree t x (view ?c) (view c')" and fresh: "\<not> v_used (view ?c) t" "\<not> v_tused (view ?c) x"
    using n(4) by (simp_all add: create_spec_def)
  have next': "v_next (view ?c) = of_nat (Suc i)" using Q by simp
  have lt: "v_next (view ?c) < v_next (view ?c) + 1" unfolding next' using small_tid [of i] i by (intro less_inc) simp
  have trees: "tree_inv (view c')"
    by (rule tree_inv_alloc [OF TI(1) A fresh]) (use n(4) lt in \<open>simp_all add: create_spec_def\<close>)
  have joins: "join_inv (view c')"
    by (rule join_inv_alloc [OF TI(2,1) A fresh]) (use n(4) in \<open>simp_all add: create_spec_def\<close>)
  have fin: "finite {t. v_used (view ?c) t}" "finite {x. v_tused (view ?c) x}"
    using B(1) tree_invD(1) [OF TI(1)] by (auto intro: finite_subset [of _ "{..<kMaxTasks}"])
  have cards: "card {t. k_task_slots_used ?d t} = Suc i" "card {x. k_tracker_slots_used ?d x} = Suc i"
    using create_card [OF n(4) fin] Q by simp_all
  have cn: "hl_current_task (k_harts ?d h') = None" for h' using Q fun_cong [OF agree_rest(1) [OF A], of h'] by simp
  have "boot_inv (Suc i) G' ?d"
    unfolding boot_inv_def
  proof (intro conjI allI)
    have "v_cur (view c) = (\<lambda>_. None)" using Q by (simp add: fun_eq_iff)
    from idle_recorded [OF conjunct1 [OF Q] this G(2) i n(4)]
    show "qinv {} {} G' ((view ?d)\<lparr>v_n := Suc i\<rparr>)" by (rule qinv_same_queues [OF _ n(2,3)])
    show "same_queues empty_ghost G'" using Q n(2) by (simp add: same_queues_def)
    show "k_next_tid ?d = of_nat (Suc (Suc i))" using n(4) next' by (simp add: create_spec_def)
  qed (use trees joins in \<open>simp_all only: hart_fields_irrelevant cards cn\<close>)
  then show ?thesis using sim_other(1) [OF n(1)] by blast
qed

section \<open>All harts\<close>

definition entries_ok :: "image \<Rightarrow> vmm_state \<Rightarrow> bool" where
  "entries_ok im v \<longleftrightarrow> address_space_valid (vm_boot_address_space v) \<and> is_boot_user_entry (im_user_idle_task im) v \<and>
     is_boot_user_entry (im_user_init_task im) v"

lemma free_slot:
  assumes "finite {t. P t}" and "card {t. P t} < n"
  shows "\<exists>t < n. \<not> P t"
proof (rule ccontr)
  assume "\<not> (\<exists>t < n. \<not> P t)"
  then have "{..<n} \<subseteq> {t. P t}" by auto
  from card_mono [OF assms(1) this] assms(2) show False by simp
qed

lemma find_free: "\<exists>t < n. \<not> P t \<Longrightarrow> \<exists>t. find (\<lambda>i. \<not> P i) [0..<n] = Some t"
  by (cases "find (\<lambda>i. \<not> P i) [0..<n]") (auto simp: find_None_iff)

lemma boot_slots:
  assumes "boot_inv i G c" and "i < kMaxTasks"
  shows "\<exists>t < kMaxTasks. \<not> k_task_slots_used c t" "\<exists>x < kMaxTasks. \<not> k_tracker_slots_used c x"
proof -
  have "task_inv {} {} ((view c)\<lparr>v_n := i\<rparr>)" "tree_inv (view c)" using assms(1) by (simp_all add: boot_inv_def qinv_def)
  note T = task_invD(1) [OF this(1)] tree_invD(1) [OF this(2)]
  have "finite {t. k_task_slots_used c t}" "finite {x. k_tracker_slots_used c x}"
    using T by (auto intro: finite_subset [of _ "{..<kMaxTasks}"])
  then show "\<exists>t < kMaxTasks. \<not> k_task_slots_used c t" "\<exists>x < kMaxTasks. \<not> k_tracker_slots_used c x"
    using assms free_slot [of "k_task_slots_used c" kMaxTasks] free_slot [of "k_tracker_slots_used c" kMaxTasks]
    by (simp_all add: boot_inv_def)
qed

lemma initialize_harts_ok:
  assumes "sim G c s" and "boot_inv i G c" and "harts_named n s" and "i \<le> n" "n \<le> kMaxHarts"
  shows "\<exists>ok s'. initialize_harts im h [i..<n] s = Some (ok, s') \<and> k_vmm s' = k_vmm s \<and> (entries_ok im (k_vmm s) \<longrightarrow> ok) \<and>
    (ok \<longrightarrow> (\<exists>G' c'. sim G' c' s' \<and> boot_inv n G' c'))"
  using assms
proof (induction "n - i" arbitrary: i s G c)
  case 0
  then have "initialize_harts im h [i..<n] s = Some (True, s)" "i = n" by simp_all
  then show ?case using "0.prems"(1,2) by blast
next
  case (Suc k)
  note S = Suc.prems(1) and I = Suc.prems(2)
  have i: "i < n" "i < kMaxHarts" using Suc.hyps(2) Suc.prems(4,5) by linarith+
  have idx: "unat (hl_index (k_harts s i)) = i"
    using Suc.prems(3) i small_index by (simp add: harts_named_def)
  have time: "k_time_initialized s" "k_tm_initialized s"
    using I by (simp_all add: sim_reads [OF S] boot_inv_def qinv_def hart_inv_def)
  have im: "i < kMaxTasks" using i(2) by (simp add: kMaxHarts_def kMaxTasks_def)
  obtain t where t: "find (\<lambda>i. \<not> k_task_slots_used s i) [0..<kMaxTasks] = Some t"
    using find_free [OF boot_slots(1) [OF I im]] by (auto simp: sim_reads [OF S])
  have x: "\<exists>x < kMaxTasks. \<not> k_tracker_slots_used s x" using boot_slots(2) [OF I im] by (simp add: sim_reads [OF S])
  obtain s3 where s3: "create_idle_task im h i (bound_hart i s) =
      Some (if k_tm_initialized s \<and> address_space_valid (vm_boot_address_space (k_vmm s)) \<and> is_boot_user_entry (im_user_idle_task im) (k_vmm s)
        then Some t else None, s3)" "k_vmm s3 = k_vmm s" "k_harts s3 = k_harts (bound_hart i s)"
    using create_result [of False im "bound_hart i s" h "im_user_idle_task im" 0 "vm_boot_address_space (k_vmm s)" i True True] x
    unfolding create_idle_task_def by (auto simp: t)
  define r where "r = (if k_tm_initialized s \<and> address_space_valid (vm_boot_address_space (k_vmm s)) \<and>
    is_boot_user_entry (im_user_idle_task im) (k_vmm s) then Some t else None)"
  have r: "create_idle_task im h i (bound_hart i s) = Some (r, s3)" "k_vmm s3 = k_vmm s" "k_harts s3 = k_harts (bound_hart i s)"
    "entries_ok im (k_vmm s) \<longrightarrow> r \<noteq> None"
    using s3 time by (simp_all add: r_def entries_ok_def)
  have step: "initialize_harts im h [i..<n] s = (case r of None \<Rightarrow> Some (False, s3)
     | Some t \<Rightarrow> initialize_harts im h [Suc i..<n] (upd_hart i (\<lambda>l. l\<lparr>hl_idle_task := Some t, hl_current_task := None\<rparr>) s3))"
    using i time idx r(1) by (simp add: upt_conv_Cons Scheduler_bind_hart_def TimeManager_initialize_hart_def)
  show ?case
  proof (cases r)
    case None
    then show ?thesis using r(2,4) unfolding step by auto
  next
    case (Some t)
    let ?s = "upd_hart i (\<lambda>l. l\<lparr>hl_idle_task := Some t, hl_current_task := None\<rparr>) s3"
    obtain G' c' where g: "sim G' c' ?s" "boot_inv (Suc i) G' c'"
      using boot_hart [OF S I i(2)] r(1) [unfolded Some] by blast
    have "harts_named n ?s" using Suc.prems(3) r(3) by (auto simp: harts_named_def)
    from Suc.hyps(1) [OF _ g this] Suc.hyps(2) i Suc.prems(5) show ?thesis
      unfolding step Some using r(2) by (simp add: Suc_le_eq)
  qed
qed


section \<open>The initial task\<close>

lemma present_count_sim: "sim G c s \<Longrightarrow> sim G (c\<lparr>k_present_count := n\<rparr>) (s\<lparr>k_present_count := n\<rparr>)"
  by (simp add: sim_def rq_rep_def dq_rep_def wq_rep_def ch_rep_def erase_def)

lemma view_present_count: "view (c\<lparr>k_present_count := n\<rparr>) = (view c)\<lparr>v_n := n\<rparr>"
  by (intro kview.equality) (simp_all add: view_def)

lemma endpoints_sim:
  "sim G c s \<Longrightarrow> \<forall>e. g_wq G e = [] \<Longrightarrow> sim G (EndpointManager_construct c) (EndpointManager_construct s)"
  by (simp add: sim_def rq_rep_def dq_rep_def wq_rep_def ch_rep_def erase_def EndpointManager_construct_def zero_endpoint_def erase_ep_def)

lemma view_endpoints:
  "view (EndpointManager_construct c) = (view c)\<lparr>v_ep := (\<lambda>_. zero_endpoint), v_slot := (\<lambda>_. False)\<rparr>"
  by (intro kview.equality) (simp_all add: view_def EndpointManager_construct_def zero_endpoint_def erase_ep_def)

text \<open>The state in which the initial task is created: every hart is set up and none runs a task.\<close>

lemma boot_ready:
  assumes S: "sim G c s" and I: "boot_inv n G c"
  defines "c' \<equiv> EndpointManager_construct (c\<lparr>k_present_count := n\<rparr>)"
  shows "sim G c' (EndpointManager_construct (s\<lparr>k_present_count := n\<rparr>))" "kinv {} G (view c')"
    "\<forall>h. hl_current_task (k_harts c' h) = None" "k_present_count c' = n" "k_next_tid c' = of_nat (Suc n)"
proof -
  have W: "\<forall>e. g_wq G e = []" using I by (simp add: boot_inv_def same_queues_def)
  show "sim G c' (EndpointManager_construct (s\<lparr>k_present_count := n\<rparr>))"
    unfolding c'_def by (intro endpoints_sim present_count_sim S W)
  have "kinv {} G ((view c)\<lparr>v_n := n\<rparr>)" using I by (simp add: boot_inv_def kinv_def)
  then show "kinv {} G (view c')"
    unfolding c'_def view_endpoints view_present_count
    by (rule kinv_ep) (simp add: ep_inv_def W ep_wf_def zero_endpoint_def kEndpointQueueDepth_def)
  show "\<forall>h. hl_current_task (k_harts c' h) = None" "k_present_count c' = n" "k_next_tid c' = of_nat (Suc n)"
    using I by (simp_all add: c'_def boot_inv_def EndpointManager_construct_def)
qed

lemma qinv_start:
  assumes "qinv {} X G v" and "v_cur v h = None"
  shows "qinv {h} X G v"
proof -
  have "placed {} v t \<Longrightarrow> placed {h} v t" for t
    using assms(2) unfolding placed_def by (elim place_mono) (metis option.distinct(1) singletonD)
  then have "task_inv {h} X v" "hart_inv {h} X v"
    using assms(1) unfolding qinv_def task_inv_def hart_inv_def by blast+
  then show ?thesis using assms(1) by (simp add: qinv_def)
qed

lemma set_current_ok:
  assumes S: "sim G c s" and Q: "qinv {} {t} G (view c)" "tree_inv (view c)" "join_inv (view c)"
    and t: "v_state (view c) t = TS_ready" "\<not> v_idle (view c) t" and h: "v_cur (view c) = (\<lambda>_. None)" "h < k_present_count c"
  shows "\<exists>s'. set_current_task h t s = Some s' \<and> ok_at h s'"
proof -
  let ?f = "\<lambda>x. x\<lparr>t_cpu := Some h, t_state := TS_running\<rparr>" and ?g = "\<lambda>l. l\<lparr>hl_current_task := Some t\<rparr>"
  let ?c = "upd_hart h ?g (upd_task t ?f c)"
  have f: "v_used (view c) t" "free (view c) t" using task_invD(7) [OF qinvD(1) [OF Q(1)], of t] by simp_all
  have "qinv {h} ({} \<union> {t}) G (view c)" using qinv_start [OF Q(1)] h(1) by simp
  then have "qinv {} {} G (run_on h t (view c))"
    by (rule qinv_run_on) (use f t h in \<open>simp_all del: view_simps(1-20)\<close>)
  moreover have "view ?c = run_on h t (view c)"
    using f by (intro kview.equality) (auto simp: view_def run_on_def put_def fun_eq_iff hart_bound_def)
  moreover have "join_inv (run_on h t (view c))" using Q(3) t by (intro join_inv_run_on) simp_all
  ultimately have k: "kinv {} G (view ?c)" using Q(2) by (simp add: kinv_def)
  have "task_safe ?f" by (simp add: task_safe_def erase_task_def)
  then have "sim G ?c (upd_hart h ?g (upd_task t ?f s))" by (intro sim_other(1) sim_upd_task S)
  moreover have "hl_current_task (k_harts ?c h) = Some t" by simp
  ultimately have "ok_at h (upd_hart h ?g (upd_task t ?f s))" by (intro ok_atI [OF _ k])
  then show ?thesis using f t(1) by (simp add: set_current_task_def sim_reads [OF S])
qed

lemma first_task_inv:
  assumes S: "sim G c s" and K: "kinv {} G (view c)" and r: "sim G' c' s1" "same_queues G G'" "g_out G' = {}"
    "create_spec 0 False None (Some t) u x (view c) (view c')"
    and h: "\<forall>h. hl_current_task (k_harts c h) = None" "0 < k_present_count c" and tid: "k_next_tid c \<noteq> UINT64_MAX"
  shows "qinv {} {t} G' (view c')" "tree_inv (view c')" "join_inv (view c')" "v_state (view c') t = TS_ready"
    "\<not> v_idle (view c') t" "v_cur (view c') = (\<lambda>_. None)" "v_n (view c') = v_n (view c)"
proof -
  note Q = kinvD(1) [OF K] and I = kinvD(2) [OF K] and T = task_invD [OF qinvD(1) [OF kinvD(1) [OF K]]]
  have A: "agree t x (view c) (view c')" and fresh: "\<not> v_used (view c) t" "\<not> v_tused (view c) x" and fr: "free (view c') t"
    using r(4) by (simp_all add: create_spec_def)
  have new: "u = t" "t < kMaxTasks" "x < kMaxTasks" "v_used (view c') t" "v_tused (view c') x" "v_state (view c') t = TS_ready"
    "\<not> v_idle (view c') t" "v_cpu (view c') t = Some 0" "v_pin (view c') t = 0" "v_trk (view c') t = Some x"
    "v_tid (view c') t = v_next (view c)" "v_task (view c') x = Some t" "v_key (view c') x = v_next (view c)"
    "v_status (view c') x = ES_running" "\<not> v_active (view c') x" "v_parent (view c') x = None" "v_next (view c') = v_next (view c) + 1"
    using r(4) unfolding create_spec_def by (simp_all del: view_simps)
  have nin: "t \<notin> set (g_dq G i)" for i using sim_delayed [OF S, of t] T(4) [of t] fresh(1) by auto
  have n0: "0 < v_n (view c)" using h(2) by simp
  have q: "qinv {} {t} G (view c')"
    by (rule qinv_alloc [OF Q A fresh(1) nin fr]) (use new n0 in \<open>simp_all del: view_simps\<close>)
  have "v_next (view c) < v_next (view c) + 1" using less_inc [OF tid] by simp
  then have trees: "tree_inv (view c')" by (intro tree_inv_alloc [OF I A fresh]) (use new in \<open>simp_all del: view_simps\<close>)
  have joins: "join_inv (view c')"
    by (rule join_inv_alloc [OF kinvD(3) [OF K] I A fresh]) (use new in \<open>simp_all del: view_simps\<close>)
  show "qinv {} {t} G' (view c')" by (rule qinv_same_queues [OF q r(2,3)])
  show "tree_inv (view c')" "join_inv (view c')" by (fact trees joins)+
  show "v_state (view c') t = TS_ready" "\<not> v_idle (view c') t" by (fact new)+
  show "v_cur (view c') = (\<lambda>_. None)" "v_n (view c') = v_n (view c)" using agree_rest(1,4) [OF A] h(1) by (simp_all add: fun_eq_iff)
qed

lemma init_task_ok:
  assumes S: "sim G c s" and K: "kinv {} G (view c)" and h: "\<forall>h. hl_current_task (k_harts c h) = None" "h < k_present_count c"
    and tid: "k_next_tid c \<noteq> UINT64_MAX"
  shows "\<exists>ok s'. init_task_bootstrap im h s = Some (ok, s') \<and> (ok \<longrightarrow> ok_at h s') \<and>
    (stacks_mapped im (k_vmm s) \<and> entries_ok im (k_vmm s) \<and> (\<exists>t < kMaxTasks. \<not> k_task_slots_used s t) \<and>
     (\<exists>x < kMaxTasks. \<not> k_tracker_slots_used s x) \<longrightarrow> ok)"
proof -
  note Q = kinvD(1) [OF K] and I = kinvD(2) [OF K] and T = task_invD [OF qinvD(1) [OF kinvD(1) [OF K]]]
    and H = hart_invD [OF qinvD(2) [OF kinvD(1) [OF K]]]
  have G: "g_out G = {}" using qinvD(3) [OF Q] by (simp add: queue_inv_def)
  have B: "\<forall>t. k_task_slots_used c t \<longrightarrow> t < kMaxTasks" "\<forall>t. \<not> k_task_slots_used c t \<longrightarrow> free (view c) t"
    using T(1,4) by simp_all
  let ?create = "create_task im h (im_user_init_task im) 0 (vm_boot_address_space (k_vmm s)) 0 True s"
  from create_sim [OF S I G B, of h im "im_user_init_task im" 0 "vm_boot_address_space (k_vmm s)" 0 True False True] h(1)
  obtain r s1 G' c' u x where r: "?create = Some (r, s1)" "sim G' c' s1" "same_queues G G'" "g_out G' = {}"
      "create_spec 0 False None r u x (view c) (view c')"
    unfolding create_task_def creates_def parent_of_def by (metis option.distinct(1))
  have succeeds: "r \<noteq> None" if "stacks_mapped im (k_vmm s) \<and> entries_ok im (k_vmm s) \<and> (\<exists>t < kMaxTasks. \<not> k_task_slots_used s t) \<and>
     (\<exists>x < kMaxTasks. \<not> k_tracker_slots_used s x)"
  proof -
    have "k_tm_initialized s" using H(2) by (simp add: sim_reads [OF S])
    with create_result [of True im s h "im_user_init_task im" 0 "vm_boot_address_space (k_vmm s)" 0 True False] that r(1)
      find_free [of kMaxTasks "k_task_slots_used s"]
    show ?thesis by (auto simp: create_task_def entries_ok_def)
  qed
  show ?thesis
  proof (cases r)
    case None
    then show ?thesis using r(1) succeeds by (auto simp: init_task_bootstrap_def)
  next
    case (Some t)
    let ?s = "set_initial_task t s1"
    let ?c = "c'\<lparr>k_initial_task_id := t_tid (k_tasks s1 t)\<rparr>"
    have S2: "sim G' ?c ?s" unfolding set_initial_task_def by (rule sim_other(9) [OF r(2)])
    have v: "view ?c = view c'" by (rule view_quiet)
    note w = first_task_inv [OF S K r(2-4) r(5) [unfolded Some] h(1) _ tid]
    obtain s2 where "set_current_task h t ?s = Some s2" "ok_at h s2"
      using set_current_ok [OF S2, unfolded v, OF w(1-6)] h(2) w(7) by auto
    then show ?thesis using r(1) Some by (auto simp: init_task_bootstrap_def)
  qed
qed


section \<open>The whole bootstrap\<close>

lemma memory_bootstrap_mem: "\<exists>ok vm m. memory_bootstrap im s = (ok, with_mem vm m s)"
proof -
  obtain ok ms1 where p: "add_contained_bootstrap_pool (im_pool_start im) (im_pool_end im) (pm_reset (k_ms s)) = (ok, ms1)" by fastforce
  obtain ok' v ms2 where q: "Vmm_initialize (im_user_text_start im) (im_user_text_end im) (k_vmm s, ms1) = (ok', v, ms2)"
    by (cases "Vmm_initialize (im_user_text_start im) (im_user_text_end im) (k_vmm s, ms1)")
  show ?thesis
  proof (cases ok)
    case True
    then show ?thesis using p q by (auto simp: memory_bootstrap_def)
  next
    case False
    then show ?thesis using p by (intro exI [of _ False] exI [of _ "k_vmm s"] exI [of _ ms1]) (simp add: memory_bootstrap_def)
  qed
qed

lemma cleared_with_mem: "cleared (with_mem vm m s) = cleared s" "harts_named n (with_mem vm m s) = harts_named n s"
  by (simp_all add: cleared_def harts_named_def)

text \<open>The phases up to the initial task.\<close>

definition managers_up :: "image \<Rightarrow> kst \<Rightarrow> bool" where
  "managers_up im s \<longleftrightarrow> (let (ok1, s1) = memory_bootstrap im s;
       (ok2, s2) = TaskManager_initialize im (Scheduler_initialize (TimeManager_initialize s1))
     in ok1 \<and> ok2 \<and> entries_ok im (k_vmm s2))"

lemma cpu_bootstrap_ok:
  assumes z: "cleared s" "harts_named n s" and n: "n \<noteq> 0" "n \<le> kMaxHarts"
  shows "\<exists>ok s'. cpu_bootstrap im h n s = Some (ok, s') \<and> (ok \<longrightarrow> stacks_mapped im (k_vmm s') \<and>
      (\<exists>G c s0. sim G c s0 \<and> boot_inv n G c \<and> s' = s0\<lparr>k_present_count := n\<rparr>)) \<and>
    (let (ok1, s1) = TaskManager_initialize im (Scheduler_initialize (TimeManager_initialize s)) in ok1 \<and> entries_ok im (k_vmm s1) \<longrightarrow>
       ok \<and> k_vmm s' = k_vmm s1)"
proof -
  obtain ok1 s1 where s1: "TaskManager_initialize im (Scheduler_initialize (TimeManager_initialize s)) = (ok1, s1)" by fastforce
  show ?thesis
  proof (cases ok1)
    case True
    have s1': "TaskManager_initialize im (Scheduler_initialize (TimeManager_initialize s)) = (True, s1)" using s1 True by simp
    note m = managers_ready [OF z s1']
    have "\<not> k_tm_initialized (Scheduler_initialize (TimeManager_initialize s))"
      using z(1) by (simp add: cleared_def Scheduler_initialize_def TimeManager_initialize_def resets RunQueue_reset_def)
    note mapped = managers_mapped [OF this s1']
    obtain ok2 s2 where s2: "initialize_harts im h [0..<n] s1 = Some (ok2, s2)" "k_vmm s2 = k_vmm s1" "entries_ok im (k_vmm s1) \<longrightarrow> ok2"
      "ok2 \<longrightarrow> (\<exists>G' c'. sim G' c' s2 \<and> boot_inv n G' c')"
      using initialize_harts_ok [OF m le0 n(2), of im h] by (elim exE conjE) (rule that)
    show ?thesis
    proof (cases ok2)
      case o2: True
      then have "cpu_bootstrap im h n s = Some (True, s2\<lparr>k_present_count := n\<rparr>)"
        using s1' s2(1) n by (simp add: cpu_bootstrap_def CpuManager_initialize_def)
      moreover have "\<exists>G c s0. sim G c s0 \<and> boot_inv n G c \<and> s2\<lparr>k_present_count := n\<rparr> = s0\<lparr>k_present_count := n\<rparr>"
        using s2(4) o2 by blast
      ultimately show ?thesis
        using s2(2) mapped(1) by (intro exI [of _ True] exI [of _ "s2\<lparr>k_present_count := n\<rparr>"]) (simp add: s1')
    next
      case o2: False
      then have "cpu_bootstrap im h n s = Some (False, s2)"
        using s1' s2(1) n by (simp add: cpu_bootstrap_def CpuManager_initialize_def)
      then show ?thesis using s2(3) o2 by (intro exI [of _ False] exI [of _ s2]) (simp add: s1')
    qed
  next
    case False
    then have "cpu_bootstrap im h n s = Some (False, s1)" using s1 by (simp add: cpu_bootstrap_def)
    then show ?thesis using s1 False by (intro exI [of _ False] exI [of _ s1]) simp
  qed
qed

lemma bootstrap_ok:
  assumes z: "cleared s" "harts_named n s" and n: "n \<le> kMaxHarts" "h < n"
  shows "case bootstrap im h n s of None \<Rightarrow> \<not> managers_up im s | Some (frame, satp, s') \<Rightarrow> ok_at h s'"
proof -
  obtain ok1 vm m where s1: "memory_bootstrap im s = (ok1, with_mem vm m s)" using memory_bootstrap_mem by blast
  let ?s1 = "with_mem vm m s"
  have n0: "n \<noteq> 0" using n(2) by simp
  have z': "cleared ?s1" "harts_named n ?s1" using z by (simp_all add: cleared_with_mem)
  have s: "upd_hart h (\<lambda>l. l\<lparr>hl_current_task := None\<rparr>) s = s"
    using z(2) by (intro kst.equality) (auto simp: harts_named_def fun_eq_iff)
  obtain ok2 s2 where s2: "cpu_bootstrap im h n ?s1 = Some (ok2, s2)"
    "ok2 \<longrightarrow> stacks_mapped im (k_vmm s2) \<and> (\<exists>G c s0. sim G c s0 \<and> boot_inv n G c \<and> s2 = s0\<lparr>k_present_count := n\<rparr>)"
    "let (ok3, s3) = TaskManager_initialize im (Scheduler_initialize (TimeManager_initialize ?s1)) in ok3 \<and> entries_ok im (k_vmm s3) \<longrightarrow>
       ok2 \<and> k_vmm s2 = k_vmm s3"
    using cpu_bootstrap_ok [OF z' n0 n(1), of im h] by (elim exE conjE) (rule that)
  have up: "managers_up im s \<Longrightarrow> ok1 \<and> ok2 \<and> entries_ok im (k_vmm s2)"
    using s1 s2(3) by (auto simp: managers_up_def split: prod.splits)
  show ?thesis
  proof (cases "ok1 \<and> ok2")
    case False
    then have "bootstrap im h n s = None" using s1 s2(1) by (auto simp: bootstrap_def s)
    then show ?thesis using up False by auto
  next
    case True
    then obtain G c s0 where g: "sim G c s0" "boot_inv n G c" "s2 = s0\<lparr>k_present_count := n\<rparr>" and mapped: "stacks_mapped im (k_vmm s2)"
      using s2(2) by blast
    note r = boot_ready [OF g(1,2)]
    let ?s3 = "EndpointManager_construct s2" and ?c = "EndpointManager_construct (c\<lparr>k_present_count := n\<rparr>)"
    have s3: "k_vmm ?s3 = k_vmm s2" by (simp add: EndpointManager_construct_def)
    have nm: "n < kMaxTasks" using n by (simp add: kMaxHarts_def kMaxTasks_def)
    have slots: "\<exists>t < kMaxTasks. \<not> k_task_slots_used ?s3 t" "\<exists>x < kMaxTasks. \<not> k_tracker_slots_used ?s3 x"
      using boot_slots [OF g(2) nm] sim_reads [OF g(1)] by (simp_all add: EndpointManager_construct_def g(3))
    have hn: "h < k_present_count ?c" using n(2) r(4) by simp
    have tid: "k_next_tid ?c \<noteq> UINT64_MAX" unfolding r(5) by (rule small_tid [OF n(1)])
    obtain ok4 s4 where s4: "init_task_bootstrap im h ?s3 = Some (ok4, s4)" "ok4 \<longrightarrow> ok_at h s4" "managers_up im s \<longrightarrow> ok4"
      using init_task_ok [OF r(1-3) hn tid, of im] slots mapped up unfolding g(3) [symmetric] s3 by blast
    show ?thesis
    proof (cases ok4)
      case False
      then have "bootstrap im h n s = None" using s1 s2(1) True s4(1) by (auto simp: bootstrap_def s ipc_bootstrap_def)
      then show ?thesis using s4(3) False by simp
    next
      case ok4: True
      have "ok_at h (printk fmt args s4)" for fmt args using s4(2) ok4 by (simp add: ok_at_quiet)
      note d = dispatch_task_ok [OF this]
      have "\<exists>frame satp s'. bootstrap im h n s = Some (frame, satp, s') \<and> ok_at h s'"
        using True ok4
        by (simp only: bootstrap_def s ipc_bootstrap_def Let_def s1 prod.case s2(1) s4(1) park_unless_def if_True Option.bind.simps) (rule d)
      then show ?thesis by auto
    qed
  qed
qed

end
