(* ===== verification/Boot_Success.thy ===== *)
theory Boot_Success
  imports Page_Tables Boot_Steps
begin

text \<open>
  An image for which booting succeeds: its pool lies in contained memory and holds enough pages for
  the tables, its text and its task stacks are page aligned, apart and below 512 GiB.  Every page
  of the text and of the stacks is then mapped, and the managers come up.
\<close>

section \<open>Mapping a range to itself\<close>

lemma unat_page_at:
  assumes "unat b + 4096 * n \<le> 2 ^ 64" and "k < n"
  shows "unat (page_at b k) = unat b + 4096 * k"
proof -
  have "page_at b k = b + of_nat (4096 * k)" by (simp add: kPageSize_def)
  moreover have "unat (b + of_nat (4096 * k)) = unat b + 4096 * k" by (rule unat_plus_of_nat [OF assms(1)]) (use assms(2) in simp)
  ultimately show ?thesis by simp
qed

lemma map_range_identity:
  assumes T: "tree_ok (root_physical_address sp) tab ms" and c: "can_allocate (2 * n + m) ms" and sp: "address_space_valid sp"
    and b: "4096 dvd unat b" "unat b + 4096 * n \<le> 2 ^ 39" "0 < n" "unat sz = 4096 * n"
    and f: "\<not> (flags AND pte_write \<noteq> 0 \<and> flags AND pte_read = 0)"
    and free: "\<And>k. k < n \<Longrightarrow> leaf_entry tab (ms_mem ms) (page_at b k) = None"
  shows "\<exists>ms' tab'. map_range_4k sp b b sz flags ms = (True, ms') \<and> tree_ok (root_physical_address sp) tab' ms' \<and> can_allocate m ms' \<and>
    (\<forall>va. is_page_aligned va \<longrightarrow> unat va < 2 ^ 39 \<longrightarrow> unat va < unat b \<or> unat b + 4096 * n \<le> unat va \<longrightarrow>
       leaf_entry tab' (ms_mem ms') va = leaf_entry tab (ms_mem ms) va)"
proof -
  have u: "unat (page_at b k) = unat b + 4096 * k" if "k < n" for k using unat_page_at [OF _ that] b(2) by simp
  have al: "is_page_aligned (page_at b k)" if "k < n" for k using u [OF that] b(1) by (simp add: is_page_aligned_dvd)
  have args: "map_arguments_ok sp (page_at b (0 + k)) (page_at b (0 + k)) flags" if "k < n" for k
    using al [OF that] sp f by (simp add: map_arguments_ok_def)
  have inj: "j = k" if "j < n" "k < n" "same_page (page_at b (0 + j)) (page_at b (0 + k))" for j k
  proof -
    have "unat (page_at b j) < 2 ^ 39" "unat (page_at b k) < 2 ^ 39" using u that(1,2) b(2) by simp_all
    with same_page_eq [OF al al, of j k] that have "page_at b j = page_at b k" by simp
    with u that(1,2) have "unat b + 4096 * j = unat b + 4096 * k" by metis
    then show ?thesis by simp
  qed
  obtain ms' where m: "map_range_loop sp b b flags 0 n ms = (True, ms')" "can_allocate m ms'"
    using map_range_success [OF T c args _ inj] free by auto
  obtain tab' where t: "tree_ok (root_physical_address sp) tab' ms'"
    "\<And>va. (\<forall>k < n. \<not> same_page va (page_at b (0 + k))) \<Longrightarrow> leaf_entry tab' (ms_mem ms') va = leaf_entry tab (ms_mem ms) va"
    using map_range_tree [OF T m(1)] by blast
  have "map_range_4k sp b b sz flags ms = map_range_loop sp b b flags 0 n ms"
  proof -
    have "sz \<noteq> 0" using b(3,4) by (auto simp: word_unat_eq_iff)
    moreover have "is_page_aligned b" using b(1) by (simp add: is_page_aligned_dvd)
    moreover have "sz mod kPageSize = 0" using b(4) by (simp add: word_mod_eq_0_iff kPageSize_def)
    moreover have "unat (b + sz) = unat b + 4096 * n" using b(2,4) by (simp add: unat_add_no_wrap)
    then have "\<not> b + sz \<le> b" using b(3) by (simp add: word_le_nat_alt)
    moreover have "unat (sz div kPageSize) = n" using b(4) by (simp add: unat_div kPageSize_def)
    ultimately show ?thesis by (simp add: map_range_4k_def)
  qed
  moreover have "leaf_entry tab' (ms_mem ms') va = leaf_entry tab (ms_mem ms) va"
    if va: "is_page_aligned va" "unat va < 2 ^ 39" "unat va < unat b \<or> unat b + 4096 * n \<le> unat va" for va
  proof (rule t(2), intro allI impI notI)
    fix k assume k: "k < n" "same_page va (page_at b (0 + k))"
    have "unat (page_at b k) < 2 ^ 39" using u [OF k(1)] k(1) b(2) by simp
    with same_page_eq [OF va(1) al [OF k(1)] va(2)] k(2) have "va = page_at b k" by simp
    then have "unat va = unat b + 4096 * k" using u [OF k(1)] by simp
    then show False using va(3) k(1) by simp
  qed
  ultimately show ?thesis using m t(1) by auto
qed

section \<open>An image that fits\<close>

definition text_pages :: "image \<Rightarrow> nat" where
  "text_pages im = (unat (im_user_text_end im) - unat (im_user_text_start im)) div 4096"

definition image_fits :: "image \<Rightarrow> lifecycle_state \<Rightarrow> bool" where
  "image_fits im lc \<longleftrightarrow> active_kind lc = BK_contained \<and>
     backing_for lc (im_pool_start im) = BK_contained \<and> backing_for lc (im_pool_end im - 1) = BK_contained \<and>
     4096 dvd unat (im_pool_start im) \<and> 4096 dvd unat (im_pool_end im) \<and> 0 < unat (im_pool_start im) \<and> unat (im_pool_end im) \<le> 2 ^ 56 \<and>
     unat (im_pool_start im) + 4096 * (2 * text_pages im + 2 * kMaxTasks + 1) \<le> unat (im_pool_end im) \<and>
     4096 dvd unat (im_user_text_start im) \<and> 4096 dvd unat (im_user_text_end im) \<and> unat (im_user_text_start im) < unat (im_user_text_end im) \<and>
     unat (im_user_text_end im) \<le> 2 ^ 39 \<and>
     4096 dvd unat (im_task_stacks im) \<and> unat (im_task_stacks im) + 4096 * kMaxTasks \<le> 2 ^ 39 \<and>
     (unat (im_task_stacks im) + 4096 * kMaxTasks \<le> unat (im_user_text_start im) \<or> unat (im_user_text_end im) \<le> unat (im_task_stacks im)) \<and>
     (unat (im_task_stacks im) + 4096 * kMaxTasks \<le> unat (im_pool_start im) \<or> unat (im_pool_end im) \<le> unat (im_task_stacks im)) \<and>
     im_user_text_start im \<le> im_user_idle_task im \<and> im_user_idle_task im < im_user_text_end im \<and>
     im_user_text_start im \<le> im_user_init_task im \<and> im_user_init_task im < im_user_text_end im"

lemma pool_ready:
  assumes "image_fits im (ms_lc ms)"
  shows "\<exists>ms'. add_contained_bootstrap_pool (im_pool_start im) (im_pool_end im) (pm_reset ms) = (True, ms') \<and> pm_inv ms' \<and> physical ms' \<and>
    ms_lc ms' = ms_lc ms \<and> can_allocate (2 * text_pages im + 2 * kMaxTasks + 1) ms' \<and>
    (\<forall>r \<in> set (ms_ranges ms'). mr_base r = im_pool_start im \<and> mr_end r = im_pool_end im)"
proof -
  let ?r = "\<lparr>mr_base = im_pool_start im, mr_next = im_pool_start im, mr_end = im_pool_end im, mr_backing = BK_contained\<rparr>"
  let ?ms = "ms\<lparr>ms_ranges := [?r]\<rparr>"
  note f = assms [unfolded image_fits_def]
  have lt: "im_pool_start im < im_pool_end im" using f by (simp add: word_less_nat_alt)
  let ?sz = "im_pool_end im - im_pool_start im"
  have sz: "unat ?sz = unat (im_pool_end im) - unat (im_pool_start im)" using lt by (intro unat_sub_le) simp
  have "add_contained_bootstrap_pool (im_pool_start im) (im_pool_end im) (pm_reset ms) = (True, ?ms)"
  proof -
    have "?sz mod kPageSize = 0" using f sz by (simp add: word_mod_eq_0_iff kPageSize_def dvd_diff_nat)
    moreover have "is_page_aligned (im_pool_start im)" using f by (simp add: is_page_aligned_dvd)
    moreover have "im_pool_start im + ?sz = im_pool_end im" "?sz \<noteq> 0" using lt by auto
    ultimately show ?thesis
      using f lt by (simp add: add_contained_bootstrap_pool_def add_range_def pm_reset_def kMaxRanges_def Let_def not_le)
  qed
  moreover have inv: "pm_inv ?ms" using f by (simp add: pm_inv_def range_ok_def kMaxRanges_def)
  moreover have "physical ?ms" using f by (simp add: physical_def)
  moreover have "can_allocate (2 * text_pages im + 2 * kMaxTasks + 1) ?ms"
  proof (rule can_allocate_remaining [OF inv])
    have "unat (im_pool_start im) + 4096 * (2 * text_pages im + 2 * kMaxTasks + 1) \<le> unat (im_pool_end im)" using f by blast
    then have "4096 * (2 * text_pages im + 2 * kMaxTasks + 1) \<le> unat (im_pool_end im) - unat (im_pool_start im)" by linarith
    from div_le_mono [OF this, of 4096] have "2 * text_pages im + 2 * kMaxTasks + 1 \<le> (unat (im_pool_end im) - unat (im_pool_start im)) div 4096"
      by simp
    then show "2 * text_pages im + 2 * kMaxTasks + 1 \<le> unat (remaining_pages (active_kind (ms_lc ?ms)) ?ms)"
      using f by (simp add: remaining_pages_sum [OF inv] free_pages_def)
  qed (use f in \<open>auto simp: word_unat_eq_iff\<close>)
  ultimately show ?thesis by (intro exI [of _ ?ms]) simp
qed


section \<open>The boot address space\<close>

text \<open>The ranges of the allocator are the bootstrap pool.\<close>

definition pool_only :: "image \<Rightarrow> memst \<Rightarrow> bool" where
  "pool_only im ms \<longleftrightarrow> (\<forall>r \<in> set (ms_ranges ms). mr_base r = im_pool_start im \<and> mr_end r = im_pool_end im)"

lemma allocate_pool_only: "pool_only im ms \<Longrightarrow> pool_only im (snd (allocate_page ms))"
proof -
  have "\<forall>r \<in> set rs'. P (mr_base r) (mr_end r)" if "take_page b rs = Some (pa, rs')" "\<forall>r \<in> set rs. P (mr_base r) (mr_end r)" for b rs pa rs' and P :: "u64 \<Rightarrow> u64 \<Rightarrow> bool"
    using take_page_split [OF that(1)] that(2) by auto
  from this [where P = "\<lambda>b e. b = im_pool_start im \<and> e = im_pool_end im"] show "pool_only im ms \<Longrightarrow> pool_only im (snd (allocate_page ms))"
    by (auto simp: pool_only_def allocate_page_def allocate_from_def split: option.splits)
qed

lemma ensure_pool_only: "pool_only im ms \<Longrightarrow> pool_only im (snd (ensure_child_table a ms))"
  using allocate_pool_only [of im ms] by (auto simp: ensure_child_table_def pool_only_def Let_def split: prod.splits)

lemma map_page_pool_only: "pool_only im ms \<Longrightarrow> pool_only im (snd (map_page_4k sp va pa flags ms))"
proof -
  have e: "pool_only im ms2" if "ensure_child_table a ms1 = (b, ms2)" "pool_only im ms1" for a b ms1 ms2
    using ensure_pool_only [OF that(2), of a] that(1) by simp
  show "pool_only im ms \<Longrightarrow> pool_only im (snd (map_page_4k sp va pa flags ms))"
    by (auto simp: map_page_4k_def Let_def split: prod.splits dest: e) (auto simp: pool_only_def dest!: e)
qed

lemma map_range_pool_only: "pool_only im ms \<Longrightarrow> pool_only im (snd (map_range_4k sp vb pb sz flags ms))"
proof -
  have "pool_only im ms \<Longrightarrow> pool_only im (snd (map_range_loop sp vb pb flags i n ms))" for i n
  proof (induction n arbitrary: i ms)
    case (Suc n)
    obtain ok ms1 where m: "map_page_4k sp (page_at vb i) (page_at pb i) flags ms = (ok, ms1)" by fastforce
    then have "pool_only im ms1" using map_page_pool_only [OF Suc.prems] by (metis snd_conv)
    with Suc.IH [of ms1 "Suc i"] m show ?case by (cases ok) simp_all
  qed simp
  then show "pool_only im ms \<Longrightarrow> pool_only im (snd (map_range_4k sp vb pb sz flags ms))" by (simp add: map_range_4k_def Let_def)
qed

lemma flags_ok: "\<not> (kUserTextFlags AND pte_write \<noteq> 0 \<and> kUserTextFlags AND pte_read = 0)"
    "\<not> (kUserStackFlags AND pte_write \<noteq> 0 \<and> kUserStackFlags AND pte_read = 0)"
  by (simp_all add: kUserTextFlags_def kUserStackFlags_def pte_write_def pte_read_def pte_execute_def pte_user_def pte_accessed_def pte_dirty_def)

definition space_ready :: "image \<Rightarrow> nat \<Rightarrow> vmm_state \<Rightarrow> memst \<Rightarrow> bool" where
  "space_ready im k v ms \<longleftrightarrow> vm_initialized v \<and> vm_mapped_stack_bases v = map (task_stack im) [0..<k] \<and>
     address_space_valid (vm_boot_address_space v) \<and> vm_user_text_start v = im_user_text_start im \<and> vm_user_text_end v = im_user_text_end im \<and>
     pool_only im ms \<and> can_allocate (2 * (kMaxTasks - k)) ms \<and>
     (\<exists>tab. tree_ok (root_physical_address (vm_boot_address_space v)) tab ms \<and>
        (\<forall>j. k \<le> j \<and> j < kMaxTasks \<longrightarrow> leaf_entry tab (ms_mem ms) (task_stack im j) = None))"

lemma task_stack_page: "task_stack im j = page_at (im_task_stacks im) j"
  by (simp add: task_stack_def kTaskStackSize_def kPageSize_def)

lemma stack_facts:
  assumes "image_fits im lc" and "j < kMaxTasks"
  shows "unat (task_stack im j) = unat (im_task_stacks im) + 4096 * j" "is_page_aligned (task_stack im j)" "unat (task_stack im j) + 4096 \<le> 2 ^ 39"
proof -
  have f: "4096 dvd unat (im_task_stacks im)" "unat (im_task_stacks im) + 4096 * kMaxTasks \<le> 2 ^ 39" using assms(1) by (auto simp: image_fits_def)
  show u: "unat (task_stack im j) = unat (im_task_stacks im) + 4096 * j"
    unfolding task_stack_page by (rule unat_page_at [OF _ assms(2)]) (use f(2) in simp)
  show "is_page_aligned (task_stack im j)" "unat (task_stack im j) + 4096 \<le> 2 ^ 39"
    using u f assms(2) by (auto simp: is_page_aligned_dvd)
qed

lemma vmm_ready:
  assumes fits: "image_fits im (ms_lc ms)" and p: "pm_inv ms" "physical ms" "pool_only im ms" "can_allocate (2 * text_pages im + 2 * kMaxTasks + 1) ms"
  shows "\<exists>v ms'. Vmm_initialize (im_user_text_start im) (im_user_text_end im) (vmm_init, ms) = (True, v, ms') \<and> space_ready im 0 v ms'"
proof -
  note f = fits [unfolded image_fits_def]
  obtain sp ms1 where c: "create_address_space ms = (sp, ms1)" by fastforce
  have "can_allocate (Suc (2 * text_pages im + 2 * kMaxTasks)) ms" using p(4) by (simp del: can_allocate.simps)
  then have v: "address_space_valid sp" "can_allocate (2 * text_pages im + 2 * kMaxTasks) ms1"
    using c by (auto simp: create_address_space_def address_space_valid_def allocation_valid_def split: prod.splits if_splits)
  note t = create_tree [OF p(1,2) c v(1)]
  let ?tab = "[[] \<mapsto> root_physical_address sp]" and ?b = "im_user_text_start im" and ?e = "im_user_text_end im"
  have sz: "unat (?e - ?b) = unat ?e - unat ?b" using f by (intro unat_sub_le) (simp add: word_le_nat_alt)
  have tp: "4096 * text_pages im = unat ?e - unat ?b" using f by (simp add: text_pages_def dvd_diff_nat)
  have n: "0 < text_pages im" "unat ?b + 4096 * text_pages im \<le> 2 ^ 39" "unat (?e - ?b) = 4096 * text_pages im" "4096 dvd unat ?b"
    using f tp sz by auto
  have none: "leaf_entry ?tab m va = None" for m va by (simp add: leaf_entry_def)
  obtain ms2 tab2 where m: "map_range_4k sp ?b ?b (?e - ?b) kUserTextFlags ms1 = (True, ms2)" "tree_ok (root_physical_address sp) tab2 ms2"
    "can_allocate (2 * kMaxTasks) ms2"
    "\<And>va. is_page_aligned va \<Longrightarrow> unat va < 2 ^ 39 \<Longrightarrow> unat va < unat ?b \<or> unat ?b + 4096 * text_pages im \<le> unat va \<Longrightarrow>
       leaf_entry tab2 (ms_mem ms2) va = leaf_entry ?tab (ms_mem ms1) va"
    using map_range_identity [OF t(1) v(2,1) n(4,2,1,3) flags_ok(1) none] by blast
  have st: "leaf_entry tab2 (ms_mem ms2) (task_stack im j) = None" if "j < kMaxTasks" for j
  proof -
    note s = stack_facts [OF fits that]
    have "unat (task_stack im j) < unat ?b \<or> unat ?b + 4096 * text_pages im \<le> unat (task_stack im j)"
      using f that unfolding s(1) tp by auto
    then show ?thesis using m(4) [OF s(2)] s(3) none by simp
  qed
  have po: "pool_only im ms1" using allocate_pool_only [OF p(3)] c by (auto simp: create_address_space_def split: prod.splits if_splits)
  have "?b mod kPageSize = 0" "?e mod kPageSize = 0" "\<not> ?e \<le> ?b"
    using f by (simp_all add: word_mod_eq_0_iff kPageSize_def word_le_nat_alt)
  then have "Vmm_initialize ?b ?e (vmm_init, ms) = (True, vmm_init\<lparr>vm_user_text_start := ?b, vm_user_text_end := ?e,
      vm_boot_address_space := sp, vm_initialized := True\<rparr>, ms2)"
    using c v(1) m(1) by (simp add: Vmm_initialize_def vmm_init_def Let_def)
  moreover have "pool_only im ms2" using map_range_pool_only [OF po] m(1) by (metis snd_conv)
  ultimately show ?thesis using m(2,3) st v(1) by (auto simp: space_ready_def vmm_init_def)
qed

lemma stacks_keep_tables:
  assumes fits: "image_fits im lc" and p: "pm_inv ms" "pool_only im ms"
  shows "keeps_tables ms (ms\<lparr>ms_mem := memset_loop (ms_mem ms) (im_task_stacks im) 0 0 (kMaxTasks * 4096)\<rparr>)"
  unfolding keeps_tables_def
proof (intro allI impI)
  fix t i assume t: "t \<in> allocated ms" "table_page t" "i < (512 :: nat)"
  note f = fits [unfolded image_fits_def]
  obtain r where r: "r \<in> set (ms_ranges ms)" "t \<in> handed_out r" using t(1) by (auto simp: allocated_def)
  have "range_ok r" using p(1) r(1) by (simp add: pm_inv_def)
  then have bd: "unat (im_pool_start im) \<le> unat t" "unat t < unat (im_pool_end im)"
    using r p(2) by (auto simp: pool_only_def handed_out_def range_ok_def)
  moreover have "4096 dvd unat (im_pool_end im)" "4096 dvd unat t" using f t(2) by (auto simp: table_page_def)
  ultimately have hi: "unat t + 4096 \<le> unat (im_pool_end im)" by (auto simp: dvd_def)
  have e: "ms_mem (ms\<lparr>ms_mem := m\<rparr>) = m" for m by simp
  show "entry (ms_mem (ms\<lparr>ms_mem := memset_loop (ms_mem ms) (im_task_stacks im) 0 0 (kMaxTasks * 4096)\<rparr>)) t i = entry (ms_mem ms) t i"
    unfolding entry_def e
  proof (rule load64_cong)
    fix k :: nat assume k: "k < 8"
    let ?a = "pte_address t (of_nat i) + of_nat k" and ?d = "im_task_stacks im"
    have u: "unat ?a = unat t + (8 * i + k)"
      using unat_plus_of_nat [of "pte_address t (of_nat i)" 8 k] unat_pte_address [OF t(2,3)] t(2,3) k by (simp add: table_page_def)
    have "\<not> unat (?a - ?d) < kMaxTasks * 4096"
    proof
      assume "unat (?a - ?d) < kMaxTasks * 4096"
      then obtain l where l: "l < kMaxTasks * 4096" "?a = ?d + of_nat l" using addr_offset_iff [of "kMaxTasks * 4096" ?a ?d] by (auto simp: kMaxTasks_def)
      have "unat ?d + kMaxTasks * 4096 \<le> 2 ^ 64" using f by (simp add: mult.commute)
      from unat_plus_of_nat [OF this l(1)] l(2) u have "unat t + (8 * i + k) = unat ?d + l" by simp
      with f bd(1) hi l(1) t(3) k show False by auto
    qed
    then show "memset_loop (ms_mem ms) ?d 0 0 (kMaxTasks * 4096) ?a = ms_mem ms ?a"
      by (subst memset_loop_apply) (simp_all add: kMaxTasks_def)
  qed
qed

lemma stack_mapped:
  assumes fits: "image_fits im lc" and r: "space_ready im k (k_vmm s) (k_ms s)" and k: "k < kMaxTasks"
  shows "\<exists>s'. vmm_map_stack (task_stack im k) kTaskStackSize s = (True, s') \<and> space_ready im (Suc k) (k_vmm s') (k_ms s')"
proof -
  let ?v = "k_vmm s" and ?ms = "k_ms s"
  let ?sp = "vm_boot_address_space ?v" and ?a = "task_stack im k"
  obtain tab where t: "tree_ok (root_physical_address ?sp) tab ?ms"
    "\<And>j. k \<le> j \<Longrightarrow> j < kMaxTasks \<Longrightarrow> leaf_entry tab (ms_mem ?ms) (task_stack im j) = None"
    using r unfolding space_ready_def by blast
  have v: "vm_initialized ?v" "vm_mapped_stack_bases ?v = map (task_stack im) [0..<k]" "address_space_valid ?sp" "pool_only im ?ms"
    "can_allocate (2 * 1 + 2 * (kMaxTasks - Suc k)) ?ms"
    using r k by (simp_all add: space_ready_def Suc_diff_Suc [symmetric] del: can_allocate.simps)
  note a = stack_facts [OF fits]
  have bounds: "4096 dvd unat ?a" "unat ?a + 4096 * 1 \<le> 2 ^ 39" "0 < (1 :: nat)" "unat kTaskStackSize = 4096 * 1"
    using a [OF k] by (simp_all add: is_page_aligned_dvd kTaskStackSize_def)
  have free: "leaf_entry tab (ms_mem ?ms) (page_at ?a i) = None" if "i < 1" for i using t(2) [of k] k that by simp
  obtain ms' tab' where m: "map_range_4k ?sp ?a ?a kTaskStackSize kUserStackFlags ?ms = (True, ms')" "tree_ok (root_physical_address ?sp) tab' ms'"
    "can_allocate (2 * (kMaxTasks - Suc k)) ms'"
    "\<And>va. is_page_aligned va \<Longrightarrow> unat va < 2 ^ 39 \<Longrightarrow> unat va < unat ?a \<or> unat ?a + 4096 * 1 \<le> unat va \<Longrightarrow>
       leaf_entry tab' (ms_mem ms') va = leaf_entry tab (ms_mem ?ms) va"
    using map_range_identity [OF t(1) v(5,3) bounds flags_ok(2) free] by blast
  have inj: "task_stack im j \<noteq> ?a" if "j < k" for j
    using a(1) [OF k] a(1) [of j] that k by auto
  have notin: "?a \<notin> set (vm_mapped_stack_bases ?v)"
  proof
    assume "?a \<in> set (vm_mapped_stack_bases ?v)"
    then obtain j where "j < k" "?a = task_stack im j" unfolding v(2) by auto
    with inj [of j] show False by simp
  qed
  let ?v' = "?v\<lparr>vm_mapped_stack_bases := vm_mapped_stack_bases ?v @ [?a]\<rparr>"
  have "?a mod kPageSize = 0" using a(2) [OF k] by (simp add: word_mod_eq_0_iff kPageSize_def is_page_aligned_dvd)
  then have "vmm_map_stack ?a kTaskStackSize s = (True, s\<lparr>k_vmm := ?v', k_ms := ms'\<rparr>)"
    using v(1,2) m(1) notin k
    by (simp add: vmm_map_stack_def map_boot_task_stack_def kMaxStackMappings_def kMaxTasks_def kTaskStackSize_def kPageSize_def)
  moreover have "leaf_entry tab' (ms_mem ms') (task_stack im j) = None" if "Suc k \<le> j" "j < kMaxTasks" for j
    using m(4) [OF a(2) [OF that(2)]] a(1,3) [OF that(2)] a(1) [OF k] t(2) [of j] that by simp
  moreover have "pool_only im ms'" using map_range_pool_only [OF v(4)] m(1) by (metis snd_conv)
  ultimately show ?thesis
    using r v(2) m(2,3) unfolding space_ready_def by (intro exI [of _ "s\<lparr>k_vmm := ?v', k_ms := ms'\<rparr>"]) (auto simp del: can_allocate.simps)
qed

lemma stacks_mapped_from:
  assumes "image_fits im lc" and "space_ready im k (k_vmm s) (k_ms s)" and "k \<le> kMaxTasks"
  shows "\<exists>s'. map_stacks im [k..<kMaxTasks] s = (True, s') \<and> space_ready im kMaxTasks (k_vmm s') (k_ms s')"
  using assms(2,3)
proof (induction "kMaxTasks - k" arbitrary: k s)
  case 0
  then show ?case by simp
next
  case (Suc n)
  then have k: "k < kMaxTasks" by simp
  obtain s1 where s1: "vmm_map_stack (task_stack im k) kTaskStackSize s = (True, s1)" "space_ready im (Suc k) (k_vmm s1) (k_ms s1)"
    using stack_mapped [OF assms(1) Suc.prems(1) k] by blast
  have "n = kMaxTasks - Suc k" "Suc k \<le> kMaxTasks" using Suc.hyps(2) k by simp_all
  from Suc.hyps(1) [OF this(1) s1(2) this(2)] s1(1) k show ?case by (simp add: upt_conv_Cons)
qed

lemma space_ready_cleared:
  assumes fits: "image_fits im lc" and r: "space_ready im k v ms"
  shows "space_ready im k v (ms\<lparr>ms_mem := memset_loop (ms_mem ms) (im_task_stacks im) 0 0 (kMaxTasks * 4096)\<rparr>)" (is "space_ready im k v ?ms")
proof -
  obtain tab where t: "tree_ok (root_physical_address (vm_boot_address_space v)) tab ms"
    "\<And>j. k \<le> j \<Longrightarrow> j < kMaxTasks \<Longrightarrow> leaf_entry tab (ms_mem ms) (task_stack im j) = None"
    using r unfolding space_ready_def by blast
  note D = tree_okD [OF t(1)]
  have po: "pool_only im ms" using r by (simp add: space_ready_def)
  note kt = stacks_keep_tables [OF fits D(1) po]
  have same: "allocated ?ms = allocated ms" "pm_inv ?ms = pm_inv ms" "physical ?ms = physical ms" "pool_only im ?ms = pool_only im ms"
    by (simp_all add: allocated_def pm_inv_def physical_def pool_only_def)
  have "tree_ok (root_physical_address (vm_boot_address_space v)) tab ?ms"
    by (rule tree_frame [OF t(1) _ _ _ kt]) (use D same in simp_all)
  moreover have "entry (ms_mem ?ms) u j = entry (ms_mem ms) u j" if "tab q = Some u" "j < 512" for q u j
    using kt D(6,7) [OF that(1)] that(2) unfolding keeps_tables_def by blast
  then have "leaf_entry tab (ms_mem ?ms) va = leaf_entry tab (ms_mem ms) va" for va
    using ix_bound unfolding leaf_entry_def by (simp split: option.split)
  ultimately show ?thesis
    using r t(2) same(4) unfolding space_ready_def by (auto simp del: can_allocate.simps memst.simps)
qed

lemma memory_ready:
  assumes "image_fits im (ms_lc (k_ms s))" and "k_vmm s = vmm_init"
  shows "\<exists>s'. memory_bootstrap im s = (True, s') \<and> space_ready im 0 (k_vmm s') (k_ms s') \<and> k_tm_initialized s' = k_tm_initialized s"
proof -
  obtain ms1 where p: "add_contained_bootstrap_pool (im_pool_start im) (im_pool_end im) (pm_reset (k_ms s)) = (True, ms1)" "pm_inv ms1" "physical ms1"
    "ms_lc ms1 = ms_lc (k_ms s)" "can_allocate (2 * text_pages im + 2 * kMaxTasks + 1) ms1" "pool_only im ms1"
    using pool_ready [OF assms(1)] unfolding pool_only_def by blast
  have "image_fits im (ms_lc ms1)" using assms(1) p(4) by simp
  from vmm_ready [OF this p(2,3,6,5)] p(1) assms(2) show ?thesis by (auto simp: memory_bootstrap_def)
qed

lemma managers_up_fits:
  assumes fits: "image_fits im (ms_lc (k_ms s))" and v: "k_vmm s = vmm_init" and c: "\<not> k_tm_initialized s"
  shows "managers_up im s"
proof -
  obtain s1 where s1: "memory_bootstrap im s = (True, s1)" "space_ready im 0 (k_vmm s1) (k_ms s1)" "\<not> k_tm_initialized s1"
    using memory_ready [OF fits v] c by blast
  let ?s = "Scheduler_initialize (TimeManager_initialize s1)"
  have same: "k_vmm ?s = k_vmm s1" "k_ms ?s = k_ms s1" "k_tm_initialized ?s = k_tm_initialized s1"
    by (simp_all add: Scheduler_initialize_def TimeManager_initialize_def resets RunQueue_reset_def)
  define s2 where "s2 = clear_bytes (im_task_stacks im) (kMaxTasks * unat kTaskStackSize) (?s\<lparr>
          k_tasks := (\<lambda>i. if i < kMaxTasks then zero_task else k_tasks ?s i),
          k_trackers := (\<lambda>i. if i < kMaxTasks then zero_tracker else k_trackers ?s i),
          k_task_slots_used := (\<lambda>i. if i < kMaxTasks then False else k_task_slots_used ?s i),
          k_tracker_slots_used := (\<lambda>i. if i < kMaxTasks then False else k_tracker_slots_used ?s i)\<rparr>)"
  have "k_vmm s2 = k_vmm s1" "k_ms s2 = (k_ms s1)\<lparr>ms_mem := memset_loop (ms_mem (k_ms s1)) (im_task_stacks im) 0 0 (kMaxTasks * 4096)\<rparr>"
    using same by (simp_all add: s2_def clear_bytes_def kTaskStackSize_def)
  then have "space_ready im 0 (k_vmm s2) (k_ms s2)" using space_ready_cleared [OF fits s1(2)] by simp
  then obtain s3 where s3: "map_stacks im [0..<kMaxTasks] s2 = (True, s3)" "space_ready im kMaxTasks (k_vmm s3) (k_ms s3)"
    using stacks_mapped_from [OF fits] by blast
  have "entries_ok im (k_vmm s3)"
    using s3(2) fits unfolding entries_ok_def space_ready_def is_boot_user_entry_def image_fits_def by simp
  moreover have "TaskManager_initialize im ?s = (True, s3\<lparr>k_root_tasks := None, k_next_tid := 1, k_initial_task_id := 0, k_tm_initialized := True\<rparr>)"
    using s3(1) s1(3) same(3) unfolding TaskManager_initialize_def Let_def s2_def [symmetric] by simp
  ultimately show ?thesis using s1(1) by (simp add: managers_up_def)
qed

lemma bootstrap_succeeds:
  assumes "cleared s" "harts_named n s" "n \<le> kMaxHarts" "h < n" and "image_fits im (ms_lc (k_ms s))" "k_vmm s = vmm_init"
  shows "\<exists>frame satp s'. bootstrap im h n s = Some (frame, satp, s') \<and> ok_at h s'"
proof -
  have "managers_up im s" by (rule managers_up_fits) (use assms in \<open>auto simp: cleared_def\<close>)
  with bootstrap_ok [OF assms(1-4), of im] show ?thesis by (auto split: option.splits)
qed

end
