(* ===== verification/Kernel_Example.thy ===== *)
theory Kernel_Example
  imports Boot_Success
begin

text \<open>
  A concrete kernel state: one hart runs the initial task, one task is runnable, one sleeps, one
  waits for a message; one endpoint holds a message.  It satisfies the kernel invariant and
  serves as the instance at which the kernel-level theorems are evaluated.
\<close>

definition demo_task :: "u64 \<Rightarrow> nat \<Rightarrow> task_state \<Rightarrow> task" where
  "demo_task tid x st = zero_task\<lparr>t_cpu := Some 0, t_tid := tid, t_state := st, t_tracker := Some x\<rparr>"

definition demo_tasks :: "nat \<Rightarrow> task" where
  "demo_tasks = (\<lambda>_. zero_task)(
     0 := (demo_task 1 0 TS_ready)\<lparr>t_idle := True\<rparr>,
     1 := demo_task 2 1 TS_running,
     2 := (demo_task 3 2 TS_ready)\<lparr>t_queued := True\<rparr>,
     3 := (demo_task 4 3 TS_blocked_sleep)\<lparr>t_delay := zero_delay\<lparr>dn_deadline := 100, dn_queued := True\<rparr>\<rparr>,
     4 := (demo_task 5 4 TS_blocked_message)\<lparr>t_message_wait := zero_message_wait\<lparr>mw_queued := True\<rparr>\<rparr>)"

definition demo_tracker :: "u64 \<Rightarrow> nat \<Rightarrow> nat ptr \<Rightarrow> nat ptr \<Rightarrow> nat ptr \<Rightarrow> nat ptr \<Rightarrow> task_tracker" where
  "demo_tracker key t parent child prev next =
     zero_tracker\<lparr>tt_key := key, tt_task := Some t, tt_status := ES_running, tt_parent := parent, tt_first_child := child,
       tt_previous_sibling := prev, tt_next_sibling := next\<rparr>"

definition demo_trackers :: "nat \<Rightarrow> task_tracker" where
  "demo_trackers = (\<lambda>_. zero_tracker)(
     0 := demo_tracker 1 0 None None (Some 1) None,
     1 := demo_tracker 2 1 None (Some 4) None (Some 0),
     2 := demo_tracker 3 2 (Some 1) None (Some 3) None,
     3 := demo_tracker 4 3 (Some 1) None (Some 4) (Some 2),
     4 := demo_tracker 5 4 (Some 1) None None (Some 3))"

definition demo_endpoints :: "nat \<Rightarrow> endpoint" where
  "demo_endpoints = (\<lambda>_. zero_endpoint)(
     0 := zero_endpoint\<lparr>ep_active := True, ep_generation := 1, ep_owner := 2, ep_count := 1,
            ep_queue := (\<lambda>_. zero_message)(0 := zero_message\<lparr>msg_sender := 3, msg_word0 := 42\<rparr>)\<rparr>,
     1 := zero_endpoint\<lparr>ep_active := True, ep_generation := 1, ep_owner := 2,
            ep_waiting_head := Some 4, ep_waiting_tail := Some 4, ep_waiting_count := 1\<rparr>)"

definition zero_hart :: hart_local where
  "zero_hart = \<lparr>hl_hart_id = 0, hl_stack_bottom = 0, hl_stack_top = 0, hl_machine_timer_interrupt_count = 0,
     hl_index = 0, hl_role = HR_boot, hl_state = HS_offline, hl_trap_entry_sp = 0, hl_trap_entry_t1 = 0,
     hl_trap_stack_bottom = 0, hl_trap_stack_top = 0, hl_trap_active = 0, hl_trap_reserved = 0, hl_current_task = None,
     hl_scheduler = False, hl_scheduler_extra = None, hl_delay_list = None, hl_idle_task = None, hl_timeslice_ticks = 0,
     hl_scheduler_preemption_count = 0\<rparr>"

definition demo_harts :: "nat \<Rightarrow> hart_local" where
  "demo_harts = (\<lambda>_. zero_hart)(0 := zero_hart\<lparr>hl_state := HS_online, hl_current_task := Some 1, hl_scheduler := True,
     hl_scheduler_extra := Some (Local_rq 0), hl_delay_list := Some 0, hl_idle_task := Some 0, hl_timeslice_ticks := 1000\<rparr>)"

definition zero_csr :: csr where
  "zero_csr = \<lparr>csr_satp = 0, csr_mstatus = 0, csr_mtie = False, csr_medeleg = 0, csr_mideleg = 0, csr_pmpaddr0 = 0, csr_pmpcfg0 = 0\<rparr>"

text \<open>Zero-initialised storage, as the boot code leaves it.\<close>

definition power_on :: "memst \<Rightarrow> kst" where
  "power_on ms = \<lparr>k_tasks = (\<lambda>_. zero_task), k_trackers = (\<lambda>_. zero_tracker), k_task_slots_used = (\<lambda>_. False),
     k_tracker_slots_used = (\<lambda>_. False), k_root_tasks = None, k_next_tid = 1, k_initial_task_id = 0, k_tm_initialized = False,
     k_run_queues = (\<lambda>_. empty_rq), k_delay_queues = (\<lambda>_. None), k_time_initialized = False, k_slot_allocated = (\<lambda>_. False),
     k_endpoints = (\<lambda>_. zero_endpoint), k_harts = (\<lambda>i. zero_hart\<lparr>hl_index := of_nat i\<rparr>), k_present_count = 0, k_vmm = vmm_init,
     k_ms = ms, k_csr = (\<lambda>_. zero_csr), k_mtimecmp = (\<lambda>_. UINT64_MAX), k_clock = (\<lambda>i. of_nat i), k_reads = 0, k_log = [],
     k_reported = \<lparr>g_create_reported = False, g_context_switch_reported = False, g_end_reported = False, g_wait_reported = False,
       g_wait_block_reported = False, g_detach_reported = False, g_idle_reported = False\<rparr>\<rparr>"

definition demo :: kst where
  "demo = (power_on (pm_example lc0))\<lparr>k_tasks := demo_tasks, k_trackers := demo_trackers, k_task_slots_used := (\<lambda>t. t < 5),
     k_tracker_slots_used := (\<lambda>x. x < 5), k_root_tasks := Some 1, k_next_tid := 6, k_initial_task_id := 2,
     k_tm_initialized := True, k_time_initialized := True,
     k_run_queues := (\<lambda>_. empty_rq)(Global_rq := \<lparr>rq_head = Some 2, rq_tail = Some 2, rq_size = 1\<rparr>),
     k_delay_queues := (\<lambda>_. None)(0 := Some 3), k_slot_allocated := (\<lambda>e. e < 2), k_endpoints := demo_endpoints,
     k_harts := demo_harts, k_present_count := 1\<rparr>"

definition demo_ghost :: ghost where
  "demo_ghost = \<lparr>g_rq = (\<lambda>_. [])(Global_rq := [2]), g_dq = (\<lambda>_. [])(0 := [3]), g_wq = (\<lambda>_. [])(1 := [4]),
     g_ch = (\<lambda>_. [])(None := [1, 0], Some 1 := [4, 3, 2]), g_out = {}\<rparr>"

lemma less_5: "(n :: nat) < 5 \<longleftrightarrow> n = 0 \<or> n = 1 \<or> n = 2 \<or> n = 3 \<or> n = 4"
  by auto

lemmas demo_defs = demo_def power_on_def demo_tasks_def demo_task_def demo_trackers_def demo_tracker_def demo_endpoints_def
  demo_harts_def zero_hart_def zero_task_def zero_tracker_def zero_endpoint_def zero_delay_def zero_message_wait_def zero_wait_def empty_rq_def

lemma demo_sim: "sim demo_ghost (erase demo) demo"
proof (rule simI)
  show "rq_rep demo_ghost demo" unfolding rq_rep_def family_def by (auto simp: demo_defs demo_ghost_def)
  show "dq_rep demo_ghost demo" unfolding dq_rep_def family_def by (auto simp: demo_defs demo_ghost_def)
  show "wq_rep demo_ghost demo" unfolding wq_rep_def family_def by (auto simp: demo_defs demo_ghost_def)
  show "ch_rep demo_ghost demo" unfolding ch_rep_def family_def by (auto simp: demo_defs demo_ghost_def less_5 split: if_splits)
qed simp

lemma demo_kinv: "kinv {} demo_ghost (view (erase demo))"
proof -
  have "task_inv {} {} (view (erase demo))"
    by (rule task_invI) (auto simp: demo_defs less_5 kMaxTasks_def placed_def place_def split: if_splits)
  moreover have "hart_inv {} {} (view (erase demo))"
    by (rule hart_invI) (auto simp: demo_defs kMaxHarts_def hart_bound_def split: if_splits)
  moreover have "queue_inv demo_ghost (view (erase demo))"
    by (auto simp: queue_inv_def demo_ghost_def demo_defs)
  moreover have "ep_inv demo_ghost (view (erase demo))"
    by (auto simp: ep_inv_def ep_wf_def demo_ghost_def demo_defs kEndpointQueueDepth_def kMaxGeneration_def)
  moreover have "tree_inv (view (erase demo))"
    by (rule tree_invI) (auto simp: demo_defs less_5 kMaxTasks_def split: if_splits)
  moreover have "join_inv (view (erase demo))"
    by (auto simp: join_inv_def demo_defs less_5 split: if_splits)
  ultimately show ?thesis by (simp add: kinv_def qinv_def)
qed

lemma demo_ok: "kernel_ok demo"
  unfolding kernel_ok_def using demo_sim demo_kinv by blast

text \<open>A linker image, a frame of a yield and the handles of the two endpoints.\<close>

definition sample_image :: image where
  "sample_image = \<lparr>im_user_idle_task = 0x80201000, im_user_init_task = 0x80201100, im_user_task_end_stub = 0x80201200,
     im_user_text_start = 0x80201000, im_user_text_end = 0x80202000, im_pool_start = 0x80300000, im_pool_end = 0x80400000,
     im_task_stacks = 0x80210000, im_hart_stacks = 0x80280000, im_hart_trap_stacks = 0x80290000\<rparr>"

definition yield_frame :: trap_frame where
  "yield_frame = zero_frame\<lparr>tf_mcause := 8\<rparr>"

definition demo_handle :: "u32 \<Rightarrow> u64" where
  "demo_handle i = EndpointHandle_raw \<lparr>eh_index = i, eh_generation = 1\<rparr>"

end
