(* ===== verification/Kernel_Queues.thy ===== *)
theory Kernel_Queues
  imports Kernel_Example
begin

text \<open>
  The queues of a kernel state as lists read off its links: the global run queue, the delay
  queue of a hart and the receivers waiting at an endpoint.  In a state that satisfies the kernel
  invariant the state of a task says in which of them it is, and the scheduling decisions of a
  hart rotate the run queue.
\<close>

section \<open>The queues as lists\<close>

text \<open>At most \<open>n\<close> elements of the list that starts at \<open>p\<close>.\<close>

fun follow :: "(nat \<Rightarrow> nat ptr) \<Rightarrow> nat \<Rightarrow> nat ptr \<Rightarrow> nat list" where
  "follow next 0 p = []"
| "follow next (Suc n) p = (case p of None \<Rightarrow> [] | Some x \<Rightarrow> x # follow next n (next x))"

lemma follow_chain: "chain P N p xs \<Longrightarrow> length xs \<le> n \<Longrightarrow> follow N n (first xs) = xs"
proof (induction xs arbitrary: p n)
  case Nil
  then show ?case by (cases n) auto
next
  case (Cons x xs)
  then obtain m where "n = Suc m" by (cases n) auto
  with Cons show ?case by auto
qed

definition ready_queue :: "kst \<Rightarrow> nat list" where
  "ready_queue s = follow (\<lambda>t. t_next (k_tasks s t)) kMaxTasks (rq_head (k_run_queues s Global_rq))"

definition sleep_queue :: "nat \<Rightarrow> kst \<Rightarrow> nat list" where
  "sleep_queue h s = follow (\<lambda>t. dn_next (t_delay (k_tasks s t))) kMaxTasks (k_delay_queues s h)"

definition waiters :: "nat \<Rightarrow> kst \<Rightarrow> nat list" where
  "waiters e s = follow (\<lambda>t. mw_next (t_message_wait (k_tasks s t))) kMaxTasks (ep_waiting_head (k_endpoints s e))"

lemma family_follow:
  assumes "family P N Q ls" and "\<And>t. Q t \<Longrightarrow> t < kMaxTasks"
  shows "follow N kMaxTasks (first (ls q)) = ls q"
proof (rule follow_chain [OF familyD(1) [OF assms(1)]])
  show "length (ls q) \<le> kMaxTasks"
    using assms familyD(2,3) [OF assms(1), where q = q] by (intro distinct_length_le_bound) auto
qed

lemma kernel_lists:
  assumes S: "sim G c s" and K: "kinv Hx G (view c)"
  shows "ready_queue s = g_rq G Global_rq" "sleep_queue h s = g_dq G h" "waiters e s = g_wq G e"
proof -
  note T = task_invD [OF qinvD(1) [OF kinvD(1) [OF K]]] and R = sim_reads [OF S]
  have "\<not> k_task_slots_used c t \<Longrightarrow> free (view c) t" for t using T(4) [of t] by simp
  then have B: "t_queued (k_tasks s t) \<or> dn_queued (t_delay (k_tasks s t)) \<or> mw_queued (t_message_wait (k_tasks s t)) \<Longrightarrow> t < kMaxTasks" for t
    using T(1) [of t] by (auto simp: R)
  show "ready_queue s = g_rq G Global_rq"
    unfolding ready_queue_def R by (rule family_follow [OF sim_rq_family [OF S]]) (use B in blast)
  show "sleep_queue h s = g_dq G h"
    unfolding sleep_queue_def R by (rule family_follow [OF sim_dq_family [OF S]]) (use B in blast)
  show "waiters e s = g_wq G e"
    unfolding waiters_def R by (rule family_follow [OF sim_wq_family [OF S]]) (use B in blast)
qed

lemma kernel_okE:
  assumes "kernel_ok s"
  obtains G c where "sim G c s" "kinv {} G (view c)" "ready_queue s = g_rq G Global_rq"
    "\<And>h. sleep_queue h s = g_dq G h" "\<And>e. waiters e s = g_wq G e"
  using assms kernel_lists unfolding kernel_ok_def by blast

section \<open>Every task is in its place\<close>

lemma task_places:
  assumes "kernel_ok s" and "k_task_slots_used s t" and "\<not> t_idle (k_tasks s t)"
  shows "t_state (k_tasks s t) \<in> {TS_running, TS_ready, TS_blocked_sleep, TS_blocked_message, TS_blocked_join}"
    "t_state (k_tasks s t) = TS_running \<longleftrightarrow> (\<exists>h < k_present_count s. hl_current_task (k_harts s h) = Some t)"
    "t_state (k_tasks s t) = TS_ready \<longleftrightarrow> t \<in> set (ready_queue s)"
    "t_state (k_tasks s t) = TS_blocked_sleep \<longleftrightarrow> (\<exists>h < k_present_count s. t \<in> set (sleep_queue h s))"
    "t_state (k_tasks s t) = TS_blocked_message \<longleftrightarrow> (\<exists>e. t \<in> set (waiters e s))"
proof -
  obtain G c where g: "sim G c s" "kinv {} G (view c)" "ready_queue s = g_rq G Global_rq"
    "\<And>h. sleep_queue h s = g_dq G h" "\<And>e. waiters e s = g_wq G e" by (rule kernel_okE [OF assms(1)]) blast
  note R = sim_reads [OF g(1)] and Q = kinvD(1) [OF g(2)] and T = task_invD [OF qinvD(1) [OF kinvD(1) [OF g(2)]]]
    and H = hart_invD [OF qinvD(2) [OF kinvD(1) [OF g(2)]]]
  have p: "placed {} (view c) t" using T(6) [of t] assms(2,3) by (simp add: R)
  have rq: "t_queued (k_tasks c t) \<longleftrightarrow> t \<in> set (g_rq G Global_rq)"
    using sim_queued [OF g(1), of t] qinvD(3) [OF Q] unfolding queue_inv_def
    by (metis empty_iff empty_set rqid.exhaust)
  have dq: "dn_queued (t_delay (k_tasks c t)) \<longleftrightarrow> (\<exists>h < k_present_count c. t \<in> set (g_dq G h))"
    using sim_delayed [OF g(1), of t] qinvD(3) [OF Q] unfolding queue_inv_def
    by (metis empty_iff empty_set view_simps(21))
  note wq = sim_waiting [OF g(1), of t]
  have cur: "(\<exists>h < k_present_count c. hl_current_task (k_harts c h) = Some t) \<Longrightarrow> t_state (k_tasks c t) = TS_running"
    using H(6) [of _ t] by auto
  have run: "t_state (k_tasks c t) = TS_running \<Longrightarrow> \<exists>h < k_present_count c. hl_current_task (k_harts c h) = Some t"
    using p H(5) [of _ t] by (auto simp: placed_def place_def)
  show "t_state (k_tasks s t) \<in> {TS_running, TS_ready, TS_blocked_sleep, TS_blocked_message, TS_blocked_join}"
    "t_state (k_tasks s t) = TS_running \<longleftrightarrow> (\<exists>h < k_present_count s. hl_current_task (k_harts s h) = Some t)"
    "t_state (k_tasks s t) = TS_ready \<longleftrightarrow> t \<in> set (ready_queue s)"
    "t_state (k_tasks s t) = TS_blocked_sleep \<longleftrightarrow> (\<exists>h < k_present_count s. t \<in> set (sleep_queue h s))"
    "t_state (k_tasks s t) = TS_blocked_message \<longleftrightarrow> (\<exists>e. t \<in> set (waiters e s))"
    unfolding g(3-5) R rq [symmetric] dq [symmetric] wq [symmetric]
    using p cur run by (auto simp: placed_def place_def)
qed


section \<open>Scheduling in turn\<close>

text \<open>One scheduling decision of a hart: its task goes to the back of the queue, the front runs.\<close>

definition take_turn :: "nat \<Rightarrow> kst \<Rightarrow> kst option" where
  "take_turn h s = do { s1 \<leftarrow> Scheduler_return_runnable h s; (_, s2) \<leftarrow> Scheduler_set_next_runnable h s1; Some s2 }"

fun take_turns :: "nat \<Rightarrow> nat \<Rightarrow> kst \<Rightarrow> kst option" where
  "take_turns 0 h s = Some s"
| "take_turns (Suc n) h s = do { s1 \<leftarrow> take_turn h s; take_turns n h s1 }"

lemma take_turn_rotates:
  assumes "kernel_ok s" and "hl_current_task (k_harts s h) = Some t" and "\<not> t_idle (k_tasks s t)"
  shows "\<exists>s'. take_turn h s = Some s' \<and> kernel_ok s' \<and> hl_current_task (k_harts s' h) = Some (hd (ready_queue s @ [t])) \<and>
    \<not> t_idle (k_tasks s' (hd (ready_queue s @ [t]))) \<and> ready_queue s' = tl (ready_queue s @ [t])"
proof -
  obtain G c where g: "sim G c s" "kinv {} G (view c)" "ready_queue s = g_rq G Global_rq" by (rule kernel_okE [OF assms(1)]) blast
  note R = sim_reads [OF g(1)]
  have cur: "hl_current_task (k_harts c h) = Some t" and ni: "\<not> t_idle (k_tasks c t)" using assms(2,3) by (simp_all add: R)
  obtain s1 where r: "Scheduler_return_runnable h s = Some s1" "sim (requeue_G t c G) (requeue t c) s1"
    "kinv {h} (requeue_G t c G) (view (requeue t c))" using return_runnable_sim [OF g(1,2) cur] by blast
  let ?G = "requeue_G t c G" and ?c = "requeue t c"
  have q: "g_rq ?G Global_rq = g_rq G Global_rq @ [t]" using ni by (simp add: requeue_G_def enq_rq_def)
  have h: "h < k_present_count ?c" using current_facts(4) [OF g(2) cur] by simp
  obtain c' s2 where n: "Scheduler_set_next_runnable h s1 = Some (next_task h ?G ?c, s2)" "sim (deq_rq Global_rq ?G) c' s2"
    "kinv {} (deq_rq Global_rq ?G) (view c')" "hl_current_task (k_harts c' h) = Some (next_task h ?G ?c)"
    "\<exists>ticks r. c' = switch_to h (next_task h ?G ?c) ticks r ?c"
    using reschedule [OF r(2,3) h] by blast
  let ?u = "hd (ready_queue s @ [t])"
  have u: "next_task h ?G ?c = ?u" using q g(3) by (cases "g_rq G Global_rq") (simp_all add: next_task_def)
  have "?u \<in> set (g_rq ?G Global_rq)" using q g(3) by (metis append_is_Nil_conv hd_in_set not_Cons_self2)
  then have "t_queued (k_tasks ?c ?u)" using sim_queued [OF r(2)] by blast
  then have "\<not> t_idle (k_tasks ?c ?u)"
    using task_invD(4,5) [OF qinvD(1) [OF kinvD(1) [OF r(3)]], of ?u] by auto
  then have idle: "\<not> t_idle (k_tasks c' ?u)" using n(5) u by (auto simp: switch_to_def)
  have "ready_queue s2 = tl (ready_queue s @ [t])"
    using kernel_lists(1) [OF n(2,3)] q g(3) by (simp add: deq_rq_def)
  then show ?thesis
    using r(1) n(1,4) idle u n(2,3) unfolding take_turn_def kernel_ok_def by (auto simp: sim_reads [OF n(2)])
qed

lemma take_turns_rotates:
  assumes "kernel_ok s" and "hl_current_task (k_harts s h) = Some t" and "\<not> t_idle (k_tasks s t)"
  shows "\<exists>s' u. take_turns n h s = Some s' \<and> kernel_ok s' \<and> hl_current_task (k_harts s' h) = Some u \<and> \<not> t_idle (k_tasks s' u) \<and>
    u # ready_queue s' = rotate n (t # ready_queue s)"
  using assms
proof (induction n arbitrary: s t)
  case 0
  then show ?case by simp
next
  case (Suc n)
  obtain s1 where s1: "take_turn h s = Some s1" "kernel_ok s1" "hl_current_task (k_harts s1 h) = Some (hd (ready_queue s @ [t]))"
    "\<not> t_idle (k_tasks s1 (hd (ready_queue s @ [t])))" "ready_queue s1 = tl (ready_queue s @ [t])"
    using take_turn_rotates [OF Suc.prems] by (elim exE conjE) (rule that)
  have "hd (ready_queue s @ [t]) # ready_queue s1 = rotate1 (t # ready_queue s)"
    unfolding s1(5) by (cases "ready_queue s") simp_all
  with Suc.IH [OF s1(2-4)] show ?case using s1(1) by (auto simp: rotate1_rotate_swap simp del: rotate1.simps)
qed

text \<open>The task at position \<open>i\<close> of the queue runs after \<open>i + 1\<close> decisions.\<close>

lemma take_turns_reaches:
  assumes "kernel_ok s" and "hl_current_task (k_harts s h) = Some t" and "\<not> t_idle (k_tasks s t)" and "i < length (ready_queue s)"
  shows "\<exists>s'. take_turns (Suc i) h s = Some s' \<and> hl_current_task (k_harts s' h) = Some (ready_queue s ! i)"
proof -
  obtain s' u where t: "take_turns (Suc i) h s = Some s'" "hl_current_task (k_harts s' h) = Some u"
    "u # ready_queue s' = rotate (Suc i) (t # ready_queue s)"
    using take_turns_rotates [OF assms(1-3), of "Suc i"] by (elim exE conjE) (rule that)
  have "u = rotate (Suc i) (t # ready_queue s) ! 0" using t(3) by (metis nth_Cons_0)
  also have "\<dots> = ready_queue s ! i" using assms(4) by (subst nth_rotate) simp_all
  finally show ?thesis using t(1,2) by blast
qed

end
