(* ===== verification/Ipc_Contract.thy ===== *)
theory Ipc_Contract
  imports Kernel_Queues
begin

text \<open>
  What the operations on endpoints do in a state that satisfies the kernel invariant, read off the
  queues of the state: sending, polling and blocking receives, destroying an endpoint, with every
  error.  The generation of an endpoint only grows, so a handle that has expired stays dead.
\<close>


section \<open>Live handles\<close>

definition endpoint_of :: "u64 \<Rightarrow> nat" where
  "endpoint_of handle = unat (eh_index (EndpointHandle_from_raw handle))"

definition live_handle :: "u64 \<Rightarrow> kst \<Rightarrow> bool" where
  "live_handle handle s \<longleftrightarrow> handle_well_formed (EndpointHandle_from_raw handle) \<and> ep_active (k_endpoints s (endpoint_of handle)) \<and>
     ep_generation (k_endpoints s (endpoint_of handle)) = eh_generation (EndpointHandle_from_raw handle)"

text \<open>What a receiver finds in its registers.\<close>

definition received :: "nat \<Rightarrow> kst \<Rightarrow> u64 \<times> message" where
  "received w s = (task_x w 10 s, \<lparr>msg_sender = task_x w 15 s, msg_word0 = task_x w 11 s, msg_word1 = task_x w 12 s,
     msg_word2 = task_x w 13 s, msg_word3 = task_x w 14 s\<rparr>)"

lemma received_written: "received w (write_recv_registers w a m s) = (of_int a, m)"
  unfolding received_def write_recv_registers_def o_apply task_x_set by simp

lemma write_recv_frame [simp]:
  "k_endpoints (set_task_x t i v s) = k_endpoints s" "k_slot_allocated (set_task_x t i v s) = k_slot_allocated s"
  "k_endpoints (write_recv_registers t a m s) = k_endpoints s" "k_slot_allocated (write_recv_registers t a m s) = k_slot_allocated s"
  unfolding write_recv_registers_def o_apply by (simp_all add: set_task_x_def)

lemma received_cong: "t_context (k_tasks s' w) = t_context (k_tasks s w) \<Longrightarrow> received w s' = received w s"
  by (simp add: received_def task_x_def)

lemma endpoint_sound:
  assumes "sim G c s" and "kinv Hx G (view c)"
  shows "check_endpoint_invariant (k_endpoints s e) = Some ()" "ep_waiting_count (k_endpoints s e) = length (g_wq G e)"
    "ep_count (k_endpoints s e) \<le> kEndpointQueueDepth" "ep_head (k_endpoints s e) < kEndpointQueueDepth"
  using ep_wfD [OF assms(2), of e] by (auto simp: check_endpoint_invariant_def sim_reads [OF assms(1)] ep_wf_def)

section \<open>Sending\<close>

lemma send_wakes:
  assumes S: "sim G c s" and K: "kinv {} G (view c)" and l: "live_handle handle s" and w: "g_wq G (endpoint_of handle) = w # ws"
  shows "\<exists>s'. send sender handle words s = Some (0, s') \<and> kernel_ok s' \<and> waiters (endpoint_of handle) s' = ws \<and>
    ready_queue s' = ready_queue s @ [w] \<and> received w s' = (0, words\<lparr>msg_sender := sender\<rparr>) \<and>
    (\<forall>e. pending (k_endpoints s' e) = pending (k_endpoints s e))"
proof -
  define i where "i = endpoint_of handle"
  let ?m = "words\<lparr>msg_sender := sender\<rparr>"
  let ?f = "\<lambda>s. upd_task w (\<lambda>x. x\<lparr>t_state_info := 0\<rparr>) (write_recv_registers w 0 ?m s)"
  have inv: "invisible ?f" by (rule invisible_comp [OF invisible_state_info write_recv_invisible])
  have K': "kinv {} G ((view c)\<lparr>v_ep := v_ep (view c), v_slot := v_slot (view c)\<rparr>)" using K by (simp only: view_ep)
  obtain s1 s2 c' where p: "waiter_pop i s = (Some w, s1)" "deref_scheduler w (?f s1) = Some ()"
    "Scheduler_add_task w (?f s1) = (True, s2)" "sim (enq_rq Global_rq w (deq_wq i G)) c' s2"
    "kinv {} (enq_rq Global_rq w (deq_wq i G)) ((view c')\<lparr>v_ep := v_ep (view c), v_slot := v_slot (view c)\<rparr>)"
    "view c' = put w TS_ready True False False (v_deadline (view c) w) (view c)"
    using waiter_wake [OF S K' w [folded i_def] inv] by blast
  have "v_ep (view c') = v_ep (view c)" "v_slot (view c') = v_slot (view c)" unfolding p(6) by (rule put_simps)+
  then have K2: "kinv {} (enq_rq Global_rq w (deq_wq i G)) (view c')" using p(5) by (metis view_ep)
  have "ep_waiting_count (k_endpoints s i) > 0" using endpoint_sound(2) [OF S K, of i] w by (simp add: i_def)
  then have r: "send sender handle words s = Some (0, s2)"
    using l p(1-3) endpoint_sound(1) [OF S K] by (simp add: send_def live_handle_def Let_def i_def endpoint_of_def)
  have "received w s2 = received w (write_recv_registers w 0 ?m s1)"
    by (rule received_cong) (simp add: add_task_frame(1) [OF p(3)])
  then have "received w s2 = (0, ?m)" by (simp add: received_written)
  moreover have "pending (k_endpoints s2 e) = pending (k_endpoints s e)" for e
    using add_task_frame(2) [OF p(3)] pending_erase [OF waiter_pop_frame(2) [OF p(1)], of e] by simp
  moreover have "waiters i s2 = ws" "ready_queue s2 = ready_queue s @ [w]"
    using kernel_lists [OF p(4) K2] kernel_lists(1) [OF S K] w by (simp_all add: enq_rq_def deq_wq_def i_def)
  ultimately show ?thesis using r p(4) K2 unfolding kernel_ok_def i_def by blast
qed

lemma send_spec:
  assumes "kernel_ok s"
  shows "\<exists>r s'. send sender handle words s = Some (r, s') \<and> kernel_ok s' \<and>
    (if \<not> live_handle handle s then r = kErrorInvalidArgument \<and> s' = s
     else case waiters (endpoint_of handle) s of
       w # ws \<Rightarrow> r = 0 \<and> waiters (endpoint_of handle) s' = ws \<and> ready_queue s' = ready_queue s @ [w] \<and>
         received w s' = (0, words\<lparr>msg_sender := sender\<rparr>) \<and> (\<forall>e. pending (k_endpoints s' e) = pending (k_endpoints s e))
     | [] \<Rightarrow> if length (pending (k_endpoints s (endpoint_of handle))) = kEndpointQueueDepth then r = kErrorAgain \<and> s' = s
         else r = 0 \<and> s' = upd_ep (endpoint_of handle) (push_message (words\<lparr>msg_sender := sender\<rparr>)) s \<and>
           pending (k_endpoints s' (endpoint_of handle)) = pending (k_endpoints s (endpoint_of handle)) @ [words\<lparr>msg_sender := sender\<rparr>])"
proof -
  obtain G c where g: "sim G c s" "kinv {} G (view c)" "\<And>e. waiters e s = g_wq G e" by (rule kernel_okE [OF assms]) blast
  let ?e = "endpoint_of handle"
  show ?thesis
  proof (cases "live_handle handle s")
    case False
    then have "send sender handle words s = Some (kErrorInvalidArgument, s)"
      by (auto simp: send_def live_handle_def endpoint_of_def Let_def)
    with False assms show ?thesis by simp
  next
    case live: True
    show ?thesis
    proof (cases "g_wq G ?e")
      case (Cons w ws)
      with send_wakes [OF g(1,2) live Cons, of sender words] live show ?thesis by (auto simp: g(3))
    next
      case Nil
      note E = endpoint_sound [OF g(1,2), of ?e]
      show ?thesis
      proof (cases "ep_count (k_endpoints s ?e) = kEndpointQueueDepth")
        case True
        then have "send sender handle words s = Some (kErrorAgain, s)"
          using live E(1,2) Nil by (simp add: send_def live_handle_def endpoint_of_def Let_def)
        with True live Nil assms show ?thesis by (simp add: g(3) length_pending)
      next
        case False
        let ?f = "push_message (words\<lparr>msg_sender := sender\<rparr>)"
        have r: "send sender handle words s = Some (0, upd_ep ?e ?f s)"
          using live E Nil False by (simp add: send_def live_handle_def endpoint_of_def Let_def)
        have "ep_wf (k_slot_allocated c ?e) (g_wq G ?e \<noteq> []) (?f (k_endpoints c ?e))"
          using ep_wf_push [of "k_slot_allocated c ?e" "k_endpoints c ?e"] ep_wfD [OF g(2), of ?e] Nil False live E(3)
          by (simp add: sim_reads [OF g(1)] live_handle_def)
        from upd_ep_kinv [OF g(1,2) ep_safe_ops(2) this] have "kernel_ok (upd_ep ?e ?f s)" unfolding kernel_ok_def by blast
        moreover have "pending (?f (k_endpoints s ?e)) = pending (k_endpoints s ?e) @ [words\<lparr>msg_sender := sender\<rparr>]"
          using E(3) False by (intro pending_push) simp
        ultimately show ?thesis using r live Nil False by (simp add: g(3) length_pending)
      qed
    qed
  qed
qed

section \<open>Receiving\<close>

lemma try_recv_spec:
  assumes "kernel_ok s"
  shows "kernel_ok (snd (snd (try_recv handle out s))) \<and>
    (if \<not> out \<or> \<not> live_handle handle s then try_recv handle out s = (kErrorInvalidArgument, None, s)
     else case pending (k_endpoints s (endpoint_of handle)) of
       [] \<Rightarrow> try_recv handle out s = (kErrorAgain, None, s)
     | m # ms \<Rightarrow> (\<exists>s'. try_recv handle out s = (0, Some m, s') \<and> s' = upd_ep (endpoint_of handle) pop_message s \<and>
         pending (k_endpoints s' (endpoint_of handle)) = ms))"
proof -
  obtain G c where g: "sim G c s" "kinv {} G (view c)" by (rule kernel_okE [OF assms]) blast
  let ?e = "endpoint_of handle"
  note u = upd_ep_kinv [OF g ep_safe_ops(1) ep_wf_pop [OF ep_wfD [OF g(2)]]]
  have ok: "kernel_ok (upd_ep ?e pop_message s)" using u unfolding kernel_ok_def by blast
  show ?thesis
  proof (cases "out \<and> live_handle handle s")
    case False
    then show ?thesis using assms by (auto simp: try_recv_def live_handle_def endpoint_of_def Let_def)
  next
    case live: True
    note E = endpoint_sound [OF g, of ?e]
    show ?thesis
    proof (cases "ep_count (k_endpoints s ?e) = 0")
      case True
      then show ?thesis using live assms by (simp add: try_recv_def live_handle_def endpoint_of_def Let_def pending_def)
    next
      case False
      note p = pending_pop [OF E(4,3) False]
      have "try_recv handle out s = (0, Some (ep_queue (k_endpoints s ?e) (ep_head (k_endpoints s ?e))), upd_ep ?e pop_message s)"
        using live False by (simp add: try_recv_def live_handle_def endpoint_of_def Let_def)
      then show ?thesis using live p ok by simp
    qed
  qed
qed

lemma recv_blocks:
  assumes g: "sim G c s" "kinv {} G (view c)" and cur: "hl_current_task (k_harts s h) = Some t" and idle: "\<not> t_idle (k_tasks s t)"
    and live: "live_handle handle s" and empty: "ep_count (k_endpoints s (endpoint_of handle)) = 0"
  shows "\<exists>r s'. recv h t handle s = Some (r, s') \<and> kernel_ok s' \<and> rr_status r = RS_blocked \<and>
    waiters (endpoint_of handle) s' = waiters (endpoint_of handle) s @ [t] \<and>
    hl_current_task (k_harts s' h) = Some (hd (ready_queue s @ [the (hl_idle_task (k_harts s h))])) \<and>
    ready_queue s' = tl (ready_queue s) \<and> (\<forall>e. erase_ep (k_endpoints s' e) = erase_ep (k_endpoints s e))"
proof -
  define i where "i = endpoint_of handle"
  note R = sim_reads [OF g(1)] and L = kernel_lists [OF g]
  have cur': "hl_current_task (k_harts c h) = Some t" and idle': "\<not> t_idle (k_tasks c t)"
    and ep: "ep_active (k_endpoints c i)" "ep_count (k_endpoints c i) = 0"
    using cur idle live empty by (simp_all add: R live_handle_def i_def)
  note b = block_on_endpoint [OF g cur' idle' ep, of handle] and cf = current_facts [OF g(2) cur']
  let ?f = "\<lambda>x. x\<lparr>t_state := TS_blocked_message, t_state_info := handle\<rparr>"
  let ?c = "upd_task t ?f (upd_task t (set_waiting True) c)" and ?s = "upd_task t ?f (waiter_push i t s)" and ?G = "enq_wq i t G"
  have d: "deref_scheduler t ?s = Some ()"
    using cf(1) by (intro deref_scheduler_ok [OF b(1) kinvD(1) [OF b(2)]]) simp
  obtain c2 s2 where n: "Scheduler_set_next_runnable h ?s = Some (next_task h ?G ?c, s2)" "sim (deq_rq Global_rq ?G) c2 s2"
    "kinv {} (deq_rq Global_rq ?G) (view c2)" "hl_current_task (k_harts c2 h) = Some (next_task h ?G ?c)"
    "\<exists>ticks r. c2 = switch_to h (next_task h ?G ?c) ticks r ?c"
    using reschedule [OF b] cf(4) by auto
  have nt: "next_task h ?G ?c = hd (ready_queue s @ [the (hl_idle_task (k_harts s h))])"
    using L(1) by (cases "g_rq G Global_rq") (simp_all add: next_task_def enq_wq_def R)
  have "recv h t handle s = Some (\<lparr>rr_status = RS_blocked, rr_message = zero_message, rr_error = 0\<rparr>, s2)"
    using live empty endpoint_sound(1) [OF g] cf(7) d n(1)
    by (simp add: recv_def live_handle_def i_def endpoint_of_def Let_def R)
  moreover have "waiters i s2 = waiters i s @ [t]" "ready_queue s2 = tl (ready_queue s)"
    using kernel_lists [OF n(2,3)] L by (simp_all add: deq_rq_def enq_wq_def)
  moreover have "k_endpoints c2 = k_endpoints c" using n(5) by (auto simp: switch_to_def)
  then have "erase_ep (k_endpoints s2 e) = erase_ep (k_endpoints s e)" for e
    unfolding simD(1) [OF n(2)] simD(1) [OF g(1)] erase_simps(3) [symmetric] by simp
  moreover have "hl_current_task (k_harts s2 h) = Some (hd (ready_queue s @ [the (hl_idle_task (k_harts s h))]))"
    using n(4) nt by (simp add: sim_reads [OF n(2)])
  moreover have "kernel_ok s2" using n(2,3) unfolding kernel_ok_def by blast
  ultimately show ?thesis unfolding i_def by simp
qed

lemma recv_spec:
  assumes "kernel_ok s" and cur: "hl_current_task (k_harts s h) = Some t" and idle: "\<not> t_idle (k_tasks s t)"
  shows "\<exists>r s'. recv h t handle s = Some (r, s') \<and> kernel_ok s' \<and>
    (if \<not> live_handle handle s
     then rr_status r = RS_rejected \<and> rr_error r = kErrorInvalidArgument \<and> s' = set_task_x t 10 (of_int kErrorInvalidArgument) s
     else case pending (k_endpoints s (endpoint_of handle)) of
       m # ms \<Rightarrow> rr_status r = RS_delivered \<and> rr_message r = m \<and> received t s' = (0, m) \<and>
         pending (k_endpoints s' (endpoint_of handle)) = ms
     | [] \<Rightarrow> rr_status r = RS_blocked \<and> waiters (endpoint_of handle) s' = waiters (endpoint_of handle) s @ [t] \<and>
         hl_current_task (k_harts s' h) = Some (hd (ready_queue s @ [the (hl_idle_task (k_harts s h))])) \<and>
         ready_queue s' = tl (ready_queue s))"
proof -
  obtain G c where g: "sim G c s" "kinv {} G (view c)" by (rule kernel_okE [OF assms(1)]) blast
  let ?e = "endpoint_of handle"
  note R = sim_reads [OF g(1)] and E = endpoint_sound [OF g, of ?e]
  have nq: "\<not> mw_queued (t_message_wait (k_tasks s t))"
    using current_facts(7) [OF g(2)] cur by (simp add: R)
  show ?thesis
  proof (cases "live_handle handle s")
    case False
    have "kernel_ok (set_task_x t 10 (of_int kErrorInvalidArgument) s)"
      using set_task_x_sim [OF g(1)] g(2) unfolding kernel_ok_def by (metis set_task_x_simps(1))
    with False nq show ?thesis by (auto simp: recv_def live_handle_def endpoint_of_def Let_def)
  next
    case live: True
    show ?thesis
    proof (cases "ep_count (k_endpoints s ?e) = 0")
      case True
      have p: "pending (k_endpoints s ?e) = []" using True by (simp add: pending_def)
      show ?thesis
        using recv_blocks [OF g cur idle live True] unfolding p list.case if_not_P [OF not_not [THEN iffD2, OF live]]
        by (elim exE conjE) (intro exI conjI)
    next
      case False
      note p = pending_pop [OF E(4,3) False]
      let ?m = "ep_queue (k_endpoints s ?e) (ep_head (k_endpoints s ?e))"
      let ?s = "write_recv_registers t 0 ?m (upd_ep ?e pop_message s)"
      note u = upd_ep_kinv [OF g ep_safe_ops(1) ep_wf_pop [OF ep_wfD [OF g(2)]], of ?e]
      note i = invisibleD [OF write_recv_invisible [of t 0 ?m]]
      have "kernel_ok ?s" unfolding kernel_ok_def using i(1) [OF u(1)] u(2) i(2) by metis
      moreover have "recv h t handle s = Some (\<lparr>rr_status = RS_delivered, rr_message = ?m, rr_error = 0\<rparr>, ?s)"
        using live False E(1) nq by (simp add: recv_def live_handle_def endpoint_of_def Let_def)
      ultimately show ?thesis using live p by (simp add: received_written)
    qed
  qed
qed

section \<open>Expired handles\<close>

text \<open>
  A handle has expired when its slot has moved on to a later generation or is retired: no
  sequence of operations brings it back to life.
\<close>

definition expired :: "u64 \<Rightarrow> kst \<Rightarrow> bool" where
  "expired handle s \<longleftrightarrow> (let ep = k_endpoints s (endpoint_of handle); g = eh_generation (EndpointHandle_from_raw handle) in
     g < ep_generation ep \<or> ep_generation ep = g \<and> ep_retired ep)"

lemma expired_dead:
  assumes "kernel_ok s" and "expired handle s"
  shows "\<not> live_handle handle s"
proof -
  obtain G c where g: "sim G c s" "kinv {} G (view c)" by (rule kernel_okE [OF assms(1)]) blast
  show ?thesis
    using ep_wfD [OF g(2), of "endpoint_of handle"] assms(2)
    by (auto simp: expired_def live_handle_def Let_def ep_wf_def sim_reads [OF g(1)])
qed

lemma expired_cong: "\<forall>e. erase_ep (k_endpoints s' e) = erase_ep (k_endpoints s e) \<Longrightarrow> expired handle s' = expired handle s"
  unfolding expired_def Let_def by (metis erase_ep_simps)

section \<open>Destroying\<close>

lemma torn_down_expires:
  assumes "ep_active ep" and "ep_generation ep \<le> kMaxGeneration"
  shows "\<not> ep_active (torn_down ep)" "ep_count (torn_down ep) = 0"
    "ep_generation ep < ep_generation (torn_down ep) \<or> ep_generation (torn_down ep) = ep_generation ep \<and> ep_retired (torn_down ep)"
proof -
  have "ep_generation ep < kMaxGeneration \<Longrightarrow> ep_generation ep < ep_generation ep + 1"
    unfolding kMaxGeneration_def by (unat_arith, simp)
  then show "\<not> ep_active (torn_down ep)" "ep_count (torn_down ep) = 0"
    "ep_generation ep < ep_generation (torn_down ep) \<or> ep_generation (torn_down ep) = ep_generation ep \<and> ep_retired (torn_down ep)"
    using assms(2) by (simp_all add: torn_down_def Let_def clear_queue_def not_le)
qed

lemma erase_torn_down:
  "erase_ep (erase_ep x) = erase_ep x" "erase_ep (torn_down (erase_ep x)) = erase_ep (torn_down x)"
  by (simp add: erase_ep_def) (auto simp: erase_ep_def torn_down_def clear_queue_def Let_def intro!: endpoint.equality)

lemma destroy_spec:
  assumes "kernel_ok s"
  shows "\<exists>r s'. destroy_endpoint caller handle s = Some (r, s') \<and> kernel_ok s' \<and>
    (if \<not> live_handle handle s then r = kErrorInvalidArgument \<and> s' = s
     else if ep_owner (k_endpoints s (endpoint_of handle)) \<noteq> caller then r = kErrorAccess \<and> s' = s
     else r = 0 \<and> expired handle s' \<and> \<not> live_handle handle s' \<and> waiters (endpoint_of handle) s' = [] \<and>
       pending (k_endpoints s' (endpoint_of handle)) = [] \<and>
       ready_queue s' = ready_queue s @ waiters (endpoint_of handle) s \<and>
       (\<forall>w. task_x w 10 s' = (if w \<in> set (waiters (endpoint_of handle) s) then of_int kErrorIdrm else task_x w 10 s)) \<and>
       (\<forall>e. e \<noteq> endpoint_of handle \<longrightarrow> erase_ep (k_endpoints s' e) = erase_ep (k_endpoints s e)))"
proof -
  obtain G c where g: "sim G c s" "kinv {} G (view c)" by (rule kernel_okE [OF assms]) blast
  let ?e = "endpoint_of handle"
  note R = sim_reads [OF g(1)] and L = kernel_lists [OF g]
  have sl: "ep_active (k_endpoints s ?e) \<Longrightarrow> k_slot_allocated s ?e"
    using ep_wfD [OF g(2), of ?e] by (simp add: ep_wf_def R)
  show ?thesis
  proof (cases "destroyable caller handle s")
    case False
    then have "destroy_endpoint caller handle s = Some (if live_handle handle s then kErrorAccess else kErrorInvalidArgument, s)"
      using sl by (auto simp: destroy_endpoint_def destroyable_def live_handle_def endpoint_of_def Let_def)
    moreover have "live_handle handle s \<Longrightarrow> ep_owner (k_endpoints s ?e) \<noteq> caller"
      using False sl by (auto simp: destroyable_def live_handle_def endpoint_of_def Let_def)
    ultimately show ?thesis using assms by auto
  next
    case True
    then have live: "live_handle handle s" "ep_owner (k_endpoints s ?e) = caller"
      by (auto simp: destroyable_def live_handle_def endpoint_of_def Let_def)
    obtain G' c' s' where d: "destroy_endpoint caller handle s = Some (0, s')" "sim G' c' s'" "kinv {} G' (view c')"
      "v_cur (view c') = v_cur (view c)" "v_ep (view c') = (v_ep (view c))(?e := erase_ep (torn_down (k_endpoints c ?e)))"
      "g_wq G' = (g_wq G)(?e := [])" "g_rq G' Global_rq = g_rq G Global_rq @ g_wq G ?e"
      "\<forall>u. t_context (k_tasks s' u) = told_removed (u \<in> set (g_wq G ?e)) (t_context (k_tasks s u))"
      using destroy_endpoint_steps [OF g True, folded endpoint_of_def] by blast
    note R' = sim_reads [OF d(2)] and L' = kernel_lists [OF d(2,3)]
    have ep: "erase_ep (k_endpoints s' e) = ((\<lambda>e. erase_ep (k_endpoints s e))(?e := erase_ep (torn_down (k_endpoints s ?e)))) e" for e
      using fun_cong [OF d(5), of e] by (simp add: view_def simD(1) [OF d(2)] simD(1) [OF g(1)] erase_torn_down split: if_splits)
    note td = torn_down_expires [of "k_endpoints s ?e"]
    have act: "ep_active (k_endpoints s ?e)" "ep_generation (k_endpoints s ?e) \<le> kMaxGeneration"
      using live(1) by (auto simp: live_handle_def handle_well_formed_def)
    note fields = arg_cong [OF ep [of ?e], of ep_active] arg_cong [OF ep [of ?e], of ep_count]
      arg_cong [OF ep [of ?e], of ep_generation] arg_cong [OF ep [of ?e], of ep_retired]
    have "\<not> ep_active (k_endpoints s' ?e)" "ep_count (k_endpoints s' ?e) = 0" using fields(1,2) td(1,2) [OF act] by simp_all
    then have "\<not> live_handle handle s'" "pending (k_endpoints s' ?e) = []" by (simp_all add: live_handle_def pending_def)
    moreover have "expired handle s'"
      using fields(3,4) td(3) [OF act] live(1) by (simp add: expired_def live_handle_def Let_def)
    moreover have "task_x w 10 s' = (if w \<in> set (waiters ?e s) then of_int kErrorIdrm else task_x w 10 s)" for w
      unfolding L using d(8) by (simp add: task_x_def told_removed_def)
    moreover have "waiters ?e s' = []" "ready_queue s' = ready_queue s @ waiters ?e s"
      using L L' d(6,7) by simp_all
    moreover have "kernel_ok s'" using d(2,3) unfolding kernel_ok_def by blast
    ultimately show ?thesis using d(1) live ep by simp
  qed
qed


section \<open>Generations only grow\<close>

definition ages :: "endpoint \<Rightarrow> endpoint \<Rightarrow> bool" where
  "ages ep ep' \<longleftrightarrow> ep_generation ep < ep_generation ep' \<or> ep_generation ep' = ep_generation ep \<and> (ep_retired ep \<longrightarrow> ep_retired ep')"

lemma expired_ages:
  assumes "expired handle s" and "\<And>e. ages (k_endpoints s e) (k_endpoints s' e)"
  shows "expired handle s'"
  using assms(1) assms(2) [of "endpoint_of handle"] by (auto simp: expired_def ages_def Let_def intro: less_trans)

lemma ages_erase: "erase_ep ep' = erase_ep ep \<Longrightarrow> ages ep ep'"
  unfolding ages_def by (metis erase_ep_simps)

lemma ages_refl: "ages ep ep"
  by (simp add: ages_def)

lemma create_ages: "ages (k_endpoints s e) (k_endpoints (snd (snd (create_endpoint owner out s))) e)"
  by (auto simp: create_endpoint_def ages_def Let_def clear_queue_def find_Some_iff split: option.splits)

lemma ages_messages: "ages ep (push_message m ep)" "ages ep (pop_message ep)"
  by (simp_all add: ages_def push_message_def pop_message_def)

lemma send_ages:
  assumes "send sender handle words s = Some (r, s')"
  shows "ages (k_endpoints s e) (k_endpoints s' e)"
proof -
  have "k_endpoints (snd (Scheduler_add_task u s1)) = k_endpoints s1" for u s1
    using add_task_frame(2) [of u s1] by (metis prod.collapse)
  moreover have "erase_ep (k_endpoints (snd (waiter_pop i s)) e) = erase_ep (k_endpoints s e)" for i
    using waiter_pop_frame(2) [of i s] by (metis prod.collapse)
  ultimately show ?thesis
    using assms by (auto simp: send_def Let_def ages_messages ages_refl ages_erase bind_eq_Some_conv split_beta split: if_splits)
qed

lemma try_recv_ages: "ages (k_endpoints s e) (k_endpoints (snd (snd (try_recv handle out s))) e)"
  by (simp add: try_recv_def Let_def ages_messages ages_refl)

lemma recv_ages:
  assumes "kernel_ok s" and cur: "hl_current_task (k_harts s h) = Some t" and idle: "\<not> t_idle (k_tasks s t)"
    and r: "recv h t handle s = Some (r, s')"
  shows "ages (k_endpoints s e) (k_endpoints s' e)"
proof (cases "live_handle handle s \<and> ep_count (k_endpoints s (endpoint_of handle)) = 0")
  case True
  obtain G c where g: "sim G c s" "kinv {} G (view c)" by (rule kernel_okE [OF assms(1)]) blast
  have "\<forall>e. erase_ep (k_endpoints s' e) = erase_ep (k_endpoints s e)"
    using recv_blocks [OF g cur idle True [THEN conjunct1] True [THEN conjunct2]] r by auto
  then show ?thesis by (simp add: ages_erase)
next
  case False
  then show ?thesis
    using r by (auto simp: recv_def live_handle_def endpoint_of_def Let_def ages_messages ages_refl bind_eq_Some_conv split: if_splits)
qed

lemma destroy_ages:
  assumes "kernel_ok s" and d: "destroy_endpoint caller handle s = Some (r, s')"
  shows "ages (k_endpoints s e) (k_endpoints s' e)"
proof (cases "live_handle handle s \<and> ep_owner (k_endpoints s (endpoint_of handle)) = caller")
  case True
  note D = destroy_spec [OF assms(1), of caller handle, unfolded d if_not_P [OF not_not [THEN iffD2, OF True [THEN conjunct1]]]
    if_not_P [OF not_not [THEN iffD2, OF True [THEN conjunct2]]]]
  have "expired handle s'" "e \<noteq> endpoint_of handle \<Longrightarrow> erase_ep (k_endpoints s' e) = erase_ep (k_endpoints s e)"
    using D by auto
  then show ?thesis
    using True ages_erase
    by (cases "e = endpoint_of handle") (auto simp: ages_def [of _ "k_endpoints s' (endpoint_of handle)"] expired_def live_handle_def Let_def)
next
  case False
  then have "s' = s" using destroy_spec [OF assms(1), of caller handle] d by (auto split: if_splits)
  then show ?thesis by (simp add: ages_refl)
qed

section \<open>Sequences of operations\<close>

text \<open>One message-passing operation of a task that runs on a hart.\<close>

inductive ipc_step :: "kst \<Rightarrow> kst \<Rightarrow> bool" where
  create: "hl_current_task (k_harts s h) = Some t \<Longrightarrow> create_endpoint owner out s = (r, handle, s') \<Longrightarrow> ipc_step s s'"
| destroy: "destroy_endpoint caller handle s = Some (r, s') \<Longrightarrow> ipc_step s s'"
| send: "send sender handle words s = Some (r, s') \<Longrightarrow> ipc_step s s'"
| try_recv: "try_recv handle out s = (r, m, s') \<Longrightarrow> ipc_step s s'"
| recv: "hl_current_task (k_harts s h) = Some t \<Longrightarrow> \<not> t_idle (k_tasks s t) \<Longrightarrow> recv h t handle s = Some (r, s') \<Longrightarrow> ipc_step s s'"

lemma ipc_step_ok:
  assumes "ipc_step s s'" and "kernel_ok s"
  shows "kernel_ok s'" and "ages (k_endpoints s e) (k_endpoints s' e)"
proof -
  have "kernel_ok s' \<and> ages (k_endpoints s e) (k_endpoints s' e)"
    using assms
  proof (cases rule: ipc_step.cases)
    case (create h t owner out r handle)
    then have "ok_at h s" using assms(2) by (simp add: ok_at_iff)
    from create_endpoint_ok [OF this, of owner out] create_ages [of s e owner out] create(2) show ?thesis
      by (simp add: ok_at_iff)
  next
    case (destroy caller handle r)
    then show ?thesis using destroy_spec [OF assms(2), of caller handle] destroy_ages [OF assms(2) destroy] by auto
  next
    case (send sender handle words r)
    then show ?thesis using send_spec [OF assms(2), of sender handle words] send_ages [OF send] by auto
  next
    case (try_recv handle out r m)
    then show ?thesis using try_recv_spec [OF assms(2), of handle out] try_recv_ages [of s e handle out] by simp
  next
    case (recv h t handle r)
    then show ?thesis using recv_spec [OF assms(2) recv(1,2), of handle] recv_ages [OF assms(2) recv] by auto
  qed
  then show "kernel_ok s'" "ages (k_endpoints s e) (k_endpoints s' e)" by auto
qed

interpretation ipcs: transition_system ipc_step "\<lambda>s. kernel_ok s \<and> expired handle s" for handle
  by unfold_locales (blast intro: ipc_step_ok expired_ages)

end
