(* ===== verification/Time_Contract.thy ===== *)
theory Time_Contract
  imports Kernel_Queues
begin

text \<open>
  What the timer side of the kernel does in a state that satisfies the kernel invariant: a duration
  in ticks, the sleepers a timer interrupt wakes, the deadline a hart arms and the system call
  that puts a task to sleep.
\<close>

section \<open>Waking sleepers\<close>

lemma sorted_takeWhile_filter:
  fixes f :: "'a \<Rightarrow> 'b :: linorder"
  assumes "sorted (map f xs)"
  shows "takeWhile (\<lambda>x. f x \<le> d) xs = filter (\<lambda>x. f x \<le> d) xs" "dropWhile (\<lambda>x. f x \<le> d) xs = filter (\<lambda>x. d < f x) xs"
  using assms by (induction xs) (auto simp: empty_filter_conv not_le intro: sym [OF filter_True] dest: less_le_trans)

abbreviation wake_time :: "kst \<Rightarrow> nat \<Rightarrow> u64" where
  "wake_time s t \<equiv> dn_deadline (t_delay (k_tasks s t))"

lemma sleepers_sorted:
  assumes "kernel_ok s"
  shows "sorted (map (wake_time s) (sleep_queue h s))"
proof -
  obtain G c where g: "sim G c s" "kinv {} G (view c)" by (rule kernel_okE [OF assms(1)]) blast
  have "v_deadline (view c) = wake_time s" by (simp add: fun_eq_iff sim_reads [OF g(1)])
  then show ?thesis using qinvD(3) [OF kinvD(1) [OF g(2)]] by (simp add: queue_inv_def kernel_lists [OF g])
qed

lemma release_spec:
  assumes "kernel_ok s" and "hl_current_task (k_harts s h) = Some t"
  defines "now \<equiv> k_clock s (k_reads s)"
  shows "\<exists>s'. check_release_tasks h s = Some s' \<and> kernel_ok s' \<and>
    ready_queue s' = ready_queue s @ filter (\<lambda>u. wake_time s u \<le> now) (sleep_queue h s) \<and>
    sleep_queue h s' = filter (\<lambda>u. now < wake_time s u) (sleep_queue h s) \<and>
    (\<forall>h'. h' \<noteq> h \<longrightarrow> sleep_queue h' s' = sleep_queue h' s)"
proof -
  obtain G c where g: "sim G c s" "kinv {} G (view c)" by (rule kernel_okE [OF assms(1)]) blast
  note R = sim_reads [OF g(1)] and L = kernel_lists [OF g]
  have cur: "hl_current_task (k_harts c h) = Some t" using assms(2) by (simp add: R)
  have srt: "sorted (map (wake_time s) (g_dq G h))" using sleepers_sorted [OF assms(1), of h] by (simp add: L)
  obtain G' c' s' where r: "check_release_tasks h s = Some s'" "sim G' c' s'" "kinv {} G' (view c')"
    "g_rq G' Global_rq = g_rq G Global_rq @ takeWhile (\<lambda>u. wake_time s u \<le> now) (g_dq G h)"
    "g_dq G' = (g_dq G)(h := dropWhile (\<lambda>u. wake_time s u \<le> now) (g_dq G h))"
    using check_release_ok [OF g cur] unfolding now_def R by blast
  note L' = kernel_lists [OF r(2,3)]
  have "kernel_ok s'" using r(2,3) unfolding kernel_ok_def by blast
  then show ?thesis using r(1,4,5) srt sorted_takeWhile_filter [OF srt, of now] by (simp add: L L')
qed

text \<open>The overflow test of the sources, on numbers.\<close>

lemma max_minus_less: "UINT64_MAX - b < a \<longleftrightarrow> 2 ^ 64 - 1 < unat a + unat (b :: u64)"
proof -
  have "unat (UINT64_MAX - b) = 2 ^ 64 - 1 - unat b"
    by (subst unat_sub_le) (simp_all add: unsigned_minus_1_eq_mask mask_eq_exp_minus_1)
  then show ?thesis using unat_bound [of b] by (simp add: word_less_nat_alt) arith
qed

lemma unat_add_checked: "\<not> UINT64_MAX - b < a \<Longrightarrow> unat (a + b) = unat a + unat (b :: u64)"
  unfolding max_minus_less by (rule unat_add_no_wrap) simp

section \<open>Durations\<close>

lemma duration_to_ticks_spec:
  "unat (duration_to_ticks seconds nanoseconds) =
     (let n = unat seconds * 10000000 + (unat nanoseconds + 99) div 100 in
      if unat nanoseconds \<ge> 1000000000 \<or> n > 2 ^ 64 - 1 then 0 else max 1 n)"
proof (cases "nanoseconds \<ge> kNanosecondsPerSecond \<or> seconds > UINT64_MAX div kFrequencyHz")
  case True
  have U: "unat (UINT64_MAX div kFrequencyHz) = 1844674407370" by (simp add: kFrequencyHz_def)
  have "unat nanoseconds \<ge> 1000000000 \<or> unat seconds > 1844674407370"
    using True U by (auto simp: word_le_nat_alt word_less_nat_alt kNanosecondsPerSecond_def)
  then show ?thesis using True by (auto simp: duration_to_ticks_def Let_def)
next
  case False
  have U: "unat (UINT64_MAX div kFrequencyHz) = 1844674407370" by (simp add: kFrequencyHz_def)
  have ns: "unat nanoseconds < 1000000000" and sec: "unat seconds \<le> 1844674407370"
    using False U by (auto simp: word_le_nat_alt word_less_nat_alt kNanosecondsPerSecond_def)
  have m: "unat (seconds * kFrequencyHz) = unat seconds * 10000000"
    using sec by (simp add: unat_word_ariths kFrequencyHz_def)
  have n: "unat ((nanoseconds * kFrequencyHz + kNanosecondsPerSecond - 1) div kNanosecondsPerSecond) = (unat nanoseconds + 99) div 100"
  proof -
    have "unat (nanoseconds * kFrequencyHz) = unat nanoseconds * 10000000"
      using ns by (simp add: unat_word_ariths kFrequencyHz_def)
    then have "unat (nanoseconds * kFrequencyHz + kNanosecondsPerSecond) = unat nanoseconds * 10000000 + 1000000000"
      using ns by (simp add: unat_word_ariths kNanosecondsPerSecond_def)
    then have "unat (nanoseconds * kFrequencyHz + kNanosecondsPerSecond - 1) = unat nanoseconds * 10000000 + 999999999"
      by (subst unat_sub) (simp_all add: word_le_nat_alt)
    then have "unat ((nanoseconds * kFrequencyHz + kNanosecondsPerSecond - 1) div kNanosecondsPerSecond) =
        (unat nanoseconds * 10000000 + 999999999) div (10000000 * 100)"
      by (simp add: unat_div kNanosecondsPerSecond_def)
    also have "\<dots> = (unat nanoseconds + 99) div 100"
      unfolding div_mult2_eq by simp
    finally show ?thesis .
  qed
  have b: "(unat nanoseconds + 99) div 100 \<le> 10000000" using ns by simp
  let ?a = "seconds * kFrequencyHz" and ?b = "(nanoseconds * kFrequencyHz + kNanosecondsPerSecond - 1) div kNanosecondsPerSecond"
  have "duration_to_ticks seconds nanoseconds = (if UINT64_MAX - ?b < ?a then 0 else if ?a + ?b = 0 then 1 else ?a + ?b)"
    using False by (simp add: duration_to_ticks_def Let_def)
  moreover have "UINT64_MAX - ?b < ?a \<longleftrightarrow> 2 ^ 64 - 1 < unat seconds * 10000000 + (unat nanoseconds + 99) div 100"
    unfolding max_minus_less m n ..
  moreover have "\<not> UINT64_MAX - ?b < ?a \<Longrightarrow> unat (?a + ?b) = unat seconds * 10000000 + (unat nanoseconds + 99) div 100"
    using unat_add_checked m n by metis
  ultimately show ?thesis
    using ns by (auto simp: Let_def max_def unat_eq_0 [symmetric] simp del: unat_eq_0)
qed

section \<open>Arming the timer\<close>

lemma ticks_until_next_spec:
  assumes "0 < maximum"
  shows "0 < DelayQueue_ticks_until_next q now maximum s" "DelayQueue_ticks_until_next q now maximum s \<le> maximum"
    "k_delay_queues s q = Some t \<Longrightarrow>
       unat now + unat (DelayQueue_ticks_until_next q now maximum s) \<le> max (unat now + 1) (unat (wake_time s t))"
proof -
  have m: "1 \<le> unat maximum" using assms by (simp add: word_less_nat_alt)
  have d: "unat (d - now) = unat d - unat now" if "\<not> d \<le> now" for d using that by (intro unat_sub_le) simp
  show "0 < DelayQueue_ticks_until_next q now maximum s"
    using assms by (auto simp: DelayQueue_ticks_until_next_def Let_def word_less_nat_alt word_le_nat_alt d split: option.splits)
  show "DelayQueue_ticks_until_next q now maximum s \<le> maximum"
    using m by (auto simp: DelayQueue_ticks_until_next_def Let_def word_less_nat_alt word_le_nat_alt d split: option.splits)
  show "unat now + unat (DelayQueue_ticks_until_next q now maximum s) \<le> max (unat now + 1) (unat (wake_time s t))"
    if "k_delay_queues s q = Some t"
    using that by (auto simp: DelayQueue_ticks_until_next_def Let_def word_less_nat_alt word_le_nat_alt d)
qed

text \<open>The ticks for which a hart arms its timer.\<close>

definition armed_ticks :: "nat \<Rightarrow> u64 \<Rightarrow> kst \<Rightarrow> u64" where
  "armed_ticks h now s = (case hl_current_task (k_harts s h) of
      Some t \<Rightarrow> if t_idle (k_tasks s t) then DelayQueue_ticks_until_next h now kIdleTimesliceTicks s else hl_timeslice_ticks (k_harts s h)
    | None \<Rightarrow> hl_timeslice_ticks (k_harts s h))"

lemma arm_spec:
  assumes "kernel_ok s" and cur: "hl_current_task (k_harts s h) = Some t"
  defines "now \<equiv> k_clock s (k_reads s)"
  shows "\<exists>s'. arm_current_timeslice h s = Some s' \<and> kernel_ok s' \<and> csr_mtie (k_csr s' h) \<and>
    unat (k_mtimecmp s' (hl_hart_id (k_harts s h))) = min (2 ^ 64 - 1) (unat now + max 1 (unat (armed_ticks h now s))) \<and>
    (t_idle (k_tasks s t) \<longrightarrow> (\<forall>u us. sleep_queue h s = u # us \<longrightarrow>
       unat (k_mtimecmp s' (hl_hart_id (k_harts s h))) \<le> max (unat now + 1) (unat (wake_time s u))))"
proof -
  obtain G c where g: "sim G c s" "kinv {} G (view c)" by (rule kernel_okE [OF assms(1)]) blast
  have "ok_at h s" using assms(1) cur by (simp add: ok_at_iff)
  then obtain s' where s': "arm_current_timeslice h s = Some s'" "ok_at h s'" using arm_ok by blast
  have dl: "hl_delay_list (k_harts s h) = Some h" by (rule ok_at_current [OF \<open>ok_at h s\<close>]) blast
  let ?t = "armed_ticks h now s"
  let ?ticks = "if ?t = 0 then 1 else ?t"
  let ?d = "if now > UINT64_MAX - ?ticks then UINT64_MAX else now + ?ticks"
  have tun: "DelayQueue_ticks_until_next h now m (s\<lparr>k_reads := r\<rparr>) = DelayQueue_ticks_until_next h now m s" for m r
    by (simp add: DelayQueue_ticks_until_next_def split: option.split)
  have "arm_current_timeslice h s = Some (arm_task_deadline h ?d (s\<lparr>k_reads := Suc (k_reads s)\<rparr>))"
    using cur dl tun by (simp add: arm_current_timeslice_def read_time_def get_current_task_def now_def armed_ticks_def Let_def)
  then have e: "s' = arm_task_deadline h ?d (s\<lparr>k_reads := Suc (k_reads s)\<rparr>)" using s'(1) by simp
  then have m: "csr_mtie (k_csr s' h)" "k_mtimecmp s' (hl_hart_id (k_harts s h)) = ?d"
    by (simp_all add: arm_task_deadline_def set_mtie_def set_compare_def)
  have u: "unat ?ticks = max 1 (unat ?t)" by (simp add: max_def Suc_le_eq unat_gt_0)
  have d: "unat ?d = min (2 ^ 64 - 1) (unat now + max 1 (unat ?t))"
    using u max_minus_less [of ?ticks now] unat_add_checked [of ?ticks now]
    by (auto simp: min_def unsigned_minus_1_eq_mask mask_eq_exp_minus_1)
  have "unat ?d \<le> max (unat now + 1) (unat (wake_time s u))" if "t_idle (k_tasks s t)" "sleep_queue h s = u # us" for u us
  proof -
    have "k_delay_queues s h = Some u" using that(2) kernel_lists(2) [OF g, of h] by (simp add: sim_reads [OF g(1)])
    from ticks_until_next_spec(3) [OF _ this, of kIdleTimesliceTicks now] have "unat now + unat ?t \<le> max (unat now + 1) (unat (wake_time s u))"
      using cur that(1) by (simp add: armed_ticks_def kIdleTimesliceTicks_def)
    then show ?thesis unfolding d by (auto simp: max_def min_def split: if_splits)
  qed
  then show ?thesis using s' m d by (auto simp: ok_at_iff)
qed

section \<open>Going to sleep\<close>

lemma sleep_spec:
  assumes "kernel_ok s" and cur: "hl_current_task (k_harts s h) = Some t" and idle: "\<not> t_idle (k_tasks s t)"
  defines "now \<equiv> k_clock s (k_reads s)" and "ticks \<equiv> duration_to_ticks (task_x t 10 s) (task_x t 11 s)"
  shows "\<exists>r s'. sys_sleep h t s = Some (r, s') \<and> kernel_ok s' \<and>
    (if ticks = 0 \<or> unat now + unat ticks > 2 ^ 64 - 1
     then \<not> r \<and> hl_current_task (k_harts s' h) = Some t \<and> task_x t 10 s' = of_int kErrorInvalidArgument \<and>
       sleep_queue h s' = sleep_queue h s \<and> ready_queue s' = ready_queue s
     else r \<and> wake_time s' t = now + ticks \<and>
       sleep_queue h s' = filter (\<lambda>u. wake_time s u \<le> now + ticks) (sleep_queue h s) @ t # filter (\<lambda>u. now + ticks < wake_time s u) (sleep_queue h s) \<and>
       hl_current_task (k_harts s' h) = Some (hd (ready_queue s @ [the (hl_idle_task (k_harts s h))])) \<and> ready_queue s' = tl (ready_queue s))"
proof -
  obtain G c where g: "sim G c s" "kinv {} G (view c)" by (rule kernel_okE [OF assms(1)]) blast
  note R = sim_reads [OF g(1)] and L = kernel_lists [OF g]
  let ?c = "set_task_x t 10 0 c" and ?s = "set_task_x t 10 0 s"
  have S1: "sim G ?c ?s" by (rule set_task_x_sim [OF g(1)])
  have K1: "kinv {} G (view ?c)" and cur1: "hl_current_task (k_harts ?c h) = Some t" and idle1: "\<not> t_idle (k_tasks ?c t)"
    using g(2) cur idle by (simp_all add: R)
  note cf = current_facts [OF K1 cur1]
  have clock: "k_clock ?s (k_reads ?s) = now" by (simp add: now_def set_task_x_def)
  have dl: "deadline_of ?c u = wake_time s u" for u by (simp add: set_task_x_def R)
  note d = delay_task_ok [OF S1 K1 cur1 idle1, where secs = "task_x t 10 s" and ns = "task_x t 11 s", folded ticks_def, unfolded clock]
  show ?thesis
  proof (cases "ticks = 0 \<or> now > UINT64_MAX - ticks")
    case True
    then obtain r where r: "delay_task h t (task_x t 10 s) (task_x t 11 s) ?s = Some (False, ?s\<lparr>k_reads := r\<rparr>)"
      using d by auto
    let ?s' = "set_task_x t 10 (error_value kErrorInvalidArgument) (?s\<lparr>k_reads := r\<rparr>)"
    let ?c' = "set_task_x t 10 (error_value kErrorInvalidArgument) (?c\<lparr>k_reads := r\<rparr>)"
    have S2: "sim G ?c' ?s'" by (intro set_task_x_sim sim_other(3) S1)
    have K2: "kinv {} G (view ?c')" using K1 by (simp add: view_quiet)
    have "kernel_ok ?s'" using S2 K2 unfolding kernel_ok_def by blast
    moreover have "sys_sleep h t s = Some (False, ?s')" using r by (simp add: sys_sleep_def Let_def)
    moreover have "task_x t 10 ?s' = of_int kErrorInvalidArgument" unfolding task_x_set by (simp add: error_value_def)
    ultimately show ?thesis
      using True cur L kernel_lists [OF S2 K2] max_minus_less [of ticks now] by auto
  next
    case False
    let ?G = "enq_dq h t (now + ticks) ?c G"
    obtain c' s' where a: "delay_task h t (task_x t 10 s) (task_x t 11 s) ?s = Some (True, s')" "sim ?G c' s'" "kinv {h} ?G (view c')"
      "k_present_count c' = k_present_count ?c" "k_task_slots_used c' = k_task_slots_used ?c" "k_harts c' = k_harts ?c"
      "deadline_of c' t = now + ticks"
      using d unfolding if_not_P [OF False] by blast
    have "deref_scheduler t s' = Some ()"
      using cf(1) a(5) by (intro deref_scheduler_ok [OF a(2) kinvD(1) [OF a(3)]]) simp
    moreover obtain c2 s2 where n: "Scheduler_set_next_runnable h s' = Some (next_task h ?G c', s2)"
      "sim (deq_rq Global_rq ?G) c2 s2" "kinv {} (deq_rq Global_rq ?G) (view c2)" "hl_current_task (k_harts c2 h) = Some (next_task h ?G c')"
      "\<exists>ticks r. c2 = switch_to h (next_task h ?G c') ticks r c'"
      using reschedule [OF a(2,3)] a(4) cf(4) by auto
    ultimately have "sys_sleep h t s = Some (True, s2)" by (simp add: sys_sleep_def a(1) Let_def)
    moreover have "next_task h ?G c' = hd (ready_queue s @ [the (hl_idle_task (k_harts s h))])"
      using L(1) a(6) by (cases "g_rq G Global_rq") (simp_all add: next_task_def enq_dq_def R)
    then have "hl_current_task (k_harts s2 h) = Some (hd (ready_queue s @ [the (hl_idle_task (k_harts s h))]))"
      using n(4) by (simp add: sim_reads [OF n(2)])
    moreover have "wake_time s2 t = now + ticks" using n(5) a(7) by (auto simp: switch_to_def sim_reads [OF n(2)])
    moreover have "sorted (map (wake_time s) (g_dq G h))" using sleepers_sorted [OF assms(1), of h] by (simp add: L)
    then have "sleep_queue h s2 = filter (\<lambda>u. wake_time s u \<le> now + ticks) (sleep_queue h s) @ t # filter (\<lambda>u. now + ticks < wake_time s u) (sleep_queue h s)"
      using kernel_lists(2) [OF n(2,3), of h] by (simp add: L enq_dq_def deq_rq_def dl sorted_takeWhile_filter)
    moreover have "ready_queue s2 = tl (ready_queue s)" using kernel_lists(1) [OF n(2,3)] by (simp add: L enq_dq_def deq_rq_def)
    moreover have "kernel_ok s2" using n(2,3) unfolding kernel_ok_def by blast
    moreover have "\<not> (ticks = 0 \<or> unat now + unat ticks > 2 ^ 64 - 1)" using False max_minus_less [of ticks now] by auto
    ultimately show ?thesis by (intro exI [of _ True] exI [of _ s2]) simp
  qed
qed

end
