(* ===== verification/Spec2Isabelle.thy ===== *)
theory Spec2Isabelle
  imports Ipc_Contract Time_Contract
begin

text \<open>Root of the verification library of the Jixia firmware microkernel.\<close>

section \<open>The executive as a whole\<close>

lemma power_on_cleared: "cleared (power_on ms)" "harts_named n (power_on ms)"
  by (simp_all add: cleared_def harts_named_def power_on_def zero_hart_def)


lemma sample_fits: "image_fits sample_image (ms_lc (k_ms (power_on (pm_example lc0))))"
  by (simp add: image_fits_def sample_image_def power_on_def pm_example_eq active_kind_def initialize_contained_def backing_for_def
      range_contains_def valid_range_def kQemuContainedWindowSize_def text_pages_def kMaxTasks_def word_le_nat_alt word_less_nat_alt)


text \<open>
  C2: Booting fails closed.  Whatever the image, booting on cleared storage parks before any task
  runs exactly where a manager cannot be brought up, and a boot that does reach the first task
  leaves the kernel invariant established.
\<close>

theorem boot_outcomes:
  assumes "cleared s" and "harts_named n s" and "n \<le> kMaxHarts" and "h < n"
  shows "case bootstrap im h n s of
      None \<Rightarrow> \<not> managers_up im s
    | Some (frame, satp, s') \<Rightarrow> kernel_ok s' \<and> hl_current_task (k_harts s' h) \<noteq> None"
  using bootstrap_ok [OF assms, of im] by (auto simp: ok_at_iff split: option.splits)

text \<open>An image without a pool.\<close>

theorem boot_outcomes_witness:
  "bootstrap (sample_image\<lparr>im_pool_end := 0\<rparr>) 0 1 (power_on (pm_example lc0)) = None \<and>
   \<not> managers_up (sample_image\<lparr>im_pool_end := 0\<rparr>) (power_on (pm_example lc0))"
proof -
  let ?im = "sample_image\<lparr>im_pool_end := 0\<rparr>" and ?s = "power_on (pm_example lc0)"
  have "1 \<le> kMaxHarts" by (simp add: kMaxHarts_def)
  note o = boot_outcomes [OF power_on_cleared this zero_less_one, of ?im "pm_example lc0"]
  have "bootstrap ?im 0 1 ?s = None"
    by (simp add: bootstrap_def memory_bootstrap_def add_contained_bootstrap_pool_def sample_image_def Let_def)
  with o show ?thesis by simp
qed

text \<open>
  C0: The dispatcher is total on every trap a task can take.  It parks only for a system call that
  ends a task in one of the fail-closed cases; it is fatal only for a trap that is neither a
  system call, nor a timer interrupt, nor a breakpoint it recognises; otherwise it returns with the
  invariant intact and a task to resume.
\<close>

theorem dispatch_outcomes:
  assumes "kernel_ok s" and "hl_current_task (k_harts s h) = Some t" and "k_next_tid s \<noteq> UINT64_MAX"
    and "t_idle (k_tasks s t) \<and> is_user_ecall frame \<longrightarrow> tf_x frame 17 = 0"
  shows "case dispatch im h a frame s of
      None \<Rightarrow> is_user_ecall frame \<and> (tf_x frame 17 = 2 \<or> tf_x frame 17 \<notin> defined_calls) \<and> end_parks t (exit_kind (tf_x frame 17)) s
    | Some (Inl s') \<Rightarrow> \<not> is_user_ecall frame \<and> \<not> is_interrupt_code (tf_mcause frame) 7 \<and> \<not> fst (try_recover_breakpoint frame s)
    | Some (Inr (frame', s')) \<Rightarrow> kernel_ok s' \<and> hl_current_task (k_harts s' h) \<noteq> None"
proof -
  have ok: "ok_at h s" using assms(1,2) by (simp add: ok_at_iff)
  have "\<not> is_user_ecall frame \<and> \<not> is_interrupt_code (tf_mcause frame) 7 \<and> \<not> fst (try_recover_breakpoint frame s)"
    if d: "dispatch im h a frame s = Some (Inl s')" for s'
  proof -
    have "\<not> is_user_ecall frame"
      using d assms(2) by (auto simp: dispatch_def try_handle_ecall bind_eq_Some_conv)
    moreover from this have "try_handle im h frame s = Some (False, frame, s)"
      by (auto simp: try_handle_def is_user_ecall_def)
    ultimately show ?thesis
      using d by (auto simp: dispatch_def try_handle_machine_timer_interrupt_def bind_eq_Some_conv Let_def split: if_splits prod.splits)
  qed
  with dispatch_ok [OF ok assms(2,4,3), of im a] show ?thesis
    by (auto simp: ok_at_iff split: option.splits sum.splits)
qed

theorem dispatch_outcomes_witness:
  "is_user_ecall yield_frame \<and> (case dispatch sample_image 0 0 yield_frame demo of
      None \<Rightarrow> end_parks 1 (exit_kind 0) demo
    | Some (Inl s') \<Rightarrow> False
    | Some (Inr (frame', s')) \<Rightarrow> kernel_ok s' \<and> hl_current_task (k_harts s' 0) \<noteq> None)"
proof -
  have u: "is_user_ecall yield_frame"
    by (simp add: is_user_ecall_def yield_frame_def zero_frame_def is_exception_code_def cause_is_interrupt_def cause_code_def
        mcause_code_mask_def mcause_interrupt_mask_def)
  have "hl_current_task (k_harts demo 0) = Some 1" "k_next_tid demo \<noteq> UINT64_MAX" "tf_x yield_frame 17 = 0"
    by (simp_all add: demo_defs yield_frame_def zero_frame_def)
  with dispatch_outcomes [OF demo_ok, of 0 1 yield_frame sample_image 0] u show ?thesis
    by (auto split: option.splits sum.splits)
qed



section \<open>Queues\<close>

text \<open>
  C10: A run queue refines a list.  For every sequence of insertions of distinct tasks that are in
  no other queue, and of removals, the linked structure returns without parking, delivers
  exactly what the list delivers, and represents the final list.
\<close>

theorem run_queue_refines_list:
  assumes "rq_holds q D s xs" and "admissible (\<lambda>xs t. t \<in> D \<and> t \<notin> set xs) ops xs"
  shows "\<exists>s'. run_queue_ops (rq_put q) (RunQueue_remove q) ops s = Some (fst (run_list_ops ops xs), s') \<and>
    rq_holds q D s' (snd (run_list_ops ops xs))"
  by (rule rqf.run_refines [OF assms])

lemma demo_rq: "rq_holds Global_rq {1, 2} demo [2]"
  unfolding rq_holds_def
  by (rule exI [of _ demo_ghost], rule exI [of _ "erase demo"]) (use demo_sim in \<open>auto simp: demo_ghost_def demo_defs split: if_splits\<close>)

theorem run_queue_refines_list_witness:
  "\<exists>s'. run_queue_ops (rq_put Global_rq) (RunQueue_remove Global_rq) [Put 1, Get, Get, Get] demo = Some ([Some 2, Some 1, None], s') \<and>
    rq_holds Global_rq {1, 2} s' []"
  using run_queue_refines_list [OF demo_rq, of "[Put 1, Get, Get, Get]"] by simp

text \<open>
  C11: The message ring of an endpoint loses, duplicates and reorders nothing: for every sequence of
  stores and takes that respects its capacity, what was pending followed by what was stored is
  what was taken followed by what remains.
\<close>

theorem message_ring_conserves:
  assumes "ring_holds ep ms" and "admissible (\<lambda>ms m. length ms < kEndpointQueueDepth) ops ms"
  shows "\<exists>ys ep' zs. run_queue_ops (\<lambda>m ep. Some (push_message m ep)) ring_get ops ep = Some (ys, ep') \<and>
    ring_holds ep' zs \<and> got ys @ zs = ms @ puts ops"
  by (rule ring.run_conserves [OF assms])

theorem message_ring_conserves_witness:
  "\<exists>ys ep' zs. run_queue_ops (\<lambda>m ep. Some (push_message m ep)) ring_get [Put zero_message, Get, Get, Get] (demo_endpoints 0) = Some (ys, ep') \<and>
    ring_holds ep' zs \<and> got ys @ zs = pending (demo_endpoints 0) @ [zero_message]"
proof -
  have "ring_holds (demo_endpoints 0) (pending (demo_endpoints 0))" by (simp add: ring_holds_def demo_defs kEndpointQueueDepth_def)
  moreover have "admissible (\<lambda>ms m. length ms < kEndpointQueueDepth) [Put zero_message, Get, Get, Get] (pending (demo_endpoints 0))"
    by (simp add: length_pending demo_defs kEndpointQueueDepth_def)
  ultimately show ?thesis using message_ring_conserves [of "demo_endpoints 0" _ "[Put zero_message, Get, Get, Get]"] by simp
qed

text \<open>
  C9: Scheduling is fair.  On a hart that runs a task, the task at position \<open>i\<close> of the run queue
  runs after exactly \<open>i + 1\<close> scheduling decisions of that hart, none of which parks.
\<close>

theorem round_robin:
  assumes "kernel_ok s" and "hl_current_task (k_harts s h) = Some t" and "\<not> t_idle (k_tasks s t)" and "i < length (ready_queue s)"
  shows "\<exists>s'. take_turns (Suc i) h s = Some s' \<and> hl_current_task (k_harts s' h) = Some (ready_queue s ! i)"
  by (rule take_turns_reaches [OF assms])

lemma demo_queues: "ready_queue demo = [2]" "sleep_queue 0 demo = [3]" "waiters 0 demo = []" "waiters (Suc 0) demo = [4]"
  using kernel_lists [OF demo_sim demo_kinv] by (simp_all add: demo_ghost_def)

lemma demo_current: "hl_current_task (k_harts demo 0) = Some 1" "\<not> t_idle (k_tasks demo 1)"
  by (simp_all add: demo_defs)

theorem round_robin_witness: "\<exists>s'. take_turns 1 0 demo = Some s' \<and> hl_current_task (k_harts s' 0) = Some 2"
  using round_robin [OF demo_ok demo_current, of 0] by (simp add: demo_queues)

section \<open>Message passing\<close>

text \<open>
  C3: \<^verbatim>\<open>send\<close>.  A handle that is not live is refused and nothing changes.  Otherwise the oldest
  receiver, if there is one, becomes runnable behind the other runnable tasks with the message
  in its registers, and no queue of messages changes; without a receiver the message joins the
  pending ones, unless sixteen are pending already, when the call fails and nothing changes.
\<close>

theorem send_delivers:
  assumes "kernel_ok s"
  shows "\<exists>r s'. send sender handle words s = Some (r, s') \<and> kernel_ok s' \<and>
    (if \<not> live_handle handle s then r = kErrorInvalidArgument \<and> s' = s
     else case waiters (endpoint_of handle) s of
       w # ws \<Rightarrow> r = 0 \<and> waiters (endpoint_of handle) s' = ws \<and> ready_queue s' = ready_queue s @ [w] \<and>
         received w s' = (0, words\<lparr>msg_sender := sender\<rparr>) \<and> (\<forall>e. pending (k_endpoints s' e) = pending (k_endpoints s e))
     | [] \<Rightarrow> if length (pending (k_endpoints s (endpoint_of handle))) = kEndpointQueueDepth then r = kErrorAgain \<and> s' = s
         else r = 0 \<and> s' = upd_ep (endpoint_of handle) (push_message (words\<lparr>msg_sender := sender\<rparr>)) s \<and>
           pending (k_endpoints s' (endpoint_of handle)) = pending (k_endpoints s (endpoint_of handle)) @ [words\<lparr>msg_sender := sender\<rparr>])"
  by (rule send_spec [OF assms])

lemma demo_handles: "endpoint_of (demo_handle 0) = 0" "endpoint_of (demo_handle 1) = Suc 0"
  "live_handle (demo_handle 0) demo" "live_handle (demo_handle 1) demo"
  by (simp_all add: live_handle_def endpoint_of_def demo_handle_def hnd.dec_enc handle_well_formed_def kMaxEndpoints_def kMaxGeneration_def demo_defs)

theorem send_delivers_witness:
  "\<exists>s'. send 2 (demo_handle 1) zero_message demo = Some (0, s') \<and> waiters 1 s' = [] \<and> ready_queue s' = [2, 4] \<and>
    received 4 s' = (0, zero_message\<lparr>msg_sender := 2\<rparr>)"
  using send_delivers [OF demo_ok, of 2 "demo_handle 1" zero_message] by (auto simp: demo_handles demo_queues)

text \<open>
  C7: \<^verbatim>\<open>recv\<close> by the task that runs on a hart.  A handle that is not live is refused; a pending
  message is delivered in the order of sending; without one the task joins the receivers as
  the last and its hart switches to the next runnable task, or to its idle task.
\<close>

theorem recv_delivers_or_blocks:
  assumes "kernel_ok s" and "hl_current_task (k_harts s h) = Some t" and "\<not> t_idle (k_tasks s t)"
  shows "\<exists>r s'. recv h t handle s = Some (r, s') \<and> kernel_ok s' \<and>
    (if \<not> live_handle handle s
     then rr_status r = RS_rejected \<and> rr_error r = kErrorInvalidArgument \<and> s' = set_task_x t 10 (of_int kErrorInvalidArgument) s
     else case pending (k_endpoints s (endpoint_of handle)) of
       m # ms \<Rightarrow> rr_status r = RS_delivered \<and> rr_message r = m \<and> received t s' = (0, m) \<and>
         pending (k_endpoints s' (endpoint_of handle)) = ms
     | [] \<Rightarrow> rr_status r = RS_blocked \<and> waiters (endpoint_of handle) s' = waiters (endpoint_of handle) s @ [t] \<and>
         hl_current_task (k_harts s' h) = Some (hd (ready_queue s @ [the (hl_idle_task (k_harts s h))])) \<and>
         ready_queue s' = tl (ready_queue s))"
  by (rule recv_spec [OF assms])

lemma demo_pending: "pending (k_endpoints demo 0) = [zero_message\<lparr>msg_sender := 3, msg_word0 := 42\<rparr>]" "pending (k_endpoints demo (Suc 0)) = []"
  by (simp_all add: pending_def demo_defs kEndpointQueueDepth_def)

theorem recv_delivers_or_blocks_witness:
  "(\<exists>r s'. recv 0 1 (demo_handle 0) demo = Some (r, s') \<and> received 1 s' = (0, zero_message\<lparr>msg_sender := 3, msg_word0 := 42\<rparr>)) \<and>
   (\<exists>r s'. recv 0 1 (demo_handle 1) demo = Some (r, s') \<and> waiters 1 s' = [4, 1] \<and> hl_current_task (k_harts s' 0) = Some 2)"
  using recv_delivers_or_blocks [OF demo_ok demo_current, of "demo_handle 0"] recv_delivers_or_blocks [OF demo_ok demo_current, of "demo_handle 1"]
  by (auto simp: demo_handles demo_queues demo_pending)

text \<open>
  C15: \<^verbatim>\<open>try_recv\<close> never blocks: it refuses a handle that is not live, reports an empty queue, or
  takes the oldest pending message.
\<close>

theorem try_recv_polls:
  assumes "kernel_ok s"
  shows "kernel_ok (snd (snd (try_recv handle out s))) \<and>
    (if \<not> out \<or> \<not> live_handle handle s then try_recv handle out s = (kErrorInvalidArgument, None, s)
     else case pending (k_endpoints s (endpoint_of handle)) of
       [] \<Rightarrow> try_recv handle out s = (kErrorAgain, None, s)
     | m # ms \<Rightarrow> (\<exists>s'. try_recv handle out s = (0, Some m, s') \<and> s' = upd_ep (endpoint_of handle) pop_message s \<and>
         pending (k_endpoints s' (endpoint_of handle)) = ms))"
  by (rule try_recv_spec [OF assms])

theorem try_recv_polls_witness:
  "try_recv (demo_handle 1) True demo = (kErrorAgain, None, demo) \<and> try_recv 0 True demo = (kErrorInvalidArgument, None, demo)"
proof -
  have "\<not> live_handle 0 demo" by (simp add: live_handle_def handle_well_formed_def EndpointHandle_from_raw_def)
  then show ?thesis
    using try_recv_polls [OF demo_ok, of "demo_handle 1" True] try_recv_polls [OF demo_ok, of 0 True] by (simp add: demo_handles demo_pending)
qed


lemma demo_owner: "ep_owner (k_endpoints demo (Suc 0)) = 2"
  by (simp add: demo_defs)


text \<open>
  C8: A handle stays dead.  After its endpoint was destroyed no sequence of operations on
  endpoints, by any tasks on any harts, makes the handle live again, although the slot is reused.
\<close>

theorem expired_stays_dead:
  assumes "kernel_ok s" and "destroy_endpoint caller handle s = Some (0, s1)" and "ipc_step\<^sup>*\<^sup>* s1 s'"
  shows "\<not> live_handle handle s'"
proof -
  have "kernel_ok s1 \<and> expired handle s1"
    using destroy_spec [OF assms(1), of caller handle] assms(2) by (auto simp: kErrorInvalidArgument_def kErrorAccess_def split: if_splits)
  from ipcs.reach_inv [OF assms(3) this] show ?thesis using expired_dead by blast
qed

theorem expired_stays_dead_witness:
  "\<exists>s1. destroy_endpoint 2 (demo_handle 1) demo = Some (0, s1) \<and> \<not> live_handle (demo_handle 1) (snd (snd (create_endpoint 7 True s1)))"
proof -
  obtain s1 where s1: "destroy_endpoint 2 (demo_handle 1) demo = Some (0, s1)"
    using destroy_spec [OF demo_ok, of 2 "demo_handle 1"] by (auto simp: demo_handles demo_owner)
  have "ok_at 0 demo" using demo_ok demo_current by (simp add: ok_at_iff)
  then have cur: "\<exists>t. hl_current_task (k_harts s1 0) = Some t"
    using destroy_endpoint_ok [of 0 demo 2 "demo_handle 1"] s1 by (auto simp: ok_at_iff)
  have "ipc_step s1 (snd (snd (create_endpoint 7 True s1)))"
    using cur ipc_step.create by (metis prod.collapse)
  then show ?thesis using expired_stays_dead [OF demo_ok s1] s1 by blast
qed

text \<open>
  C16: A handle is one word, and no two handles are the same word: packing an index and a generation
  and unpacking them is the identity.
\<close>

theorem handle_round_trip:
  "EndpointHandle_from_raw (EndpointHandle_raw eh) = eh \<and>
   (EndpointHandle_raw eh = EndpointHandle_raw eh') = (eh = eh') \<and>
   EndpointHandle_raw (EndpointHandle_from_raw v) = v"
proof -
  have "EndpointHandle_raw (EndpointHandle_from_raw v) = v"
    unfolding EndpointHandle_raw_def EndpointHandle_from_raw_def
    by (rule bit_word_eqI) (auto simp: bit_simps dest: bit_imp_le_length)
  then show ?thesis by (simp add: hnd.dec_enc hnd.enc_inject)
qed

section \<open>Time\<close>

text \<open>
  C5: The timer interrupt wakes exactly the sleepers of its hart that are due, in the order of their
  deadlines, and leaves the others and the other harts' sleepers asleep.
\<close>

theorem timer_wakes_due:
  assumes "kernel_ok s" and "hl_current_task (k_harts s h) = Some t"
  shows "\<exists>s'. check_release_tasks h s = Some s' \<and> kernel_ok s' \<and> sorted (map (wake_time s) (sleep_queue h s)) \<and>
    ready_queue s' = ready_queue s @ filter (\<lambda>u. wake_time s u \<le> k_clock s (k_reads s)) (sleep_queue h s) \<and>
    sleep_queue h s' = filter (\<lambda>u. k_clock s (k_reads s) < wake_time s u) (sleep_queue h s) \<and>
    (\<forall>h'. h' \<noteq> h \<longrightarrow> sleep_queue h' s' = sleep_queue h' s)"
  using release_spec [OF assms] sleepers_sorted [OF assms(1), of h] by blast

lemma demo_wake: "wake_time demo 3 = 100" "k_clock demo n = of_nat n" "k_reads demo = 0" "t_context (k_tasks demo t) = t_context zero_task"
  by (simp_all add: demo_defs)

lemma demo_later: "kernel_ok (demo\<lparr>k_reads := r\<rparr>)"
  using demo_ok unfolding kernel_ok_def by (metis sim_other(3) view_quiet(4))

theorem timer_wakes_due_witness:
  "\<exists>s'. check_release_tasks 0 (demo\<lparr>k_reads := 100\<rparr>) = Some s' \<and> ready_queue s' = [2, 3] \<and> sleep_queue 0 s' = []"
proof -
  have "ready_queue (demo\<lparr>k_reads := 100\<rparr>) = [2]" "sleep_queue 0 (demo\<lparr>k_reads := 100\<rparr>) = [3]"
    using demo_queues by (simp_all add: ready_queue_def sleep_queue_def)
  then show ?thesis using timer_wakes_due [OF demo_later [of 100], where h = 0 and t = 1] demo_current by (auto simp: demo_wake)
qed

text \<open>
  C13: The timer is armed within bounds.  The deadline is the current time plus the time slice, at
  least one tick and saturated at the largest value, and an idle hart with sleepers is woken no
  later than the first of them, or one tick from now if that one is already due.
\<close>

theorem armed_deadline:
  assumes "kernel_ok s" and "hl_current_task (k_harts s h) = Some t"
  shows "\<exists>s'. arm_current_timeslice h s = Some s' \<and> kernel_ok s' \<and> csr_mtie (k_csr s' h) \<and>
    unat (k_mtimecmp s' (hl_hart_id (k_harts s h))) =
      min (2 ^ 64 - 1) (unat (k_clock s (k_reads s)) + max 1 (unat (armed_ticks h (k_clock s (k_reads s)) s))) \<and>
    (t_idle (k_tasks s t) \<longrightarrow> (\<forall>u us. sleep_queue h s = u # us \<longrightarrow>
       unat (k_mtimecmp s' (hl_hart_id (k_harts s h))) \<le> max (unat (k_clock s (k_reads s)) + 1) (unat (wake_time s u))))"
  by (rule arm_spec [OF assms])

theorem armed_deadline_witness:
  "\<exists>s'. arm_current_timeslice 0 demo = Some s' \<and> csr_mtie (k_csr s' 0) \<and> unat (k_mtimecmp s' 0) = 1000"
proof -
  have "hl_hart_id (k_harts demo 0) = 0" "unat (armed_ticks 0 0 demo) = 1000" by (simp_all add: armed_ticks_def demo_defs)
  then show ?thesis using armed_deadline [OF demo_ok demo_current(1)] by (auto simp: demo_wake)
qed

text \<open>
  C12: Going to sleep.  A duration that is not a number of ticks, or that ends beyond the largest time,
  is refused and the task goes on.  Otherwise the task is entered into the delay queue of its hart
  behind every sleeper that wakes no later, and the hart switches to the next runnable task, or to
  its idle task.
\<close>

theorem sleep_until_deadline:
  assumes "kernel_ok s" and "hl_current_task (k_harts s h) = Some t" and "\<not> t_idle (k_tasks s t)"
    and "now = k_clock s (k_reads s)" and "ticks = duration_to_ticks (task_x t 10 s) (task_x t 11 s)"
  shows "\<exists>r s'. sys_sleep h t s = Some (r, s') \<and> kernel_ok s' \<and>
    (if ticks = 0 \<or> unat now + unat ticks > 2 ^ 64 - 1
     then \<not> r \<and> hl_current_task (k_harts s' h) = Some t \<and> task_x t 10 s' = of_int kErrorInvalidArgument \<and>
       sleep_queue h s' = sleep_queue h s \<and> ready_queue s' = ready_queue s
     else r \<and> wake_time s' t = now + ticks \<and>
       sleep_queue h s' = filter (\<lambda>u. wake_time s u \<le> now + ticks) (sleep_queue h s) @ t # filter (\<lambda>u. now + ticks < wake_time s u) (sleep_queue h s) \<and>
       hl_current_task (k_harts s' h) = Some (hd (ready_queue s @ [the (hl_idle_task (k_harts s h))])) \<and> ready_queue s' = tl (ready_queue s))"
  unfolding assms(4,5) by (rule sleep_spec [OF assms(1-3)])

theorem sleep_until_deadline_witness:
  "\<exists>s'. sys_sleep 0 1 demo = Some (True, s') \<and> wake_time s' 1 = 1 \<and> sleep_queue 0 s' = [1, 3] \<and> hl_current_task (k_harts s' 0) = Some 2"
proof -
  have "task_x 1 10 demo = 0" "task_x 1 11 demo = 0" by (simp_all add: task_x_def demo_defs zero_context_def)
  moreover have "duration_to_ticks 0 0 = 1" by (simp add: duration_to_ticks_def Let_def kNanosecondsPerSecond_def kFrequencyHz_def)
  moreover have "\<not> (100 :: u64) \<le> 1" by (simp add: word_le_nat_alt)
  ultimately show ?thesis using sleep_until_deadline [OF demo_ok demo_current refl refl] by (auto simp: demo_wake demo_queues)
qed

text \<open>
  C14: A duration in ticks is computed as over the integers: the seconds times the frequency plus the
  nanoseconds rounded up to ticks of 100 ns, at least one; and zero, which stands for an error,
  exactly when the nanoseconds are not below one second or the result exceeds 64 bits.
\<close>

theorem duration_exact:
  "unat (duration_to_ticks seconds nanoseconds) =
     (let n = unat seconds * 10000000 + (unat nanoseconds + 99) div 100 in
      if unat nanoseconds \<ge> 1000000000 \<or> n > 2 ^ 64 - 1 then 0 else max 1 n)"
  by (rule duration_to_ticks_spec)

end
